(* ===== verification/Prelude.thy ===== *)
theory Prelude
  imports Main "HOL-Library.Word" "HOL-Library.State_Monad"
begin

text \<open>
  Shared ground of the procfs development: machine-integer and byte-string types, the
  errno values, the parts of the C library the sources use (\<open>strlcpy\<close>, \<open>strnlen\<close>,
  \<open>snprintf\<close> conversions, little-endian scalars), the \<open>uio\<close> a vnode operation is given,
  the kernel objects the file system looks at, and the generic list and word lemmas the
  component theories rest on.

  Bytes are Isabelle's 8-bit \<^typ>\<open>char\<close>s, so a C string and a C buffer are both
  \<^typ>\<open>char list\<close>s; a C string is a list without the NUL byte.
\<close>

unbundle bit_operations_syntax

section \<open>Types and collections\<close>

type_synonym u8 = "8 word"
type_synonym u16 = "16 word"
type_synonym u32 = "32 word"
type_synonym u64 = "64 word"

type_synonym bytes = "char list"
type_synonym cstring = "char list"

named_theorems uio_simps "rewrite rules for the uio accessors"
named_theorems step_intros "introduction rules of the step relations"
named_theorems inv_intros "preservation of component invariants"

section \<open>Error codes\<close>

text \<open>
  Kernel functions return an \<open>int\<close>: 0 or an errno. The codes stay integers, since some
  of them arrive over the wire from the daemon and are compared numerically.
\<close>

type_synonym errno = int
type_synonym 'a res = "errno + 'a"

abbreviation EPERM :: errno where "EPERM \<equiv> 1"
abbreviation ENOENT :: errno where "ENOENT \<equiv> 2"
abbreviation ESRCH :: errno where "ESRCH \<equiv> 3"
abbreviation EIO :: errno where "EIO \<equiv> 5"
abbreviation ENOMEM :: errno where "ENOMEM \<equiv> 12"
abbreviation EACCES :: errno where "EACCES \<equiv> 13"
abbreviation EFAULT :: errno where "EFAULT \<equiv> 14"
abbreviation EBUSY :: errno where "EBUSY \<equiv> 16"
abbreviation ENOTDIR :: errno where "ENOTDIR \<equiv> 20"
abbreviation EISDIR :: errno where "EISDIR \<equiv> 21"
abbreviation EINVAL :: errno where "EINVAL \<equiv> 22"
abbreviation EROFS :: errno where "EROFS \<equiv> 30"
abbreviation EMSGSIZE :: errno where "EMSGSIZE \<equiv> 40"
abbreviation ENOTSUP :: errno where "ENOTSUP \<equiv> 45"
abbreviation ENOTCONN :: errno where "ENOTCONN \<equiv> 57"
abbreviation ETIMEDOUT :: errno where "ETIMEDOUT \<equiv> 60"
abbreviation EOPNOTSUPP :: errno where "EOPNOTSUPP \<equiv> 102"

section \<open>C strings and conversions\<close>

abbreviation NUL :: char where "NUL \<equiv> CHR 0x00"
abbreviation NEWLINE :: char where "NEWLINE \<equiv> CHR 0x0A"

definition strlcpy :: "cstring \<Rightarrow> nat \<Rightarrow> cstring" where
  \<comment> \<open>contents of the destination after \<open>strlcpy(dst, src, size)\<close>, for \<open>size > 0\<close>\<close>
  "strlcpy src sz = take (sz - 1) src"

definition strnlen :: "bytes \<Rightarrow> nat \<Rightarrow> nat" where
  "strnlen s n = length (takeWhile (\<lambda>c. c \<noteq> NUL) (take n s))"

definition is_digit :: "char \<Rightarrow> bool" where
  "is_digit c \<longleftrightarrow> 48 \<le> (of_char c :: nat) \<and> (of_char c :: nat) \<le> 57"

definition digit_val :: "char \<Rightarrow> nat" where
  "digit_val c = of_char c - 48"

definition digit_char :: "nat \<Rightarrow> char" where
  "digit_char d = char_of (48 + d)"

text \<open>The \<open>%u\<close>/\<open>%llu\<close> and \<open>%d\<close>/\<open>%lld\<close> conversions.\<close>

fun dec :: "nat \<Rightarrow> string" where
  "dec n = (if n < 10 then [digit_char n] else dec (n div 10) @ [digit_char (n mod 10)])"

declare dec.simps [simp del]

definition dec_int :: "int \<Rightarrow> string" where
  "dec_int i = (if i < 0 then CHR ''-'' # dec (nat (- i)) else dec (nat i))"

text \<open>\<open>snprintf(buf, size, \<dots>)\<close> stores at most \<open>size - 1\<close> bytes.\<close>

definition snprintf :: "nat \<Rightarrow> string \<Rightarrow> string" where
  "snprintf sz s = take (sz - 1) s"

text \<open>Scalars in memory are little endian on both supported architectures.\<close>

fun le_bytes :: "nat \<Rightarrow> nat \<Rightarrow> bytes" where
  "le_bytes 0 n = []"
| "le_bytes (Suc k) n = char_of (n mod 256) # le_bytes k (n div 256)"

fun le_nat :: "bytes \<Rightarrow> nat" where
  "le_nat [] = 0"
| "le_nat (c # cs) = of_char c + 256 * le_nat cs"

definition le_int32 :: "bytes \<Rightarrow> int" where
  "le_int32 bs = sint (of_nat (le_nat (take 4 bs)) :: u32)"

definition int32_bytes :: "int \<Rightarrow> bytes" where
  "int32_bytes i = le_bytes 4 (unat (of_int i :: u32))"

text \<open>Conversion to a 32-bit \<open>int\<close>.\<close>

definition int32 :: "int \<Rightarrow> int" where
  "int32 i = sint (of_int i :: u32)"

lemma int32_id: "- (2 ^ 31) \<le> i \<Longrightarrow> i < 2 ^ 31 \<Longrightarrow> int32 i = i"
  by (simp add: int32_def sint_sbintrunc' signed_take_bit_int_eq_self)

lemma length_le_bytes [simp]: "length (le_bytes k n) = k"
  by (induction k n rule: le_bytes.induct) auto

lemma le_nat_le_bytes: "le_nat (le_bytes k n) = n mod 256 ^ k"
proof (induction k n rule: le_bytes.induct)
  case (2 k n)
  then show ?case
    by (simp add: mod_mult2_eq)
qed simp

lemma le_int32_bytes:
  assumes "- (2 ^ 31) \<le> i" and "i < 2 ^ 31"
  shows "le_int32 (int32_bytes i) = i"
proof -
  let ?w = "of_int i :: u32"
  have "unat ?w < 256 ^ 4"
    using unsigned_less [of ?w] by simp
  then have "le_nat (le_bytes 4 (unat ?w)) = unat ?w"
    by (simp add: le_nat_le_bytes)
  then show ?thesis
    using assms by (simp add: le_int32_def int32_bytes_def sint_sbintrunc' signed_take_bit_int_eq_self)
qed

lemma length_int32_bytes [simp]: "length (int32_bytes i) = 4"
  by (simp add: int32_bytes_def)

lemma is_digit_digit_char [simp]: "d < 10 \<Longrightarrow> is_digit (digit_char d)"
  by (simp add: is_digit_def digit_char_def)

lemma digit_val_digit_char [simp]: "d < 10 \<Longrightarrow> digit_val (digit_char d) = d"
  by (simp add: digit_val_def digit_char_def)

lemma dec_nonempty [simp]: "dec n \<noteq> []"
  by (subst dec.simps) simp

lemma dec_digits: "c \<in> set (dec n) \<Longrightarrow> is_digit c"
proof (induction n rule: dec.induct)
  case (1 n)
  show ?case
  proof (cases "n < 10")
    case True
    with "1.prems" show ?thesis by (simp add: dec.simps [of n])
  next
    case False
    with "1.prems" have "c \<in> set (dec (n div 10)) \<or> c = digit_char (n mod 10)"
      by (auto simp: dec.simps [of n])
    with "1.IH" False show ?thesis by auto
  qed
qed

definition digits_value :: "nat \<Rightarrow> string \<Rightarrow> nat" where
  "digits_value a s = foldl (\<lambda>v c. v * 10 + digit_val c) a s"

lemma digits_value_dec: "digits_value 0 (dec n) = n"
proof (induction n rule: dec.induct)
  case (1 n)
  show ?case
  proof (cases "n < 10")
    case True
    then show ?thesis by (simp add: dec.simps [of n] digits_value_def)
  next
    case False
    with "1.IH" have "digits_value 0 (dec (n div 10)) = n div 10" by simp
    with False show ?thesis
      by (simp add: dec.simps [of n] digits_value_def)
  qed
qed

lemma dec_inj: "dec m = dec n \<Longrightarrow> m = n"
  by (metis digits_value_dec)

lemma dec_length_le: "n < 10 ^ k \<Longrightarrow> 0 < k \<Longrightarrow> length (dec n) \<le> k"
proof (induction k arbitrary: n)
  case (Suc k)
  show ?case
  proof (cases "n < 10")
    case True
    then show ?thesis by (simp add: dec.simps [of n])
  next
    case False
    with Suc.prems have "n div 10 < 10 ^ k" by (simp add: less_mult_imp_div_less)
    moreover from False Suc.prems have "0 < k" by (cases k) auto
    ultimately have "length (dec (n div 10)) \<le> k" by (rule Suc.IH)
    with False show ?thesis by (simp add: dec.simps [of n])
  qed
qed simp

lemma dec_int_nat: "0 \<le> i \<Longrightarrow> dec_int i = dec (nat i)"
  by (simp add: dec_int_def)

lemma NUL_not_digit [simp]: "\<not> is_digit NUL"
  by (simp add: is_digit_def)

lemma strnlen_le: "strnlen s n \<le> n"
  unfolding strnlen_def
  by (rule order_trans [OF length_takeWhile_le]) simp

lemma strnlen_le_length: "strnlen s n \<le> length s"
  unfolding strnlen_def
  by (rule order_trans [OF length_takeWhile_le]) simp

lemma strnlen_append:
  assumes "NUL \<notin> set s" and "length s < n"
  shows "strnlen (s @ NUL # rest) n = length s"
proof -
  from assms(2) obtain m where m: "n - length s = Suc m"
    by (metis Suc_diff_Suc)
  have all: "\<forall>c \<in> set s. c \<noteq> NUL"
    using assms(1) by auto
  have "takeWhile (\<lambda>c. c \<noteq> NUL) (take n (s @ NUL # rest)) = s"
    using all assms(2) by (simp add: m takeWhile_append2)
  then show ?thesis by (simp add: strnlen_def)
qed

section \<open>The uio of a vnode operation\<close>

text \<open>
  A \<open>uio_t\<close> is opaque to the kext, which reads it through \<open>uio_rw\<close>, \<open>uio_offset\<close> and
  \<open>uio_resid\<close>. \<open>uio_user\<close> is the user's memory as the operation sees it: for a read the
  bytes delivered so far, for a write the bytes still to be taken.
\<close>

datatype uio_direction = UIO_READ | UIO_WRITE

record uio =
  uio_rw :: uio_direction
  uio_offset :: int
  uio_resid :: int
  uio_user :: bytes

definition uio_push :: "bytes \<Rightarrow> uio \<Rightarrow> uio" where
  "uio_push d u = u\<lparr>uio_offset := uio_offset u + int (length d),
     uio_resid := uio_resid u - int (length d), uio_user := uio_user u @ d\<rparr>"

definition uio_pull :: "nat \<Rightarrow> uio \<Rightarrow> uio" where
  "uio_pull n u = u\<lparr>uio_offset := uio_offset u + int n,
     uio_resid := uio_resid u - int n, uio_user := drop n (uio_user u)\<rparr>"

lemma uio_push_simps [simp, uio_simps]:
  "uio_rw (uio_push d u) = uio_rw u"
  "uio_offset (uio_push d u) = uio_offset u + int (length d)"
  "uio_resid (uio_push d u) = uio_resid u - int (length d)"
  "uio_user (uio_push d u) = uio_user u @ d"
  by (simp_all add: uio_push_def)

lemma uio_push_Nil [simp, uio_simps]: "uio_push [] u = u"
  by (simp add: uio_push_def)

lemma uio_push_push [simp, uio_simps]: "uio_push e (uio_push d u) = uio_push (d @ e) u"
  by (simp add: uio_push_def)

text \<open>
  \<open>uiomove\<close> is kernel code outside the repository, so it is an argument of the operations
  that call it. Its documented behaviour: a successful call moves \<open>min(n, resid)\<close> bytes
  (none for \<open>n \<le> 0\<close>) and advances the uio by what it moved; it can fail with \<open>EFAULT\<close>
  when the user's memory is not accessible.
\<close>

type_synonym uiomove_out = "bytes \<Rightarrow> int \<Rightarrow> uio \<Rightarrow> errno \<times> uio"
type_synonym uiomove_in = "int \<Rightarrow> uio \<Rightarrow> errno \<times> bytes \<times> uio"

definition move_len :: "int \<Rightarrow> uio \<Rightarrow> nat" where
  "move_len n u = nat (min n (uio_resid u))"

definition uiomove_out_law :: "uiomove_out \<Rightarrow> bool" where
  "uiomove_out_law mv \<longleftrightarrow> (\<forall>d n u. fst (mv d n u) = 0 \<longrightarrow>
     mv d n u = (0, uio_push (take (move_len n u) d) u))"

definition uiomove_out_nofault :: "uiomove_out \<Rightarrow> bool" where
  "uiomove_out_nofault mv \<longleftrightarrow> (\<forall>d n u. fst (mv d n u) = 0)"

definition uiomove_in_law :: "uiomove_in \<Rightarrow> bool" where
  "uiomove_in_law mv \<longleftrightarrow> (\<forall>n u. fst (mv n u) = 0 \<longrightarrow>
     mv n u = (0, take (move_len n u) (uio_user u), uio_pull (move_len n u) u))"

definition uiomove_in_nofault :: "uiomove_in \<Rightarrow> bool" where
  "uiomove_in_nofault mv \<longleftrightarrow> (\<forall>n u. fst (mv n u) = 0)"

lemma uiomove_outD:
  "uiomove_out_law mv \<Longrightarrow> uiomove_out_nofault mv \<Longrightarrow>
     mv d n u = (0, uio_push (take (move_len n u) d) u)"
  by (simp add: uiomove_out_law_def uiomove_out_nofault_def)

lemma uiomove_out_ok:
  "uiomove_out_law mv \<Longrightarrow> mv d n u = (0, u') \<Longrightarrow> u' = uio_push (take (move_len n u) d) u"
  unfolding uiomove_out_law_def by (metis fst_conv snd_conv)

lemma uiomove_inD:
  "uiomove_in_law mv \<Longrightarrow> uiomove_in_nofault mv \<Longrightarrow>
     mv n u = (0, take (move_len n u) (uio_user u), uio_pull (move_len n u) u)"
  by (simp add: uiomove_in_law_def uiomove_in_nofault_def)

text \<open>Concrete movers that satisfy the laws, for the witnesses.\<close>

definition mv_out :: uiomove_out where
  "mv_out d n u = (0, uio_push (take (move_len n u) d) u)"

definition mv_in :: uiomove_in where
  "mv_in n u = (0, take (move_len n u) (uio_user u), uio_pull (move_len n u) u)"

lemma mv_out_law [simp]: "uiomove_out_law mv_out" "uiomove_out_nofault mv_out"
  by (simp_all add: uiomove_out_law_def uiomove_out_nofault_def mv_out_def)

lemma mv_in_law [simp]: "uiomove_in_law mv_in" "uiomove_in_nofault mv_in"
  by (simp_all add: uiomove_in_law_def uiomove_in_nofault_def mv_in_def)

section \<open>Generic list lemmas\<close>

lemma distinct_map_nthD:
  "distinct (map f xs) \<Longrightarrow> i < length xs \<Longrightarrow> j < length xs \<Longrightarrow> f (xs ! i) = f (xs ! j) \<Longrightarrow> i = j"
  by (metis distinct_conv_nth length_map nth_map)

lemma find_Some_iff_first:
  "List.find P xs = Some x \<Longrightarrow> x \<in> set xs \<and> P x"
  by (metis find_Some_iff nth_mem)

lemma find_None_set: "List.find P xs = None \<longleftrightarrow> (\<forall>x \<in> set xs. \<not> P x)"
  by (auto simp: find_None_iff)

lemma find_unique:
  assumes "distinct (map f xs)" and "x \<in> set xs"
  shows "List.find (\<lambda>y. f y = f x) xs = Some x"
proof (cases "List.find (\<lambda>y. f y = f x) xs")
  case None
  with assms(2) show ?thesis by (auto simp: find_None_set)
next
  case (Some y)
  then have "y \<in> set xs" "f y = f x" by (auto dest: find_Some_iff_first)
  with assms have "y = x" by (metis distinct_map inj_onD)
  with Some show ?thesis by simp
qed

end
