(* ===== verification/Types.thy ===== *)
theory Types
  imports Prelude
begin

text \<open>
  The data of \<open>include/fs/procfs/procfs.h\<close>: node types, structure nodes, node identifiers, the
  per-mount record, the per-vnode record, and the inline predicates over them. Pointers into
  the structure tree and into the node table are allocation indices.
\<close>

section \<open>Node types\<close>

datatype (plugins only: code) pfstype =
    PFSroot | PFSproc | PFSthread | PFSdir | PFSfile | PFSdirthis | PFSdirparent |
    PFScurproc | PFSprocnamedir | PFSfd | PFScpuinfo | PFSloadavg | PFSpartitions |
    PFSversion | PFSmeminfo | PFSmtab | PFSstat | PFSvmstat | PFSuptime | PFSswaps |
    PFSfilesystems | PFSproclink | PFSsysctl | PFSextensions | PFSmodules | PFSdiskstats |
    PFSdevices | PFSnetdev | PFSallocinfo | PFSapm | PFSbootconfig | PFSbuddyinfo |
    PFSpcidevices | PFSdma | PFSrtc | PFSexecdomains | PFSfb | PFSnfsexports |
    PFSinterrupts | PFSirq | PFStty | PFSioports | PFSiomem | PFSsoftirqs | PFSkcmdline |
    PFSide | PFSvmallocinfo | PFSisapnp | PFSscsi | PFSsysvipc | PFSpagetypeinfo |
    PFSslabinfo | PFSlocks | PFSkcore | PFSkmsg | PFSlastkmsg | PFSksyms | PFSmisc

text \<open>A node type is a directory unless it is one of the listed leaf types.\<close>

definition procfs_nondirectory_types :: "pfstype list" where
  "procfs_nondirectory_types =
    [PFScurproc, PFSloadavg, PFSfile, PFScpuinfo, PFSpartitions, PFSversion, PFSmeminfo,
     PFSmtab, PFSstat, PFSvmstat, PFSuptime, PFSproclink, PFSswaps, PFSfilesystems,
     PFSsysctl, PFSextensions, PFSmodules, PFSdiskstats, PFSdevices, PFSnetdev,
     PFSallocinfo, PFSapm, PFSbootconfig, PFSbuddyinfo, PFSpcidevices, PFSdma, PFSrtc,
     PFSexecdomains, PFSfb, PFSnfsexports, PFSinterrupts, PFSirq, PFStty, PFSioports,
     PFSiomem, PFSsoftirqs, PFSkcmdline, PFSide, PFSvmallocinfo, PFSisapnp, PFSscsi,
     PFSsysvipc, PFSpagetypeinfo, PFSslabinfo, PFSlocks, PFSkcore, PFSkmsg, PFSlastkmsg,
     PFSksyms, PFSmisc]"

definition procfs_is_directory_type :: "pfstype \<Rightarrow> bool" where
  "procfs_is_directory_type type \<longleftrightarrow> type \<notin> set procfs_nondirectory_types"

section \<open>Structure nodes\<close>

type_synonym sptr = nat
type_synonym pfsbaseid = u16

definition PSN_FLAG_PROCESS :: u16 where "PSN_FLAG_PROCESS = 1"
definition PSN_FLAG_THREAD :: u16 where "PSN_FLAG_THREAD = 2"
definition PRNODE_NO_PID :: int where "PRNODE_NO_PID = - 1"
definition PRNODE_NO_OBJECTID :: u64 where "PRNODE_NO_OBJECTID = 0"
definition PROCFS_ROOT_NODE_BASE_ID :: pfsbaseid where "PROCFS_ROOT_NODE_BASE_ID = 1"
definition MAX_STRUCT_NODE_NAME_LEN :: nat where "MAX_STRUCT_NODE_NAME_LEN = 32"

text \<open>
  The two function pointers of a structure node carry the C name of the function they point
  to, \<^const>\<open>None\<close> standing for NULL. The child queue is the list of the children in queue order.
\<close>

record pfssnode =
  psn_node_type :: pfstype
  psn_name :: cstring
  psn_base_node_id :: pfsbaseid
  psn_flags :: u16
  psn_parent :: "sptr option"
  psn_children :: "sptr list"
  psn_node_size :: nat
  psn_getsize_fn :: "string option"
  psn_read_data_fn :: "string option"

section \<open>Node identifiers, mounts and nodes\<close>

record pfsid =
  nodeid_pid :: int
  nodeid_objectid :: u64
  nodeid_base_id :: pfsbaseid

record pfsmount =
  pmnt_id :: int
  pmnt_flags :: u32
  pmnt_mp :: nat
  pmnt_mount_time :: "int \<times> int"

record pfsnode =
  node_vnode :: "nat option"
  node_attaching_vnode :: bool
  node_thread_waiting_attach :: bool
  node_mnt_id :: int
  node_id :: pfsid
  node_structure_node :: sptr

definition PROCFS_MOPT_NOPROCPERMS :: u32 where "PROCFS_MOPT_NOPROCPERMS = 1"

definition procfs_should_access_check :: "pfsmount \<Rightarrow> bool" where
  "procfs_should_access_check pmp \<longleftrightarrow> pmnt_flags pmp AND PROCFS_MOPT_NOPROCPERMS = 0"

definition procfsnode_to_pid :: "pfsnode \<Rightarrow> int" where
  "procfsnode_to_pid pnp = nodeid_pid (node_id pnp)"

definition mk_id :: "int \<Rightarrow> u64 \<Rightarrow> pfsbaseid \<Rightarrow> pfsid" where
  "mk_id pid obj base = \<lparr>nodeid_pid = pid, nodeid_objectid = obj, nodeid_base_id = base\<rparr>"

lemma mk_id_simps [simp]:
  "nodeid_pid (mk_id p q b) = p" "nodeid_objectid (mk_id p q b) = q"
  "nodeid_base_id (mk_id p q b) = b"
  by (simp_all add: mk_id_def)

lemma mk_id_eq_iff [simp]: "mk_id p q b = mk_id p' q' b' \<longleftrightarrow> p = p' \<and> q = q' \<and> b = b'"
  by (auto simp: mk_id_def)

end
