(* ===== verification/Structure.thy ===== *)
theory Structure
  imports Types
begin

text \<open>
  The layout tree of \<open>kext/procfs_structure.c\<close>. \<open>pfs_store\<close> is the heap of structure nodes together
  with the two file-scope variables \<open>next_node_id\<close> and \<open>root_node\<close>; a node pointer is the index at
  which \<open>OSMalloc\<close> placed the node, and \<open>sn_freed\<close> lists the pointers given back to \<open>OSFree\<close>, in
  order. \<open>add_node\<close>, \<open>add_directory\<close> and \<open>add_file\<close> are state-monad programs, and
  \<open>procfs_structure_init\<close> is the sequence of calls of the source, cut into the groups its
  comments form. A failed allocation panics the machine, so there is no state after it and no
  branch for it here. The lemmas show that the operations keep the tree well formed and what
  the finished tree guarantees to lookup, readdir and the node table.
\<close>

section \<open>The structure heap\<close>

record pfs_store =
  sn_heap :: "pfssnode list"
  sn_freed :: "sptr list"
  sn_next_id :: pfsbaseid
  sn_root :: "sptr option"
  sn_log :: "cstring list"

definition structure_initial :: pfs_store where
  "structure_initial = \<lparr>sn_heap = [], sn_freed = [],
     sn_next_id = PROCFS_ROOT_NODE_BASE_ID + 1, sn_root = None, sn_log = []\<rparr>"

definition procfs_structure_root_node :: "pfs_store \<Rightarrow> sptr option" where
  "procfs_structure_root_node st = sn_root st"

section \<open>Creation of structure nodes\<close>

text \<open>The expression \<open>next_node_id++\<close>.\<close>

definition fresh_node_id :: "(pfs_store, pfsbaseid) state" where
  "fresh_node_id = State (\<lambda>st. (sn_next_id st, st\<lparr>sn_next_id := sn_next_id st + 1\<rparr>))"

definition append_child :: "sptr \<Rightarrow> pfssnode \<Rightarrow> pfssnode" where
  "append_child c p = p\<lparr>psn_children := psn_children p @ [c]\<rparr>"

definition inherited_flags :: "pfssnode list \<Rightarrow> sptr option \<Rightarrow> u16" where
  "inherited_flags heap parent = (case parent of None \<Rightarrow> 0
     | Some p \<Rightarrow> psn_flags (heap ! p) AND (PSN_FLAG_PROCESS OR PSN_FLAG_THREAD))"

text \<open>
  \<open>add_node\<close>: zero-filled allocation, the field assignments (with the name truncated by
  \<open>strlcpy\<close>, which is logged), insertion at the tail of the parent's child queue and the
  downward propagation of the process and thread flags.
\<close>

definition add_node :: "sptr option \<Rightarrow> cstring \<Rightarrow> pfstype \<Rightarrow> pfsbaseid \<Rightarrow> u16 \<Rightarrow> nat \<Rightarrow>
    string option \<Rightarrow> string option \<Rightarrow> (pfs_store, sptr) state" where
  "add_node parent name type nid flags sz node_size_fn node_read_data_fn = State (\<lambda>st.
     let ptr = length (sn_heap st);
         node = \<lparr>psn_node_type = type,
                 psn_name = strlcpy name MAX_STRUCT_NODE_NAME_LEN,
                 psn_base_node_id = nid,
                 psn_flags = flags OR inherited_flags (sn_heap st) parent,
                 psn_parent = parent,
                 psn_children = [],
                 psn_node_size = sz,
                 psn_getsize_fn = node_size_fn,
                 psn_read_data_fn = node_read_data_fn\<rparr>;
         linked = (case parent of None \<Rightarrow> sn_heap st
                   | Some p \<Rightarrow> (sn_heap st)[p := append_child ptr (sn_heap st ! p)]);
         log = (if MAX_STRUCT_NODE_NAME_LEN \<le> length name then [name] else [])
     in (ptr, st\<lparr>sn_heap := linked @ [node], sn_log := sn_log st @ log\<rparr>))"

text \<open>
  \<open>add_directory\<close> calls itself with \<open>raw\<close> set for the two dot entries; with \<open>raw\<close> set it is
  just the \<^const>\<open>add_node\<close> call.
\<close>

definition add_dot_entry :: "sptr \<Rightarrow> cstring \<Rightarrow> pfstype \<Rightarrow> u16 \<Rightarrow> (pfs_store, sptr) state" where
  "add_dot_entry snode name type flags = do {
     nid \<leftarrow> fresh_node_id;
     add_node (Some snode) name type nid (flags AND (PSN_FLAG_PROCESS OR PSN_FLAG_THREAD))
       0 None None }"

definition add_directory :: "sptr option \<Rightarrow> cstring \<Rightarrow> pfstype \<Rightarrow> pfsbaseid \<Rightarrow> u16 \<Rightarrow> bool \<Rightarrow>
    string option \<Rightarrow> string option \<Rightarrow> (pfs_store, sptr) state" where
  "add_directory parent name type nid flags raw node_size_fn node_read_data_fn = do {
     snode \<leftarrow> add_node parent name type nid flags 0 node_size_fn node_read_data_fn;
     if raw then State_Monad.return snode
     else do {
       _ \<leftarrow> add_dot_entry snode ''.'' PFSdirthis flags;
       _ \<leftarrow> add_dot_entry snode ''..'' PFSdirparent flags;
       State_Monad.return snode } }"

definition add_file :: "sptr option \<Rightarrow> cstring \<Rightarrow> pfsbaseid \<Rightarrow> u16 \<Rightarrow> nat \<Rightarrow>
    string option \<Rightarrow> string option \<Rightarrow> (pfs_store, sptr) state" where
  "add_file parent name nid flags sz node_size_fn node_read_data_fn =
     add_node parent name PFSfile nid flags sz node_size_fn node_read_data_fn"

section \<open>The layout\<close>

text \<open>Sizes of the structures a fixed-size file carries (\<open>sys/proc_info.h\<close>).\<close>

definition sizeof_proc_bsdshortinfo :: nat where "sizeof_proc_bsdshortinfo = 64"
definition sizeof_proc_taskinfo :: nat where "sizeof_proc_taskinfo = 96"
definition sizeof_proc_threadinfo :: nat where "sizeof_proc_threadinfo = 112"
definition sizeof_vnode_fdinfowithpath :: nat where "sizeof_vnode_fdinfowithpath = 1200"
definition sizeof_socket_fdinfo :: nat where "sizeof_socket_fdinfo = 792"

text \<open>Root-level files from \<open>cpuinfo\<close> to \<open>sys\<close>.\<close>

definition structure_root_files :: "sptr \<Rightarrow> (pfs_store, unit) state" where
  "structure_root_files root_node = do {
     nid \<leftarrow> fresh_node_id; _ \<leftarrow> add_node (Some root_node) ''cpuinfo'' PFScpuinfo nid 0 0 None (Some ''procfs_docpuinfo'');
     nid \<leftarrow> fresh_node_id; _ \<leftarrow> add_node (Some root_node) ''curproc'' PFScurproc nid 0 0 None None;
     nid \<leftarrow> fresh_node_id; _ \<leftarrow> add_node (Some root_node) ''loadavg'' PFSloadavg nid 0 0 None (Some ''procfs_doloadavg'');
     nid \<leftarrow> fresh_node_id; _ \<leftarrow> add_node (Some root_node) ''kcore'' PFSkcore nid 0 0 None (Some ''procfs_dokcore'');
     nid \<leftarrow> fresh_node_id; _ \<leftarrow> add_node (Some root_node) ''kmsg'' PFSkmsg nid 0 0 None (Some ''procfs_dokmsg'');
     nid \<leftarrow> fresh_node_id; _ \<leftarrow> add_node (Some root_node) ''last_kmsg'' PFSlastkmsg nid 0 0 None (Some ''procfs_dolast_kmsg'');
     nid \<leftarrow> fresh_node_id; _ \<leftarrow> add_node (Some root_node) ''ksyms'' PFSksyms nid 0 0 None (Some ''procfs_doksyms'');
     nid \<leftarrow> fresh_node_id; _ \<leftarrow> add_node (Some root_node) ''kallsyms'' PFSksyms nid 0 0 None (Some ''procfs_dokallsyms'');
     nid \<leftarrow> fresh_node_id; _ \<leftarrow> add_node (Some root_node) ''locks'' PFSlocks nid 0 0 None (Some ''procfs_dolocks'');
     nid \<leftarrow> fresh_node_id; _ \<leftarrow> add_node (Some root_node) ''meminfo'' PFSmeminfo nid 0 0 None (Some ''procfs_domeminfo'');
     nid \<leftarrow> fresh_node_id; _ \<leftarrow> add_node (Some root_node) ''misc'' PFSmisc nid 0 0 None (Some ''procfs_domisc'');
     nid \<leftarrow> fresh_node_id; _ \<leftarrow> add_node (Some root_node) ''mtab'' PFSmtab nid 0 0 None (Some ''procfs_domtab'');
     nid \<leftarrow> fresh_node_id; _ \<leftarrow> add_node (Some root_node) ''mounts'' PFSmtab nid 0 0 None (Some ''procfs_domtab'');
     nid \<leftarrow> fresh_node_id; _ \<leftarrow> add_node (Some root_node) ''stat'' PFSstat nid 0 0 None (Some ''procfs_dostat'');
     nid \<leftarrow> fresh_node_id; _ \<leftarrow> add_node (Some root_node) ''vmstat'' PFSvmstat nid 0 0 None (Some ''procfs_dovmstat'');
     nid \<leftarrow> fresh_node_id; _ \<leftarrow> add_node (Some root_node) ''partitions'' PFSpartitions nid 0 0 None (Some ''procfs_dopartitions'');
     nid \<leftarrow> fresh_node_id; _ \<leftarrow> add_node (Some root_node) ''version'' PFSversion nid 0 0 None (Some ''procfs_doversion'');
     nid \<leftarrow> fresh_node_id; _ \<leftarrow> add_node (Some root_node) ''uptime'' PFSuptime nid 0 0 None (Some ''procfs_douptime'');
     nid \<leftarrow> fresh_node_id; _ \<leftarrow> add_node (Some root_node) ''swaps'' PFSswaps nid 0 0 None (Some ''procfs_doswaps'');
     nid \<leftarrow> fresh_node_id; _ \<leftarrow> add_node (Some root_node) ''filesystems'' PFSfilesystems nid 0 0 None (Some ''procfs_dofilesystems'');
     nid \<leftarrow> fresh_node_id; _ \<leftarrow> add_node (Some root_node) ''sys'' PFSsysctl nid 0 0 None None;
     State_Monad.return () }"

text \<open>Root-level files from \<open>extensions\<close> to \<open>interrupts\<close>.\<close>

definition structure_device_files :: "sptr \<Rightarrow> (pfs_store, unit) state" where
  "structure_device_files root_node = do {
     nid \<leftarrow> fresh_node_id; _ \<leftarrow> add_node (Some root_node) ''extensions'' PFSextensions nid 0 0 None (Some ''procfs_doextensions'');
     nid \<leftarrow> fresh_node_id; _ \<leftarrow> add_node (Some root_node) ''modules'' PFSmodules nid 0 0 None (Some ''procfs_domodules'');
     nid \<leftarrow> fresh_node_id; _ \<leftarrow> add_node (Some root_node) ''diskstats'' PFSdiskstats nid 0 0 None (Some ''procfs_dodiskstats'');
     nid \<leftarrow> fresh_node_id; _ \<leftarrow> add_node (Some root_node) ''devices'' PFSdevices nid 0 0 None (Some ''procfs_dodevices'');
     nid \<leftarrow> fresh_node_id; _ \<leftarrow> add_node (Some root_node) ''allocinfo'' PFSallocinfo nid 0 0 None (Some ''procfs_doallocinfo'');
     nid \<leftarrow> fresh_node_id; _ \<leftarrow> add_node (Some root_node) ''vmallocinfo'' PFSvmallocinfo nid 0 0 None (Some ''procfs_dovmallocinfo'');
     nid \<leftarrow> fresh_node_id; _ \<leftarrow> add_node (Some root_node) ''apm'' PFSapm nid 0 0 None (Some ''procfs_doapm'');
     nid \<leftarrow> fresh_node_id; _ \<leftarrow> add_node (Some root_node) ''bootconfig'' PFSbootconfig nid 0 0 None (Some ''procfs_dobootconfig'');
     nid \<leftarrow> fresh_node_id; _ \<leftarrow> add_node (Some root_node) ''buddyinfo'' PFSbuddyinfo nid 0 0 None (Some ''procfs_dobuddyinfo'');
     nid \<leftarrow> fresh_node_id; _ \<leftarrow> add_node (Some root_node) ''pagetypeinfo'' PFSpagetypeinfo nid 0 0 None (Some ''procfs_dopagetypeinfo'');
     nid \<leftarrow> fresh_node_id; _ \<leftarrow> add_node (Some root_node) ''slabinfo'' PFSslabinfo nid 0 0 None (Some ''procfs_doslabinfo'');
     nid \<leftarrow> fresh_node_id; _ \<leftarrow> add_node (Some root_node) ''dma'' PFSdma nid 0 0 None (Some ''procfs_dodma'');
     nid \<leftarrow> fresh_node_id; _ \<leftarrow> add_node (Some root_node) ''ioports'' PFSioports nid 0 0 None (Some ''procfs_doioports'');
     nid \<leftarrow> fresh_node_id; _ \<leftarrow> add_node (Some root_node) ''iomem'' PFSiomem nid 0 0 None (Some ''procfs_doiomem'');
     nid \<leftarrow> fresh_node_id; _ \<leftarrow> add_node (Some root_node) ''softirqs'' PFSsoftirqs nid 0 0 None (Some ''procfs_dosoftirqs'');
     nid \<leftarrow> fresh_node_id; _ \<leftarrow> add_node (Some root_node) ''rtc'' PFSrtc nid 0 0 None (Some ''procfs_dortc'');
     nid \<leftarrow> fresh_node_id; _ \<leftarrow> add_node (Some root_node) ''execdomains'' PFSexecdomains nid 0 0 None (Some ''procfs_doexecdomains'');
     nid \<leftarrow> fresh_node_id; _ \<leftarrow> add_node (Some root_node) ''fb'' PFSfb nid 0 0 None (Some ''procfs_dofb'');
     nid \<leftarrow> fresh_node_id; _ \<leftarrow> add_node (Some root_node) ''interrupts'' PFSinterrupts nid 0 0 None (Some ''procfs_dointerrupts'');
     State_Monad.return () }"

text \<open>The fixed subdirectories from \<open>irq\<close> to \<open>bus\<close>.\<close>

definition structure_subdirs :: "sptr \<Rightarrow> (pfs_store, unit) state" where
  "structure_subdirs root_node = do {
     nid \<leftarrow> fresh_node_id; irq_dir \<leftarrow> add_directory (Some root_node) ''irq'' PFSdir nid 0 False None None;
     nid \<leftarrow> fresh_node_id; _ \<leftarrow> add_node (Some irq_dir) ''default_smp_affinity'' PFSirq nid 0 0 None (Some ''procfs_doirq_affinity'');
     nid \<leftarrow> fresh_node_id; _ \<leftarrow> add_node (Some irq_dir) ''default_smp_affinity_list'' PFSirq nid 0 0 None (Some ''procfs_doirq_affinity_list'');
     nid \<leftarrow> fresh_node_id; tty_dir \<leftarrow> add_directory (Some root_node) ''tty'' PFSdir nid 0 False None None;
     nid \<leftarrow> fresh_node_id; _ \<leftarrow> add_node (Some tty_dir) ''drivers'' PFStty nid 0 0 None (Some ''procfs_dotty_drivers'');
     nid \<leftarrow> fresh_node_id; _ \<leftarrow> add_node (Some tty_dir) ''ldiscs'' PFStty nid 0 0 None (Some ''procfs_dotty_ldiscs'');
     nid \<leftarrow> fresh_node_id; ide_dir \<leftarrow> add_directory (Some root_node) ''ide'' PFSdir nid 0 False None None;
     nid \<leftarrow> fresh_node_id; _ \<leftarrow> add_node (Some ide_dir) ''drivers'' PFSide nid 0 0 None (Some ''procfs_doide_drivers'');
     nid \<leftarrow> fresh_node_id; video_dir \<leftarrow> add_directory (Some root_node) ''video'' PFSdir nid 0 False None None;
     nid \<leftarrow> fresh_node_id; _ \<leftarrow> add_directory (Some video_dir) ''bttv'' PFSdir nid 0 False None None;
     nid \<leftarrow> fresh_node_id; _ \<leftarrow> add_node (Some root_node) ''isapnp'' PFSisapnp nid 0 0 None (Some ''procfs_doisapnp'');
     nid \<leftarrow> fresh_node_id; scsi_dir \<leftarrow> add_directory (Some root_node) ''scsi'' PFSdir nid 0 False None None;
     nid \<leftarrow> fresh_node_id; _ \<leftarrow> add_node (Some scsi_dir) ''scsi'' PFSscsi nid 0 0 None (Some ''procfs_doscsi'');
     nid \<leftarrow> fresh_node_id; sysvipc_dir \<leftarrow> add_directory (Some root_node) ''sysvipc'' PFSdir nid 0 False None None;
     nid \<leftarrow> fresh_node_id; _ \<leftarrow> add_node (Some sysvipc_dir) ''msg'' PFSsysvipc nid 0 0 None (Some ''procfs_dosysvipc_msg'');
     nid \<leftarrow> fresh_node_id; _ \<leftarrow> add_node (Some sysvipc_dir) ''sem'' PFSsysvipc nid 0 0 None (Some ''procfs_dosysvipc_sem'');
     nid \<leftarrow> fresh_node_id; _ \<leftarrow> add_node (Some sysvipc_dir) ''shm'' PFSsysvipc nid 0 0 None (Some ''procfs_dosysvipc_shm'');
     nid \<leftarrow> fresh_node_id; fs_dir \<leftarrow> add_directory (Some root_node) ''fs'' PFSdir nid 0 False None None;
     nid \<leftarrow> fresh_node_id; nfs_dir \<leftarrow> add_directory (Some fs_dir) ''nfs'' PFSdir nid 0 False None None;
     nid \<leftarrow> fresh_node_id; _ \<leftarrow> add_node (Some nfs_dir) ''exports'' PFSnfsexports nid 0 0 None (Some ''procfs_donfsexports'');
     nid \<leftarrow> fresh_node_id; driver_dir \<leftarrow> add_directory (Some root_node) ''driver'' PFSdir nid 0 False None None;
     nid \<leftarrow> fresh_node_id; _ \<leftarrow> add_node (Some driver_dir) ''rtc'' PFSrtc nid 0 0 None (Some ''procfs_dortc'');
     nid \<leftarrow> fresh_node_id; bus_dir \<leftarrow> add_directory (Some root_node) ''bus'' PFSdir nid 0 False None None;
     nid \<leftarrow> fresh_node_id; pci_dir \<leftarrow> add_directory (Some bus_dir) ''pci'' PFSdir nid 0 False None None;
     nid \<leftarrow> fresh_node_id; _ \<leftarrow> add_node (Some pci_dir) ''devices'' PFSpcidevices nid 0 0 None (Some ''procfs_dopcidevices'');
     nid \<leftarrow> fresh_node_id; _ \<leftarrow> add_node (Some root_node) ''cmdline'' PFSkcmdline nid 0 0 None (Some ''procfs_dokcmdline'');
     nid \<leftarrow> fresh_node_id; _ \<leftarrow> add_node (Some root_node) ''self'' PFScurproc nid 0 0 None None;
     State_Monad.return () }"

text \<open>The boot command line, \<open>self\<close> and the \<open>net\<close> directory.\<close>

definition structure_net :: "sptr \<Rightarrow> (pfs_store, unit) state" where
  "structure_net root_node = do {
     nid \<leftarrow> fresh_node_id; net_dir \<leftarrow> add_directory (Some root_node) ''net'' PFSdir nid 0 False None None;
     nid \<leftarrow> fresh_node_id; _ \<leftarrow> add_node (Some net_dir) ''dev'' PFSnetdev nid 0 0 None (Some ''procfs_donetdev'');
     nid \<leftarrow> fresh_node_id; _ \<leftarrow> add_node (Some net_dir) ''tcp'' PFSnetdev nid 0 0 None (Some ''procfs_donettcp'');
     nid \<leftarrow> fresh_node_id; _ \<leftarrow> add_node (Some net_dir) ''tcp6'' PFSnetdev nid 0 0 None (Some ''procfs_donettcp6'');
     nid \<leftarrow> fresh_node_id; _ \<leftarrow> add_node (Some net_dir) ''udp'' PFSnetdev nid 0 0 None (Some ''procfs_donetudp'');
     nid \<leftarrow> fresh_node_id; _ \<leftarrow> add_node (Some net_dir) ''udp6'' PFSnetdev nid 0 0 None (Some ''procfs_donetudp6'');
     nid \<leftarrow> fresh_node_id; _ \<leftarrow> add_node (Some net_dir) ''unix'' PFSnetdev nid 0 0 None (Some ''procfs_donetunix'');
     nid \<leftarrow> fresh_node_id; _ \<leftarrow> add_node (Some net_dir) ''route'' PFSnetdev nid 0 0 None (Some ''procfs_donetroute'');
     nid \<leftarrow> fresh_node_id; _ \<leftarrow> add_node (Some net_dir) ''arp'' PFSnetdev nid 0 0 None (Some ''procfs_donetarp'');
     nid \<leftarrow> fresh_node_id; _ \<leftarrow> add_node (Some net_dir) ''netstat'' PFSnetdev nid 0 0 None (Some ''procfs_donetnetstat'');
     nid \<leftarrow> fresh_node_id; _ \<leftarrow> add_node (Some net_dir) ''snmp'' PFSnetdev nid 0 0 None (Some ''procfs_donetsnmp'');
     State_Monad.return () }"

text \<open>The pseudo-entries that readdir expands, and the per-process directories.\<close>

definition structure_process_dirs :: "sptr \<Rightarrow> sptr \<Rightarrow> (pfs_store, sptr \<times> sptr \<times> sptr \<times> sptr) state" where
  "structure_process_dirs root_node proc_by_name_dir = do {
     nid \<leftarrow> fresh_node_id; _ \<leftarrow> add_directory (Some proc_by_name_dir) ''__Process_N__'' PFSprocnamedir nid PSN_FLAG_PROCESS False (Some ''procfs_process_node_size'') None;
     nid \<leftarrow> fresh_node_id; one_proc_dir \<leftarrow> add_directory (Some root_node) ''__Process__'' PFSproc nid PSN_FLAG_PROCESS False (Some ''procfs_process_node_size'') None;
     nid \<leftarrow> fresh_node_id; fd_dir \<leftarrow> add_directory (Some one_proc_dir) ''fd'' PFSdir nid PSN_FLAG_PROCESS False None None;
     nid \<leftarrow> fresh_node_id; one_fd_dir \<leftarrow> add_directory (Some fd_dir) ''__File__'' PFSfd nid PSN_FLAG_PROCESS False (Some ''procfs_fd_node_size'') None;
     nid \<leftarrow> fresh_node_id; threads_dir \<leftarrow> add_directory (Some one_proc_dir) ''threads'' PFSdir nid PSN_FLAG_PROCESS False None None;
     nid \<leftarrow> fresh_node_id; one_thread_dir \<leftarrow> add_directory (Some threads_dir) ''__Thread__'' PFSthread nid (PSN_FLAG_PROCESS OR PSN_FLAG_THREAD) False (Some ''procfs_thread_node_size'') None;
     nid \<leftarrow> fresh_node_id; task_dir \<leftarrow> add_directory (Some one_proc_dir) ''task'' PFSdir nid PSN_FLAG_PROCESS False None None;
     nid \<leftarrow> fresh_node_id; one_task_dir \<leftarrow> add_directory (Some task_dir) ''__Thread__'' PFSthread nid (PSN_FLAG_PROCESS OR PSN_FLAG_THREAD) False (Some ''procfs_thread_node_size'') None;
     State_Monad.return (one_proc_dir, one_fd_dir, one_thread_dir, one_task_dir) }"

text \<open>Files and links of a process directory.\<close>

definition structure_process_files :: "sptr \<Rightarrow> (pfs_store, unit) state" where
  "structure_process_files one_proc_dir = do {
     nid \<leftarrow> fresh_node_id; _ \<leftarrow> add_file (Some one_proc_dir) ''cmdline'' nid PSN_FLAG_PROCESS 0 None (Some ''procfs_doprocargs'');
     nid \<leftarrow> fresh_node_id; _ \<leftarrow> add_file (Some one_proc_dir) ''pid'' nid PSN_FLAG_PROCESS 0 None (Some ''procfs_dopid'');
     nid \<leftarrow> fresh_node_id; _ \<leftarrow> add_file (Some one_proc_dir) ''ppid'' nid PSN_FLAG_PROCESS 0 None (Some ''procfs_doppid'');
     nid \<leftarrow> fresh_node_id; _ \<leftarrow> add_file (Some one_proc_dir) ''pgid'' nid PSN_FLAG_PROCESS 0 None (Some ''procfs_dopgid'');
     nid \<leftarrow> fresh_node_id; _ \<leftarrow> add_file (Some one_proc_dir) ''sid'' nid PSN_FLAG_PROCESS 0 None (Some ''procfs_dosid'');
     nid \<leftarrow> fresh_node_id; _ \<leftarrow> add_file (Some one_proc_dir) ''tty'' nid PSN_FLAG_PROCESS 0 None (Some ''procfs_dotty'');
     nid \<leftarrow> fresh_node_id; _ \<leftarrow> add_file (Some one_proc_dir) ''status'' nid PSN_FLAG_PROCESS sizeof_proc_bsdshortinfo None (Some ''procfs_dostatus'');
     nid \<leftarrow> fresh_node_id; _ \<leftarrow> add_file (Some one_proc_dir) ''taskinfo'' nid PSN_FLAG_PROCESS sizeof_proc_taskinfo None (Some ''procfs_dotaskinfo'');
     nid \<leftarrow> fresh_node_id; _ \<leftarrow> add_file (Some one_proc_dir) ''note'' nid PSN_FLAG_PROCESS 0 None (Some ''procfs_donote'');
     nid \<leftarrow> fresh_node_id; _ \<leftarrow> add_file (Some one_proc_dir) ''clear_refs'' nid PSN_FLAG_PROCESS 0 None (Some ''procfs_doclear_refs'');
     nid \<leftarrow> fresh_node_id; _ \<leftarrow> add_file (Some one_proc_dir) ''limit'' nid PSN_FLAG_PROCESS 0 None (Some ''procfs_dolimit'');
     nid \<leftarrow> fresh_node_id; _ \<leftarrow> add_file (Some one_proc_dir) ''mem'' nid PSN_FLAG_PROCESS 0 None (Some ''procfs_domem'');
     nid \<leftarrow> fresh_node_id; _ \<leftarrow> add_file (Some one_proc_dir) ''map'' nid PSN_FLAG_PROCESS 0 None (Some ''procfs_domap'');
     nid \<leftarrow> fresh_node_id; _ \<leftarrow> add_file (Some one_proc_dir) ''maps'' nid PSN_FLAG_PROCESS 0 None (Some ''procfs_domaps'');
     nid \<leftarrow> fresh_node_id; _ \<leftarrow> add_file (Some one_proc_dir) ''smaps'' nid PSN_FLAG_PROCESS 0 None (Some ''procfs_dosmaps'');
     nid \<leftarrow> fresh_node_id; _ \<leftarrow> add_file (Some one_proc_dir) ''smaps_rollup'' nid PSN_FLAG_PROCESS 0 None (Some ''procfs_dosmaps_rollup'');
     nid \<leftarrow> fresh_node_id; _ \<leftarrow> add_file (Some one_proc_dir) ''numa_maps'' nid PSN_FLAG_PROCESS 0 None (Some ''procfs_donuma_maps'');
     nid \<leftarrow> fresh_node_id; _ \<leftarrow> add_file (Some one_proc_dir) ''pagemap'' nid PSN_FLAG_PROCESS 0 None (Some ''procfs_dopagemap'');
     nid \<leftarrow> fresh_node_id; _ \<leftarrow> add_node (Some one_proc_dir) ''exe'' PFSproclink nid PSN_FLAG_PROCESS 0 None None;
     nid \<leftarrow> fresh_node_id; _ \<leftarrow> add_node (Some one_proc_dir) ''cwd'' PFSproclink nid PSN_FLAG_PROCESS 0 None None;
     nid \<leftarrow> fresh_node_id; _ \<leftarrow> add_node (Some one_proc_dir) ''root'' PFSproclink nid PSN_FLAG_PROCESS 0 None None;
     nid \<leftarrow> fresh_node_id; _ \<leftarrow> add_file (Some one_proc_dir) ''comm'' nid PSN_FLAG_PROCESS 0 None (Some ''procfs_docomm'');
     nid \<leftarrow> fresh_node_id; _ \<leftarrow> add_file (Some one_proc_dir) ''cpu'' nid PSN_FLAG_PROCESS 0 None (Some ''procfs_docpu'');
     nid \<leftarrow> fresh_node_id; _ \<leftarrow> add_file (Some one_proc_dir) ''stat'' nid PSN_FLAG_PROCESS 0 None (Some ''procfs_doprocstat'');
     nid \<leftarrow> fresh_node_id; _ \<leftarrow> add_file (Some one_proc_dir) ''statm'' nid PSN_FLAG_PROCESS 0 None (Some ''procfs_dostatm'');
     nid \<leftarrow> fresh_node_id; _ \<leftarrow> add_file (Some one_proc_dir) ''io'' nid PSN_FLAG_PROCESS 0 None (Some ''procfs_doio'');
     nid \<leftarrow> fresh_node_id; _ \<leftarrow> add_file (Some one_proc_dir) ''environ'' nid PSN_FLAG_PROCESS 0 None (Some ''procfs_doenviron'');
     nid \<leftarrow> fresh_node_id; _ \<leftarrow> add_file (Some one_proc_dir) ''regs'' nid PSN_FLAG_PROCESS 0 None (Some ''procfs_doregs'');
     nid \<leftarrow> fresh_node_id; _ \<leftarrow> add_file (Some one_proc_dir) ''fpregs'' nid PSN_FLAG_PROCESS 0 None (Some ''procfs_dofpregs'');
     nid \<leftarrow> fresh_node_id; _ \<leftarrow> add_file (Some one_proc_dir) ''auxv'' nid PSN_FLAG_PROCESS 0 None (Some ''procfs_doauxv'');
     nid \<leftarrow> fresh_node_id; _ \<leftarrow> add_file (Some one_proc_dir) ''wchan'' nid PSN_FLAG_PROCESS 0 None (Some ''procfs_dowchan'');
     nid \<leftarrow> fresh_node_id; _ \<leftarrow> add_file (Some one_proc_dir) ''stack'' nid PSN_FLAG_PROCESS 0 None (Some ''procfs_dostack'');
     State_Monad.return () }"

text \<open>Files of a thread or file-descriptor directory.\<close>

definition structure_object_files :: "sptr \<Rightarrow> sptr \<Rightarrow> sptr \<Rightarrow> (pfs_store, unit) state" where
  "structure_object_files one_fd_dir one_thread_dir one_task_dir = do {
     nid \<leftarrow> fresh_node_id; _ \<leftarrow> add_file (Some one_thread_dir) ''info'' nid (PSN_FLAG_PROCESS OR PSN_FLAG_THREAD) sizeof_proc_threadinfo None (Some ''procfs_dothreadinfo'');
     nid \<leftarrow> fresh_node_id; _ \<leftarrow> add_file (Some one_task_dir) ''info'' nid (PSN_FLAG_PROCESS OR PSN_FLAG_THREAD) sizeof_proc_threadinfo None (Some ''procfs_dothreadinfo'');
     nid \<leftarrow> fresh_node_id; _ \<leftarrow> add_file (Some one_task_dir) ''comm'' nid (PSN_FLAG_PROCESS OR PSN_FLAG_THREAD) 0 None (Some ''procfs_dothreadcomm'');
     nid \<leftarrow> fresh_node_id; _ \<leftarrow> add_file (Some one_task_dir) ''stat'' nid (PSN_FLAG_PROCESS OR PSN_FLAG_THREAD) 0 None (Some ''procfs_dothreadstat'');
     nid \<leftarrow> fresh_node_id; _ \<leftarrow> add_file (Some one_task_dir) ''status'' nid (PSN_FLAG_PROCESS OR PSN_FLAG_THREAD) 0 None (Some ''procfs_dothreadstatus'');
     nid \<leftarrow> fresh_node_id; _ \<leftarrow> add_file (Some one_task_dir) ''sched'' nid (PSN_FLAG_PROCESS OR PSN_FLAG_THREAD) 0 None (Some ''procfs_dothreadsched'');
     nid \<leftarrow> fresh_node_id; _ \<leftarrow> add_file (Some one_task_dir) ''maps'' nid (PSN_FLAG_PROCESS OR PSN_FLAG_THREAD) 0 None (Some ''procfs_domaps'');
     nid \<leftarrow> fresh_node_id; _ \<leftarrow> add_file (Some one_fd_dir) ''details'' nid PSN_FLAG_PROCESS sizeof_vnode_fdinfowithpath None (Some ''procfs_dofd'');
     nid \<leftarrow> fresh_node_id; _ \<leftarrow> add_file (Some one_fd_dir) ''socket'' nid PSN_FLAG_PROCESS sizeof_socket_fdinfo None (Some ''procfs_dosocket'');
     State_Monad.return () }"

text \<open>The root directory, published in \<open>root_node\<close>, and \<open>byname\<close>.\<close>

definition structure_top :: "(pfs_store, sptr \<times> sptr) state" where
  "structure_top = do {
     root_node \<leftarrow> add_directory None ''/'' PFSroot PROCFS_ROOT_NODE_BASE_ID 0 False None None;
     _ \<leftarrow> State (\<lambda>st. ((), st\<lparr>sn_root := Some root_node\<rparr>));
     nid \<leftarrow> fresh_node_id;
     proc_by_name_dir \<leftarrow> add_directory (Some root_node) ''byname'' PFSdir nid 0 False None None;
     State_Monad.return (root_node, proc_by_name_dir) }"

text \<open>\<open>procfs_structure_init\<close>: the first mount builds the tree, later calls find it in place.\<close>

definition structure_build :: "(pfs_store, sptr) state" where
  "structure_build = do {
     (root_node, proc_by_name_dir) \<leftarrow> structure_top;
     _ \<leftarrow> structure_root_files root_node;
     _ \<leftarrow> structure_device_files root_node;
     _ \<leftarrow> structure_subdirs root_node;
     _ \<leftarrow> structure_net root_node;
     (one_proc_dir, one_fd_dir, one_thread_dir, one_task_dir) \<leftarrow>
       structure_process_dirs root_node proc_by_name_dir;
     _ \<leftarrow> structure_process_files one_proc_dir;
     _ \<leftarrow> structure_object_files one_fd_dir one_thread_dir one_task_dir;
     State_Monad.return root_node }"

definition procfs_structure_init :: "pfs_store \<Rightarrow> pfs_store" where
  "procfs_structure_init st =
     (if sn_root st = None then snd (run_state structure_build st) else st)"

section \<open>Clean up of structure nodes\<close>

text \<open>\<open>TAILQ_REMOVE\<close> of a node from its parent's child queue.\<close>

definition tailq_remove :: "sptr \<Rightarrow> sptr \<Rightarrow> pfs_store \<Rightarrow> pfs_store" where
  "tailq_remove p c st = st\<lparr>sn_heap := (sn_heap st)[p := (sn_heap st ! p)
     \<lparr>psn_children := remove1 c (psn_children (sn_heap st ! p))\<rparr>]\<rparr>"

text \<open>
  \<open>release_node\<close> unlinks the node, releases its children one after another, always taking the
  first one left in the queue, and frees the node. \<open>release_children\<close> is its while loop. Both
  calls consume fuel; running out is \<^const>\<open>None\<close>.
\<close>

fun release_node :: "nat \<Rightarrow> sptr \<Rightarrow> pfs_store \<Rightarrow> pfs_store option"
and release_children :: "nat \<Rightarrow> sptr \<Rightarrow> pfs_store \<Rightarrow> pfs_store option" where
  "release_node 0 snode st = None"
| "release_node (Suc f) snode st =
     (let st1 = (case psn_parent (sn_heap st ! snode) of None \<Rightarrow> st
                 | Some p \<Rightarrow> tailq_remove p snode st)
      in case release_children f snode st1 of None \<Rightarrow> None
         | Some st2 \<Rightarrow> Some (st2\<lparr>sn_freed := sn_freed st2 @ [snode]\<rparr>))"
| "release_children 0 snode st = None"
| "release_children (Suc f) snode st =
     (case psn_children (sn_heap st ! snode) of [] \<Rightarrow> Some st
      | child # _ \<Rightarrow> (case release_node f child (tailq_remove snode child st) of None \<Rightarrow> None
          | Some st' \<Rightarrow> release_children f snode st'))"

definition procfs_structure_free :: "pfs_store \<Rightarrow> pfs_store option" where
  "procfs_structure_free st = (case sn_root st of None \<Rightarrow> Some st
     | Some r \<Rightarrow> (case release_node (2 * length (sn_heap st)) r st of None \<Rightarrow> None
         | Some st' \<Rightarrow> Some (st'\<lparr>sn_root := None\<rparr>)))"

section \<open>The contract of the tree\<close>

text \<open>The entries that readdir expands at run time.\<close>

definition dynamic_type :: "pfstype \<Rightarrow> bool" where
  "dynamic_type t \<longleftrightarrow> t = PFSproc \<or> t = PFSprocnamedir \<or> t = PFSthread \<or> t = PFSfd"

locale layout_tree =
  fixes h :: "pfssnode list"
  assumes heap_nonempty: "h \<noteq> []"
    and parent_lt: "i < length h \<Longrightarrow> psn_parent (h ! i) = Some p \<Longrightarrow> p < i"
    and parent_None: "i < length h \<Longrightarrow> psn_parent (h ! i) = None \<Longrightarrow> i = 0"
    and children_eq: "i < length h \<Longrightarrow>
      psn_children (h ! i) = filter (\<lambda>j. psn_parent (h ! j) = Some i) [0..<length h]"
    and siblings: "i < j \<Longrightarrow> j < length h \<Longrightarrow> psn_parent (h ! i) = psn_parent (h ! j) \<Longrightarrow>
      psn_name (h ! i) \<noteq> psn_name (h ! j) \<and> \<not> dynamic_type (psn_node_type (h ! i))"
    and ids_distinct: "distinct (map psn_base_node_id h)"

section \<open>Releasing the whole tree\<close>

inductive ancestor :: "pfssnode list \<Rightarrow> sptr \<Rightarrow> sptr \<Rightarrow> bool" for h :: "pfssnode list" where
  ancestor_refl: "i < length h \<Longrightarrow> ancestor h i i"
| ancestor_step: "i < length h \<Longrightarrow> psn_parent (h ! i) = Some p \<Longrightarrow> ancestor h a p \<Longrightarrow> ancestor h a i"

definition subtree :: "pfssnode list \<Rightarrow> sptr \<Rightarrow> sptr set" where
  "subtree h i = {j. ancestor h i j}"

text \<open>No node of the list comes after its parent.\<close>

fun child_first :: "pfssnode list \<Rightarrow> sptr list \<Rightarrow> bool" where
  "child_first h [] = True"
| "child_first h (p # ys) = ((\<forall>c \<in> set ys. psn_parent (h ! c) \<noteq> Some p) \<and> child_first h ys)"

text \<open>A store in which the subtrees below \<open>S\<close> are still as they are in \<open>h\<close>.\<close>

definition intact :: "pfssnode list \<Rightarrow> sptr set \<Rightarrow> pfs_store \<Rightarrow> bool" where
  "intact h S st \<longleftrightarrow> length (sn_heap st) = length h \<and>
     (\<forall>j < length h. psn_parent (sn_heap st ! j) = psn_parent (h ! j)) \<and>
     (\<forall>j \<in> S. psn_children (sn_heap st ! j) = psn_children (h ! j))"

definition released :: "pfssnode list \<Rightarrow> sptr set \<Rightarrow> sptr set \<Rightarrow> pfs_store \<Rightarrow> pfs_store \<Rightarrow> bool" where
  \<comment> \<open>\<open>st'\<close> is \<open>st\<close> with the nodes of \<open>S\<close> freed, only child queues of \<open>S \<union> T\<close> changed\<close>
  "released h S T st st' \<longleftrightarrow> length (sn_heap st') = length (sn_heap st) \<and>
     (\<forall>j < length h. psn_parent (sn_heap st' ! j) = psn_parent (sn_heap st ! j)) \<and>
     (\<forall>j < length h. j \<notin> S \<union> T \<longrightarrow> psn_children (sn_heap st' ! j) = psn_children (sn_heap st ! j)) \<and>
     (\<exists>ord. sn_freed st' = sn_freed st @ ord \<and> distinct ord \<and> set ord = S \<and> child_first h ord)"

lemma ancestor_less: "ancestor h a i \<Longrightarrow> i < length h"
  by (induction rule: ancestor.induct) auto

lemma subtree_less: "j \<in> subtree h i \<Longrightarrow> j < length h"
  by (auto simp: subtree_def dest: ancestor_less)

lemma finite_subtree [simp]: "finite (subtree h i)"
  by (rule finite_subset [of _ "{..<length h}"]) (auto dest: subtree_less)

lemma tailq_remove_nth:
  "sn_heap (tailq_remove p c st) ! j = (if j = p \<and> p < length (sn_heap st)
     then (sn_heap st ! p)\<lparr>psn_children := remove1 c (psn_children (sn_heap st ! p))\<rparr>
     else sn_heap st ! j)"
  by (cases "p < length (sn_heap st)") (simp_all add: tailq_remove_def nth_list_update list_update_beyond)

lemma tailq_remove_simps [simp]:
  "length (sn_heap (tailq_remove p c st)) = length (sn_heap st)"
  "sn_freed (tailq_remove p c st) = sn_freed st"
  "sn_root (tailq_remove p c st) = sn_root st"
  "psn_parent (sn_heap (tailq_remove p c st) ! j) = psn_parent (sn_heap st ! j)"
  "psn_children (sn_heap (tailq_remove p c st) ! j) =
     (if j = p \<and> p < length (sn_heap st) then remove1 c (psn_children (sn_heap st ! j))
      else psn_children (sn_heap st ! j))"
  by (simp_all add: tailq_remove_nth) (simp_all add: tailq_remove_def)

lemma child_first_append:
  "child_first h (xs @ ys) \<longleftrightarrow> child_first h xs \<and> child_first h ys \<and>
     (\<forall>p \<in> set xs. \<forall>c \<in> set ys. psn_parent (h ! c) \<noteq> Some p)"
  by (induction xs) auto

lemma released_trans:
  assumes "released h S T st st1" "released h S' T' st1 st2" "S \<inter> S' = {}"
    and "\<forall>p \<in> S. \<forall>c \<in> S'. psn_parent (h ! c) \<noteq> Some p"
  shows "released h (S \<union> S') (T \<union> T') st st2"
proof -
  from assms(1) obtain o1 where o1: "sn_freed st1 = sn_freed st @ o1" "distinct o1" "set o1 = S"
    "child_first h o1" unfolding released_def by blast
  from assms(2) obtain o2 where o2: "sn_freed st2 = sn_freed st1 @ o2" "distinct o2" "set o2 = S'"
    "child_first h o2" unfolding released_def by blast
  have "sn_freed st2 = sn_freed st @ (o1 @ o2) \<and> distinct (o1 @ o2) \<and> set (o1 @ o2) = S \<union> S' \<and>
      child_first h (o1 @ o2)"
    using o1 o2 assms(3,4) by (simp add: child_first_append)
  then show ?thesis
    using assms(1,2) unfolding released_def by (auto simp del: append_assoc)
qed

lemma released_unlink: "p < length h \<Longrightarrow> released h {} {p} st (tailq_remove p c st)"
  by (auto simp: released_def)

lemma intact_released:
  assumes "intact h S st" "released h S' T st st'" "S \<subseteq> {..<length h}" "S \<inter> (S' \<union> T) = {}"
  shows "intact h S st'"
proof -
  have "psn_children (sn_heap st' ! j) = psn_children (h ! j)" if "j \<in> S" for j
  proof -
    from that assms(3,4) have "j < length h" "j \<notin> S' \<union> T" by auto
    with assms(2) have "psn_children (sn_heap st' ! j) = psn_children (sn_heap st ! j)"
      by (simp add: released_def)
    with assms(1) that show ?thesis by (simp add: intact_def)
  qed
  then show ?thesis using assms(1,2) by (simp add: intact_def released_def)
qed

context layout_tree
begin

lemma ancestor_le: "ancestor h a i \<Longrightarrow> a \<le> i"
  by (induction rule: ancestor.induct) (auto dest: parent_lt)

lemma ancestor_chain: "ancestor h a i \<Longrightarrow> ancestor h b i \<Longrightarrow> a \<le> b \<Longrightarrow> ancestor h a b"
proof (induction rule: ancestor.induct)
  case (ancestor_refl i)
  then have "b = i" using ancestor_le by (simp add: le_antisym)
  with ancestor_refl show ?case by (auto intro: ancestor.intros)
next
  case (ancestor_step i p a)
  from ancestor_step.prems(1) show ?case
  proof (cases rule: ancestor.cases)
    case ancestor_refl
    with ancestor_step show ?thesis by (auto intro: ancestor.intros)
  next
    case (ancestor_step p')
    with \<open>psn_parent (h ! i) = Some p\<close> ancestor_step.prems ancestor_step.IH show ?thesis by auto
  qed
qed

lemma subtree_disjoint:
  assumes "psn_parent (h ! c) = Some i" "psn_parent (h ! d) = Some i" "c \<noteq> d"
  shows "subtree h c \<inter> subtree h d = {}"
proof (rule ccontr)
  assume "subtree h c \<inter> subtree h d \<noteq> {}"
  then obtain j where j: "ancestor h c j" "ancestor h d j" by (auto simp: subtree_def)
  have no: False if "ancestor h a b" "a \<noteq> b" "psn_parent (h ! a) = Some i" "psn_parent (h ! b) = Some i" for a b
    using that(1)
  proof (cases rule: ancestor.cases)
    case (ancestor_step p)
    then have "a \<le> i" using that(4) by (auto dest: ancestor_le)
    moreover have "a < length h" using ancestor_less [OF that(1)] ancestor_le [OF that(1)] by simp
    ultimately show False using parent_lt [OF _ that(3)] by simp
  qed (use that in auto)
  show False
    using ancestor_chain [OF j] ancestor_chain [OF j(2,1)] no [of c d] no [of d c] assms
    by (cases "c \<le> d") auto
qed

lemma root_ancestor: "i < length h \<Longrightarrow> ancestor h 0 i"
proof (induction i rule: less_induct)
  case (less i)
  show ?case
  proof (cases "psn_parent (h ! i)")
    case None
    with less show ?thesis using parent_None by (auto intro: ancestor.intros)
  next
    case (Some p)
    with less have "p < i" by (auto dest: parent_lt)
    with less Some show ?thesis by (auto intro: ancestor.intros)
  qed
qed

lemma subtree_root: "subtree h 0 = {..<length h}"
  using root_ancestor by (auto simp: subtree_def dest: ancestor_less)

lemma child_props:
  "i < length h \<Longrightarrow> c \<in> set (psn_children (h ! i)) \<longleftrightarrow> c < length h \<and> psn_parent (h ! c) = Some i"
  by (auto simp: children_eq)

lemma children_distinct: "i < length h \<Longrightarrow> distinct (psn_children (h ! i))"
  by (simp add: children_eq)

lemma subtree_ge: "j \<in> subtree h i \<Longrightarrow> i \<le> j"
  by (auto simp: subtree_def dest: ancestor_le)

lemma subtree_self: "i < length h \<Longrightarrow> i \<in> subtree h i"
  by (auto simp: subtree_def intro: ancestor.intros)

lemma ancestor_trans: "ancestor h b i \<Longrightarrow> ancestor h a b \<Longrightarrow> ancestor h a i"
  by (induction rule: ancestor.induct) (auto intro: ancestor.intros)

lemma ancestor_child:
  "ancestor h i j \<Longrightarrow> j \<noteq> i \<Longrightarrow> \<exists>c < length h. psn_parent (h ! c) = Some i \<and> ancestor h c j"
proof (induction rule: ancestor.induct)
  case (ancestor_step k p a)
  show ?case
  proof (cases "p = a")
    case True
    with ancestor_step show ?thesis by (auto intro: ancestor.intros)
  next
    case False
    with ancestor_step obtain c where "c < length h" "psn_parent (h ! c) = Some a" "ancestor h c p"
      by auto
    with ancestor_step show ?thesis by (auto intro: ancestor.intros)
  qed
qed simp

lemma subtree_unfold:
  assumes "i < length h"
  shows "subtree h i = insert i (\<Union>c \<in> set (psn_children (h ! i)). subtree h c)"
proof
  show "subtree h i \<subseteq> insert i (\<Union>c \<in> set (psn_children (h ! i)). subtree h c)"
    using ancestor_child child_props [OF assms] by (fastforce simp: subtree_def)
  have "ancestor h i c" if "c \<in> set (psn_children (h ! i))" for c
    using that child_props [OF assms] assms by (auto intro: ancestor.intros)
  then show "insert i (\<Union>c \<in> set (psn_children (h ! i)). subtree h c) \<subseteq> subtree h i"
    using assms by (auto simp: subtree_def intro: ancestor.intros ancestor_trans)
qed

lemma card_subtree:
  assumes "i < length h"
  shows "card (subtree h i) = 1 + (\<Sum>c\<leftarrow>psn_children (h ! i). card (subtree h c))"
proof -
  let ?C = "set (psn_children (h ! i))"
  have "i \<notin> (\<Union>c \<in> ?C. subtree h c)"
    using child_props [OF assms] parent_lt subtree_ge by fastforce
  then have "card (subtree h i) = 1 + card (\<Union>c \<in> ?C. subtree h c)"
    by (simp add: subtree_unfold [OF assms])
  also have "card (\<Union>c \<in> ?C. subtree h c) = (\<Sum>c \<in> ?C. card (subtree h c))"
    using child_props [OF assms] subtree_disjoint by (intro card_UN_disjoint) auto
  also have "\<dots> = (\<Sum>c\<leftarrow>psn_children (h ! i). card (subtree h c))"
    using children_distinct [OF assms] by (simp add: sum_list_distinct_conv_sum_set)
  finally show ?thesis .
qed

lemma subtree_parent_closed:
  assumes "psn_parent (h ! c) = Some i" "c < length h" "p \<in> subtree h c" "x < length h"
    and "psn_parent (h ! x) = Some p"
  shows "x \<in> subtree h c"
  using assms by (auto simp: subtree_def intro: ancestor.intros)

definition node_ok :: "sptr \<Rightarrow> bool" where
  "node_ok i \<longleftrightarrow> (\<forall>st f. intact h (subtree h i) st \<longrightarrow> 2 * card (subtree h i) \<le> f \<longrightarrow>
     (\<exists>st'. release_node f i st = Some st' \<and>
        released h (subtree h i) (set_option (psn_parent (h ! i))) st st' \<and>
        (\<forall>p. psn_parent (h ! i) = Some p \<longrightarrow>
           psn_children (sn_heap st' ! p) = remove1 i (psn_children (sn_heap st ! p)))))"

lemma release_children_ok:
  assumes "i < length h" "\<forall>c \<in> set cs. c < length h \<and> psn_parent (h ! c) = Some i \<and> node_ok c"
    and "distinct cs" "psn_children (sn_heap st ! i) = cs"
    and "intact h (\<Union>c \<in> set cs. subtree h c) st"
    and "1 + 2 * (\<Sum>c\<leftarrow>cs. card (subtree h c)) \<le> f"
  shows "\<exists>st'. release_children f i st = Some st' \<and>
    released h (\<Union>c \<in> set cs. subtree h c) {i} st st'"
  using assms(2-)
proof (induction cs arbitrary: st f)
  case Nil
  then obtain f' where "f = Suc f'" by (cases f) auto
  with Nil show ?case by (simp add: released_def)
next
  case (Cons c cs)
  then obtain f' where f: "f = Suc f'" by (cases f) auto
  let ?st1 = "tailq_remove i c st"
  from Cons.prems have c: "c < length h" "psn_parent (h ! c) = Some i" "node_ok c" by auto
  have lt: "i < c" using parent_lt [OF c(1,2)] .
  have len: "length (sn_heap st) = length h" using Cons.prems by (simp add: intact_def)
  have i_notin: "i \<notin> subtree h d" if "d \<in> set (c # cs)" for d
  proof -
    from that Cons.prems(1) have "i < d" by (auto dest: parent_lt)
    then show ?thesis using subtree_ge by force
  qed
  have "intact h (subtree h c) ?st1"
    using Cons.prems(4) i_notin [of c] by (auto simp: intact_def)
  moreover have "2 * card (subtree h c) \<le> f'"
    using Cons.prems(5) f by simp
  ultimately obtain st2 where st2: "release_node f' c ?st1 = Some st2"
    "released h (subtree h c) {i} ?st1 st2"
    "psn_children (sn_heap st2 ! i) = remove1 c (psn_children (sn_heap ?st1 ! i))"
    using c unfolding node_ok_def by fastforce
  from Cons.prems(2,3) assms(1) len st2(3) have ch: "psn_children (sn_heap st2 ! i) = cs"
    by (simp add: remove1_idem)
  have r1: "released h (subtree h c) {i} st st2"
    using released_trans [OF released_unlink [OF assms(1)] st2(2)] by simp
  have disj: "subtree h c \<inter> (\<Union>d \<in> set cs. subtree h d) = {}"
    using Cons.prems(1,2) subtree_disjoint [OF c(2)] by fastforce
  have "intact h (\<Union>d \<in> set cs. subtree h d) st2"
  proof (rule intact_released [OF _ r1])
    show "intact h (\<Union>d \<in> set cs. subtree h d) st"
      using Cons.prems(4) by (auto simp: intact_def)
  qed (use disj i_notin subtree_less in auto)
  moreover have "1 + 2 * (\<Sum>c\<leftarrow>cs. card (subtree h c)) \<le> f'"
  proof -
    have "0 < card (subtree h c)" using subtree_self [OF c(1)] by (auto simp: card_gt_0_iff)
    then show ?thesis using Cons.prems(5) f by simp
  qed
  ultimately obtain st3 where st3: "release_children f' i st2 = Some st3"
    "released h (\<Union>d \<in> set cs. subtree h d) {i} st2 st3"
    using Cons.IH [of st2 f'] Cons.prems(1,2) ch by auto
  have "released h (subtree h c \<union> (\<Union>d \<in> set cs. subtree h d)) ({i} \<union> {i}) st st3"
  proof (rule released_trans [OF r1 st3(2) disj], intro ballI notI)
    fix p x assume x: "p \<in> subtree h c" "x \<in> (\<Union>d \<in> set cs. subtree h d)" "psn_parent (h ! x) = Some p"
    then have "x \<in> subtree h c" using subtree_parent_closed [OF c(2,1)] subtree_less by blast
    with disj x(2) show False by blast
  qed
  with st2(1) st3(1) f Cons.prems(3) show ?case by simp
qed

lemma release_node_ok: "i < length h \<Longrightarrow> node_ok i"
proof (induction "length h - i" arbitrary: i rule: less_induct)
  case less
  show ?case unfolding node_ok_def
  proof (intro allI impI)
    fix st f
    assume int: "intact h (subtree h i) st" and fuel: "2 * card (subtree h i) \<le> f"
    let ?cs = "psn_children (h ! i)" and ?T = "set_option (psn_parent (h ! i))"
    let ?U = "\<Union>c \<in> set ?cs. subtree h c"
    obtain f' where f: "f = Suc f'" "1 + 2 * (\<Sum>c\<leftarrow>?cs. card (subtree h c)) \<le> f'"
      using fuel card_subtree [OF less.prems] by (cases f) auto
    let ?st1 = "case psn_parent (h ! i) of None \<Rightarrow> st | Some p \<Rightarrow> tailq_remove p i st"
    have T: "p < i" if "p \<in> ?T" for p
      using that parent_lt [OF less.prems] by auto
    have r0: "released h {} ?T st ?st1"
      using T less.prems by (cases "psn_parent (h ! i)") (auto intro!: released_unlink, simp add: released_def)
    have "i \<notin> ?T" "?U \<inter> ?T = {}" "i \<notin> ?U"
      using T child_props [OF less.prems] subtree_ge by (fastforce dest: parent_lt)+
    have int1: "intact h (subtree h i) ?st1"
      using int r0 subtree_less T subtree_ge by (intro intact_released [OF int r0]) fastforce+
    have ok: "\<forall>c \<in> set ?cs. c < length h \<and> psn_parent (h ! c) = Some i \<and> node_ok c"
    proof
      fix c assume "c \<in> set ?cs"
      then have c: "c < length h" "psn_parent (h ! c) = Some i" using child_props [OF less.prems] by auto
      moreover have "i < c" using parent_lt [OF c] .
      ultimately show "c < length h \<and> psn_parent (h ! c) = Some i \<and> node_ok c"
        using less.hyps [of c] by simp
    qed
    have "intact h ?U ?st1" "psn_children (sn_heap ?st1 ! i) = ?cs"
      using int1 subtree_unfold [OF less.prems] by (auto simp: intact_def)
    from release_children_ok [OF less.prems ok children_distinct [OF less.prems] this(2,1) f(2)]
    obtain st2 where st2: "release_children f' i ?st1 = Some st2" "released h ?U {i} ?st1 st2" by blast
    let ?st3 = "st2\<lparr>sn_freed := sn_freed st2 @ [i]\<rparr>"
    have r2: "released h {i} {} st2 ?st3" by (simp add: released_def)
    have "released h ({} \<union> ?U) (?T \<union> {i}) st st2"
      by (rule released_trans [OF r0 st2(2)]) auto
    then have "released h (({} \<union> ?U) \<union> {i}) ((?T \<union> {i}) \<union> {}) st ?st3"
      by (rule released_trans [OF _ r2]) (use \<open>i \<notin> ?U\<close> \<open>?U \<inter> ?T = {}\<close> in auto)
    then have rel: "released h (subtree h i) ?T st ?st3"
      using subtree_unfold [OF less.prems] by (simp add: released_def)
    have run: "release_node f i st = Some ?st3"
      using f(1) st2(1) int less.prems by (simp add: intact_def split: option.splits)
    have "psn_children (sn_heap ?st3 ! p) = remove1 i (psn_children (sn_heap st ! p))"
      if "psn_parent (h ! i) = Some p" for p
    proof -
      from that T have "p < i" "p \<notin> ?U \<union> {i}" using \<open>?U \<inter> ?T = {}\<close> by auto
      then show ?thesis
        using st2(2) that less.prems int by (simp add: released_def intact_def)
    qed
    with run rel show "\<exists>st'. release_node f i st = Some st' \<and> released h (subtree h i) ?T st st' \<and>
        (\<forall>p. psn_parent (h ! i) = Some p \<longrightarrow>
           psn_children (sn_heap st' ! p) = remove1 i (psn_children (sn_heap st ! p)))"
      by blast
  qed
qed

lemma structure_free_ok:
  assumes "sn_heap st = h" "sn_root st = Some 0" "sn_freed st = []"
  shows "\<exists>st'. procfs_structure_free st = Some st' \<and> sn_root st' = None \<and>
    distinct (sn_freed st') \<and> set (sn_freed st') = {..<length h} \<and> child_first h (sn_freed st')"
proof -
  have z: "0 < length h" using heap_nonempty by simp
  have "intact h (subtree h 0) st" using assms by (simp add: intact_def)
  moreover have "2 * card (subtree h 0) \<le> 2 * length h" by (simp add: subtree_root)
  ultimately obtain st' where st': "release_node (2 * length h) 0 st = Some st'"
    "released h (subtree h 0) (set_option (psn_parent (h ! 0))) st st'"
    using release_node_ok [OF z] unfolding node_ok_def by blast
  from st'(2) have "distinct (sn_freed st')" "set (sn_freed st') = {..<length h}" "child_first h (sn_freed st')"
    using assms(3) by (auto simp: released_def subtree_root)
  with st'(1) assms show ?thesis by (simp add: procfs_structure_free_def)
qed

end

end
