(* ===== verification/Layout.thy ===== *)
theory Layout
  imports Structure
begin

text \<open>
  The tree that \<^const>\<open>procfs_structure_init\<close> builds, as a table. A row gives the parent pointer,
  the name, the type and the flags of one node, in allocation order; \<open>procfs_rows\<close> is the whole
  table, and \<open>init_layout\<close> shows that the first mount produces exactly it. The locale
  \<open>layout_tree\<close> is the contract the rest of the file system has with the tree (unique ids,
  parents before children, sibling names distinct, run-time entries last, child queues in
  allocation order); it is interpreted on the tree of the first mount.

  The evaluation runs the builder on \<open>layout_store\<close>, a store whose heap is given by a list of
  entries, group by group of the source.
\<close>

section \<open>Stores given by a list of entries\<close>

definition link :: "pfssnode list \<Rightarrow> pfssnode \<Rightarrow> pfssnode list" where
  "link h e = (case psn_parent e of None \<Rightarrow> h
     | Some p \<Rightarrow> h[p := append_child (length h) (h ! p)]) @ [e]"

definition heap_of :: "pfssnode list \<Rightarrow> pfssnode list" where
  "heap_of l = foldl link [] l"

record layout_entry =
  le_parent :: "sptr option"
  le_name :: cstring
  le_type :: pfstype
  le_id :: pfsbaseid
  le_size :: nat
  le_getsize :: "string option"
  le_read :: "string option"

definition entry :: "sptr option \<Rightarrow> cstring \<Rightarrow> pfstype \<Rightarrow> pfsbaseid \<Rightarrow> nat \<Rightarrow>
    string option \<Rightarrow> string option \<Rightarrow> layout_entry" where
  "entry p nm ty nid sz g r = \<lparr>le_parent = p, le_name = nm, le_type = ty, le_id = nid,
     le_size = sz, le_getsize = g, le_read = r\<rparr>"

definition entry_node :: "layout_entry \<Rightarrow> u16 \<Rightarrow> pfssnode" where
  "entry_node e fl = \<lparr>psn_node_type = le_type e, psn_name = le_name e, psn_base_node_id = le_id e,
     psn_flags = fl, psn_parent = le_parent e, psn_children = [], psn_node_size = le_size e,
     psn_getsize_fn = le_getsize e, psn_read_data_fn = le_read e\<rparr>"

fun entries :: "nat \<Rightarrow> layout_entry list \<Rightarrow> layout_entry list" where
  "entries 0 l = []"
| "entries (Suc n) [] = entries n [] @ [entry None [] PFSfile 0 0 None None]"
| "entries (Suc n) (e # l) = entries n l @ [e]"

definition nodes_of :: "nat \<Rightarrow> layout_entry list \<Rightarrow> (nat \<Rightarrow> u16) \<Rightarrow> pfssnode list" where
  "nodes_of n l fl = map (\<lambda>i. entry_node (entries n l ! i) (fl i)) [0..<n]"

definition layout_store :: "nat \<Rightarrow> layout_entry list \<Rightarrow> (nat \<Rightarrow> u16) \<Rightarrow> pfsbaseid \<Rightarrow> sptr option \<Rightarrow> pfs_store" where
  "layout_store n l fl nid r = \<lparr>sn_heap = heap_of (nodes_of n l fl), sn_freed = [], sn_next_id = nid,
     sn_root = r, sn_log = []\<rparr>"

text \<open>The flags map after a node \<open>n\<close> with explicit flags \<open>f\<close> is added below \<open>p\<close>.\<close>

definition inherit :: "(nat \<Rightarrow> u16) \<Rightarrow> nat \<Rightarrow> sptr \<Rightarrow> u16 \<Rightarrow> (nat \<Rightarrow> u16)" where
  "inherit fl n p f = fl(n := f OR (fl p AND (PSN_FLAG_PROCESS OR PSN_FLAG_THREAD)))"

lemma entry_simps [simp]:
  "le_parent (entry p nm ty nid sz g r) = p" "le_name (entry p nm ty nid sz g r) = nm"
  "le_type (entry p nm ty nid sz g r) = ty" "le_id (entry p nm ty nid sz g r) = nid"
  "le_size (entry p nm ty nid sz g r) = sz" "le_getsize (entry p nm ty nid sz g r) = g"
  "le_read (entry p nm ty nid sz g r) = r"
  by (simp_all add: entry_def)

lemma length_entries [simp]: "length (entries n l) = n"
  by (induction n l rule: entries.induct) auto

lemma entries_rev: "length l = n \<Longrightarrow> entries n l = rev l"
  by (induction n l rule: entries.induct) auto

lemma nodes_of_Suc:
  "nodes_of (Suc n) (e # l) (fl(n := f)) = nodes_of n l fl @ [entry_node e f]"
  by (auto simp: nodes_of_def nth_append)

lemma length_nodes_of [simp]: "length (nodes_of n l fl) = n"
  by (simp add: nodes_of_def)

lemma heap_of_snoc: "heap_of (l @ [e]) = link (heap_of l) e"
  by (simp add: heap_of_def)

lemma length_link [simp]: "length (link h e) = Suc (length h)"
  by (simp add: link_def split: option.splits)

lemma length_heap_of [simp]: "length (heap_of l) = length l"
  by (induction l rule: rev_induct) (simp_all add: heap_of_snoc, simp add: heap_of_def)

lemma link_nth:
  "i < length h \<Longrightarrow> link h e ! i =
     (if psn_parent e = Some i then append_child (length h) (h ! i) else h ! i)"
  by (auto simp: link_def nth_append split: option.splits)

lemma link_nth_last [simp]: "link h e ! length h = e"
  by (auto simp: link_def nth_append split: option.splits)

lemma append_child_simps [simp]:
  "psn_flags (append_child c n) = psn_flags n"
  "psn_parent (append_child c n) = psn_parent n"
  by (simp_all add: append_child_def)

lemma heap_of_flags: "p < length l \<Longrightarrow> psn_flags (heap_of l ! p) = psn_flags (l ! p)"
proof (induction l rule: rev_induct)
  case (snoc e l)
  show ?case
  proof (cases "p < length l")
    case True
    with snoc show ?thesis by (simp add: heap_of_snoc link_nth nth_append)
  next
    case False
    with snoc have "p = length (heap_of l)" by simp
    then show ?thesis by (simp add: heap_of_snoc nth_append del: length_heap_of) (simp)
  qed
qed simp

lemma run_add_node:
  assumes "p < n" "length nm < MAX_STRUCT_NODE_NAME_LEN"
  shows "run_state (add_node (Some p) nm ty nid f sz g r) (layout_store n l fl nx rt) =
    (n, layout_store (Suc n) (entry (Some p) nm ty nid sz g r # l) (inherit fl n p f) nx rt)"
proof -
  have "psn_flags (nodes_of n l fl ! p) = fl p"
    using assms by (simp add: nodes_of_def entry_node_def)
  then show ?thesis
  using assms
  by (simp add: add_node_def layout_store_def inherited_flags_def heap_of_flags
        strlcpy_def MAX_STRUCT_NODE_NAME_LEN_def nodes_of_Suc inherit_def heap_of_snoc Let_def link_def entry_def entry_node_def)
qed

lemma run_add_root:
  assumes "length nm < MAX_STRUCT_NODE_NAME_LEN"
  shows "run_state (add_node None nm ty nid f sz g r) (layout_store n l fl nx rt) =
    (n, layout_store (Suc n) (entry None nm ty nid sz g r # l) (fl(n := f)) nx rt)"
  using assms
  by (simp add: add_node_def layout_store_def inherited_flags_def
        strlcpy_def MAX_STRUCT_NODE_NAME_LEN_def nodes_of_Suc heap_of_snoc Let_def link_def entry_def entry_node_def)

lemma run_fresh:
  "run_state fresh_node_id (layout_store n l fl nx rt) = (nx, layout_store n l fl (nx + 1) rt)"
  by (simp add: fresh_node_id_def layout_store_def)

lemma run_set_root: "layout_store n l fl nx rt\<lparr>sn_root := q\<rparr> = layout_store n l fl nx q"
  by (simp add: layout_store_def)

lemma run_bind: "run_state m s = (a, s') \<Longrightarrow> run_state (State_Monad.bind m f) s = run_state (f a) s'"
  by (simp add: State_Monad.bind_def)

lemma run_return: "run_state (State_Monad.return a) s = (a, s)"
  by (simp add: State_Monad.return_def)

lemma structure_initial_layout: "structure_initial = layout_store 0 [] (\<lambda>_. 0) 2 None"
  by (simp add: structure_initial_def layout_store_def nodes_of_def heap_of_def PROCFS_ROOT_NODE_BASE_ID_def)

lemma bind_cong_first: "m = m' \<Longrightarrow> State_Monad.bind m f = State_Monad.bind m' f"
  by simp

lemma layout_store_cong: "n = n' \<Longrightarrow> nx = nx' \<Longrightarrow> rt = rt' \<Longrightarrow>
  layout_store n l fl nx rt = layout_store n' l fl nx' rt'"
  by simp

section \<open>The table\<close>

type_synonym layout_row = "sptr option \<times> cstring \<times> pfstype \<times> u16"

abbreviation row_flags :: "layout_row \<Rightarrow> u16" where
  "row_flags r \<equiv> snd (snd (snd r))"

abbreviation row_key :: "layout_row \<Rightarrow> sptr option \<times> cstring \<times> pfstype" where
  "row_key r \<equiv> (fst r, fst (snd r), fst (snd (snd r)))"

definition rows_root :: "layout_row list" where
  "rows_root =
    [(None, ''/'', PFSroot, 0), (Some 0, ''.'', PFSdirthis, 0),
     (Some 0, ''..'', PFSdirparent, 0), (Some 0, ''byname'', PFSdir, 0),
     (Some 3, ''.'', PFSdirthis, 0), (Some 3, ''..'', PFSdirparent, 0)]"

definition rows_root_files :: "layout_row list" where
  "rows_root_files =
    [(Some 0, ''cpuinfo'', PFScpuinfo, 0), (Some 0, ''curproc'', PFScurproc, 0),
     (Some 0, ''loadavg'', PFSloadavg, 0), (Some 0, ''kcore'', PFSkcore, 0),
     (Some 0, ''kmsg'', PFSkmsg, 0), (Some 0, ''last_kmsg'', PFSlastkmsg, 0),
     (Some 0, ''ksyms'', PFSksyms, 0), (Some 0, ''kallsyms'', PFSksyms, 0),
     (Some 0, ''locks'', PFSlocks, 0), (Some 0, ''meminfo'', PFSmeminfo, 0),
     (Some 0, ''misc'', PFSmisc, 0), (Some 0, ''mtab'', PFSmtab, 0),
     (Some 0, ''mounts'', PFSmtab, 0), (Some 0, ''stat'', PFSstat, 0),
     (Some 0, ''vmstat'', PFSvmstat, 0), (Some 0, ''partitions'', PFSpartitions, 0),
     (Some 0, ''version'', PFSversion, 0), (Some 0, ''uptime'', PFSuptime, 0),
     (Some 0, ''swaps'', PFSswaps, 0), (Some 0, ''filesystems'', PFSfilesystems, 0),
     (Some 0, ''sys'', PFSsysctl, 0)]"

definition rows_device_files :: "layout_row list" where
  "rows_device_files =
    [(Some 0, ''extensions'', PFSextensions, 0), (Some 0, ''modules'', PFSmodules, 0),
     (Some 0, ''diskstats'', PFSdiskstats, 0), (Some 0, ''devices'', PFSdevices, 0),
     (Some 0, ''allocinfo'', PFSallocinfo, 0), (Some 0, ''vmallocinfo'', PFSvmallocinfo, 0),
     (Some 0, ''apm'', PFSapm, 0), (Some 0, ''bootconfig'', PFSbootconfig, 0),
     (Some 0, ''buddyinfo'', PFSbuddyinfo, 0), (Some 0, ''pagetypeinfo'', PFSpagetypeinfo, 0),
     (Some 0, ''slabinfo'', PFSslabinfo, 0), (Some 0, ''dma'', PFSdma, 0),
     (Some 0, ''ioports'', PFSioports, 0), (Some 0, ''iomem'', PFSiomem, 0),
     (Some 0, ''softirqs'', PFSsoftirqs, 0), (Some 0, ''rtc'', PFSrtc, 0),
     (Some 0, ''execdomains'', PFSexecdomains, 0), (Some 0, ''fb'', PFSfb, 0),
     (Some 0, ''interrupts'', PFSinterrupts, 0)]"

definition rows_subdirs :: "layout_row list" where
  "rows_subdirs =
    [(Some 0, ''irq'', PFSdir, 0), (Some 46, ''.'', PFSdirthis, 0),
     (Some 46, ''..'', PFSdirparent, 0), (Some 46, ''default_smp_affinity'', PFSirq, 0),
     (Some 46, ''default_smp_affinity_list'', PFSirq, 0), (Some 0, ''tty'', PFSdir, 0),
     (Some 51, ''.'', PFSdirthis, 0), (Some 51, ''..'', PFSdirparent, 0),
     (Some 51, ''drivers'', PFStty, 0), (Some 51, ''ldiscs'', PFStty, 0),
     (Some 0, ''ide'', PFSdir, 0), (Some 56, ''.'', PFSdirthis, 0),
     (Some 56, ''..'', PFSdirparent, 0), (Some 56, ''drivers'', PFSide, 0),
     (Some 0, ''video'', PFSdir, 0), (Some 60, ''.'', PFSdirthis, 0),
     (Some 60, ''..'', PFSdirparent, 0), (Some 60, ''bttv'', PFSdir, 0),
     (Some 63, ''.'', PFSdirthis, 0), (Some 63, ''..'', PFSdirparent, 0),
     (Some 0, ''isapnp'', PFSisapnp, 0), (Some 0, ''scsi'', PFSdir, 0),
     (Some 67, ''.'', PFSdirthis, 0), (Some 67, ''..'', PFSdirparent, 0),
     (Some 67, ''scsi'', PFSscsi, 0), (Some 0, ''sysvipc'', PFSdir, 0),
     (Some 71, ''.'', PFSdirthis, 0), (Some 71, ''..'', PFSdirparent, 0),
     (Some 71, ''msg'', PFSsysvipc, 0), (Some 71, ''sem'', PFSsysvipc, 0),
     (Some 71, ''shm'', PFSsysvipc, 0), (Some 0, ''fs'', PFSdir, 0),
     (Some 77, ''.'', PFSdirthis, 0), (Some 77, ''..'', PFSdirparent, 0),
     (Some 77, ''nfs'', PFSdir, 0), (Some 80, ''.'', PFSdirthis, 0),
     (Some 80, ''..'', PFSdirparent, 0), (Some 80, ''exports'', PFSnfsexports, 0),
     (Some 0, ''driver'', PFSdir, 0), (Some 84, ''.'', PFSdirthis, 0),
     (Some 84, ''..'', PFSdirparent, 0), (Some 84, ''rtc'', PFSrtc, 0),
     (Some 0, ''bus'', PFSdir, 0), (Some 88, ''.'', PFSdirthis, 0),
     (Some 88, ''..'', PFSdirparent, 0), (Some 88, ''pci'', PFSdir, 0),
     (Some 91, ''.'', PFSdirthis, 0), (Some 91, ''..'', PFSdirparent, 0),
     (Some 91, ''devices'', PFSpcidevices, 0), (Some 0, ''cmdline'', PFSkcmdline, 0),
     (Some 0, ''self'', PFScurproc, 0)]"

definition rows_net :: "layout_row list" where
  "rows_net =
    [(Some 0, ''net'', PFSdir, 0), (Some 97, ''.'', PFSdirthis, 0),
     (Some 97, ''..'', PFSdirparent, 0), (Some 97, ''dev'', PFSnetdev, 0),
     (Some 97, ''tcp'', PFSnetdev, 0), (Some 97, ''tcp6'', PFSnetdev, 0),
     (Some 97, ''udp'', PFSnetdev, 0), (Some 97, ''udp6'', PFSnetdev, 0),
     (Some 97, ''unix'', PFSnetdev, 0), (Some 97, ''route'', PFSnetdev, 0),
     (Some 97, ''arp'', PFSnetdev, 0), (Some 97, ''netstat'', PFSnetdev, 0),
     (Some 97, ''snmp'', PFSnetdev, 0)]"

definition rows_process_dirs :: "layout_row list" where
  "rows_process_dirs =
    [(Some 3, ''__Process_N__'', PFSprocnamedir, 1), (Some 110, ''.'', PFSdirthis, 1),
     (Some 110, ''..'', PFSdirparent, 1), (Some 0, ''__Process__'', PFSproc, 1),
     (Some 113, ''.'', PFSdirthis, 1), (Some 113, ''..'', PFSdirparent, 1),
     (Some 113, ''fd'', PFSdir, 1), (Some 116, ''.'', PFSdirthis, 1),
     (Some 116, ''..'', PFSdirparent, 1), (Some 116, ''__File__'', PFSfd, 1),
     (Some 119, ''.'', PFSdirthis, 1), (Some 119, ''..'', PFSdirparent, 1),
     (Some 113, ''threads'', PFSdir, 1), (Some 122, ''.'', PFSdirthis, 1),
     (Some 122, ''..'', PFSdirparent, 1), (Some 122, ''__Thread__'', PFSthread, 3),
     (Some 125, ''.'', PFSdirthis, 3), (Some 125, ''..'', PFSdirparent, 3),
     (Some 113, ''task'', PFSdir, 1), (Some 128, ''.'', PFSdirthis, 1),
     (Some 128, ''..'', PFSdirparent, 1), (Some 128, ''__Thread__'', PFSthread, 3),
     (Some 131, ''.'', PFSdirthis, 3), (Some 131, ''..'', PFSdirparent, 3)]"

definition rows_process_files :: "layout_row list" where
  "rows_process_files =
    [(Some 113, ''cmdline'', PFSfile, 1), (Some 113, ''pid'', PFSfile, 1),
     (Some 113, ''ppid'', PFSfile, 1), (Some 113, ''pgid'', PFSfile, 1),
     (Some 113, ''sid'', PFSfile, 1), (Some 113, ''tty'', PFSfile, 1),
     (Some 113, ''status'', PFSfile, 1), (Some 113, ''taskinfo'', PFSfile, 1),
     (Some 113, ''note'', PFSfile, 1), (Some 113, ''clear_refs'', PFSfile, 1),
     (Some 113, ''limit'', PFSfile, 1), (Some 113, ''mem'', PFSfile, 1),
     (Some 113, ''map'', PFSfile, 1), (Some 113, ''maps'', PFSfile, 1),
     (Some 113, ''smaps'', PFSfile, 1), (Some 113, ''smaps_rollup'', PFSfile, 1),
     (Some 113, ''numa_maps'', PFSfile, 1), (Some 113, ''pagemap'', PFSfile, 1),
     (Some 113, ''exe'', PFSproclink, 1), (Some 113, ''cwd'', PFSproclink, 1),
     (Some 113, ''root'', PFSproclink, 1), (Some 113, ''comm'', PFSfile, 1),
     (Some 113, ''cpu'', PFSfile, 1), (Some 113, ''stat'', PFSfile, 1),
     (Some 113, ''statm'', PFSfile, 1), (Some 113, ''io'', PFSfile, 1),
     (Some 113, ''environ'', PFSfile, 1), (Some 113, ''regs'', PFSfile, 1),
     (Some 113, ''fpregs'', PFSfile, 1), (Some 113, ''auxv'', PFSfile, 1),
     (Some 113, ''wchan'', PFSfile, 1), (Some 113, ''stack'', PFSfile, 1)]"

definition rows_object_files :: "layout_row list" where
  "rows_object_files =
    [(Some 125, ''info'', PFSfile, 3), (Some 131, ''info'', PFSfile, 3),
     (Some 131, ''comm'', PFSfile, 3), (Some 131, ''stat'', PFSfile, 3),
     (Some 131, ''status'', PFSfile, 3), (Some 131, ''sched'', PFSfile, 3),
     (Some 131, ''maps'', PFSfile, 3), (Some 119, ''details'', PFSfile, 1),
     (Some 119, ''socket'', PFSfile, 1)]"

definition procfs_rows :: "layout_row list" where
  "procfs_rows = ((((((rows_root @ rows_root_files) @ rows_device_files) @ rows_subdirs) @
     rows_net) @ rows_process_dirs) @ rows_process_files) @ rows_object_files"

lemmas rows_defs = procfs_rows_def rows_root_def rows_root_files_def rows_device_files_def
  rows_subdirs_def rows_net_def rows_process_dirs_def rows_process_files_def rows_object_files_def

section \<open>Running the builder group by group\<close>

definition row_of :: "layout_entry \<Rightarrow> sptr option \<times> cstring \<times> pfstype" where
  "row_of e = (le_parent e, le_name e, le_type e)"

text \<open>Every regular file of the tree has a read function.\<close>

definition good_entry :: "layout_entry \<Rightarrow> bool" where
  "good_entry e \<longleftrightarrow> (le_type e = PFSfile \<longrightarrow> le_read e \<noteq> None)"

definition segment :: "(pfs_store, 'a) state \<Rightarrow> 'a \<Rightarrow> nat \<Rightarrow> nat \<Rightarrow> layout_row list \<Rightarrow>
    (nat \<Rightarrow> u16) \<Rightarrow> bool" where
  "segment m a n n' rows fl \<longleftrightarrow> (\<forall>l rt. \<exists>L fl'.
     run_state m (layout_store n l fl (of_nat n + 1) rt) =
       (a, layout_store n' L fl' (of_nat n' + 1) rt) \<and>
     map row_of L = rev (map row_key rows) @ map row_of l \<and>
     map le_id L = rev (map of_nat [n + 1..<n' + 1]) @ map le_id l \<and>
     (\<forall>i < n. fl' i = fl i) \<and>
     map fl' [n..<n'] = map row_flags rows \<and>
     list_all good_entry L = list_all good_entry l)"

lemmas flag_defs = PSN_FLAG_PROCESS_def PSN_FLAG_THREAD_def

lemmas run_simps = add_directory_def add_dot_entry_def add_file_def run_bind run_return run_fresh
  run_set_root run_add_root run_add_node MAX_STRUCT_NODE_NAME_LEN_def flag_defs

lemma run_root_files:
  assumes "fl 0 = 0"
  shows "segment (structure_root_files 0) () 6 27 rows_root_files fl"
  unfolding segment_def
  apply (intro allI exI conjI)
       apply (simp add: structure_root_files_def run_simps cong: layout_store_cong bind_cong_first; fail)
      apply (simp add: rows_root_files_def row_of_def; fail)
     apply (simp add: upt_rec; fail)
    apply (simp add: inherit_def; fail)
   apply (simp add: upt_rec inherit_def flag_defs rows_root_files_def assms; fail)
  apply (simp add: good_entry_def; fail)
  done

lemma run_device_files:
  assumes "fl 0 = 0"
  shows "segment (structure_device_files 0) () 27 46 rows_device_files fl"
  unfolding segment_def
  apply (intro allI exI conjI)
       apply (simp add: structure_device_files_def run_simps cong: layout_store_cong bind_cong_first; fail)
      apply (simp add: rows_device_files_def row_of_def; fail)
     apply (simp add: upt_rec; fail)
    apply (simp add: inherit_def; fail)
   apply (simp add: upt_rec inherit_def flag_defs rows_device_files_def assms; fail)
  apply (simp add: good_entry_def; fail)
  done

lemma run_subdirs:
  assumes "fl 0 = 0"
  shows "segment (structure_subdirs 0) () 46 97 rows_subdirs fl"
  unfolding segment_def
  apply (intro allI exI conjI)
       apply (simp add: structure_subdirs_def run_simps cong: layout_store_cong bind_cong_first; fail)
      apply (simp add: rows_subdirs_def row_of_def; fail)
     apply (simp add: upt_rec; fail)
    apply (simp add: inherit_def; fail)
   apply (simp add: upt_rec inherit_def flag_defs rows_subdirs_def assms; fail)
  apply (simp add: good_entry_def; fail)
  done

lemma run_net:
  assumes "fl 0 = 0"
  shows "segment (structure_net 0) () 97 110 rows_net fl"
  unfolding segment_def
  apply (intro allI exI conjI)
       apply (simp add: structure_net_def run_simps cong: layout_store_cong bind_cong_first; fail)
      apply (simp add: rows_net_def row_of_def; fail)
     apply (simp add: upt_rec; fail)
    apply (simp add: inherit_def; fail)
   apply (simp add: upt_rec inherit_def flag_defs rows_net_def assms; fail)
  apply (simp add: good_entry_def; fail)
  done

lemma run_process_dirs:
  assumes "fl 0 = 0" "fl 3 = 0"
  shows "segment (structure_process_dirs 0 3) (113, 119, 125, 131) 110 134 rows_process_dirs fl"
  unfolding segment_def
  apply (intro allI exI conjI)
       apply (simp add: structure_process_dirs_def run_simps cong: layout_store_cong bind_cong_first; fail)
      apply (simp add: rows_process_dirs_def row_of_def; fail)
     apply (simp add: upt_rec; fail)
    apply (simp add: inherit_def; fail)
   apply (simp add: upt_rec inherit_def flag_defs rows_process_dirs_def assms; fail)
  apply (simp add: good_entry_def; fail)
  done

lemma run_process_files:
  assumes "fl 113 = 1"
  shows "segment (structure_process_files 113) () 134 166 rows_process_files fl"
  unfolding segment_def
  apply (intro allI exI conjI)
       apply (simp add: structure_process_files_def run_simps cong: layout_store_cong bind_cong_first; fail)
      apply (simp add: rows_process_files_def row_of_def; fail)
     apply (simp add: upt_rec; fail)
    apply (simp add: inherit_def; fail)
   apply (simp add: upt_rec inherit_def flag_defs rows_process_files_def assms; fail)
  apply (simp add: good_entry_def; fail)
  done

lemma run_object_files:
  assumes "fl 119 = 1" "fl 125 = 3" "fl 131 = 3"
  shows "segment (structure_object_files 119 125 131) () 166 175 rows_object_files fl"
  unfolding segment_def
  apply (intro allI exI conjI)
       apply (simp add: structure_object_files_def run_simps cong: layout_store_cong bind_cong_first; fail)
      apply (simp add: rows_object_files_def row_of_def; fail)
     apply (simp add: upt_rec; fail)
    apply (simp add: inherit_def; fail)
   apply (simp add: upt_rec inherit_def flag_defs rows_object_files_def assms; fail)
  apply (simp add: good_entry_def; fail)
  done

text \<open>What is known of a store after some groups have run.\<close>

definition built :: "nat \<Rightarrow> layout_row list \<Rightarrow> layout_entry list \<Rightarrow> (nat \<Rightarrow> u16) \<Rightarrow> bool" where
  "built n rows L fl \<longleftrightarrow> length rows = n \<and> map row_of (rev L) = map row_key rows \<and>
     map le_id (rev L) = map of_nat [1..<n + 1] \<and> map fl [0..<n] = map row_flags rows \<and>
     list_all good_entry L"

lemma built_flags:
  assumes "built n rows L fl" and "i < n"
  shows "fl i = row_flags (rows ! i)"
proof -
  from assms(1) have "map fl [0..<n] = map row_flags rows" and len: "length rows = n"
    by (auto simp: built_def)
  from arg_cong [OF this(1), of "\<lambda>xs. xs ! i"] assms(2) len show ?thesis by simp
qed

lemma built_segment:
  assumes "built n rows L fl" and "segment m a n n' rows' fl" and "n' = n + length rows'"
  obtains L' fl' where
    "run_state m (layout_store n L fl (of_nat n + 1) rt) =
       (a, layout_store n' L' fl' (of_nat n' + 1) rt)"
    "built n' (rows @ rows') L' fl'"
proof -
  from assms(2) obtain L' fl' where r:
    "run_state m (layout_store n L fl (of_nat n + 1) rt) =
       (a, layout_store n' L' fl' (of_nat n' + 1) rt)"
    and rows: "map row_of L' = rev (map row_key rows') @ map row_of L"
    and ids: "map le_id L' = rev (map of_nat [n + 1..<n' + 1]) @ map le_id L"
    and old: "\<forall>i < n. fl' i = fl i"
    and new: "map fl' [n..<n'] = map row_flags rows'"
    and good: "list_all good_entry L' = list_all good_entry L"
    unfolding segment_def by blast
  have "map row_of (rev L') = map row_key (rows @ rows')"
    using arg_cong [OF rows, of rev] assms(1) by (simp add: built_def rev_map)
  moreover have "map le_id (rev L') = map of_nat [1..<n' + 1]"
  proof -
    have "[1..<n' + 1] = [1..<n + 1] @ [n + 1..<n' + 1]"
      using assms(3) upt_add_eq_append [of 1 "n + 1" "length rows'"] by (simp add: ac_simps)
    then show ?thesis
      using arg_cong [OF ids, of rev] assms(1) by (simp add: built_def rev_map del: upt_Suc)
  qed
  moreover have "map fl' [0..<n'] = map row_flags (rows @ rows')"
  proof -
    have "[0..<n'] = [0..<n] @ [n..<n']"
      using assms(3) upt_add_eq_append [of 0 n "length rows'"] by simp
    moreover have "map fl' [0..<n] = map fl [0..<n]"
      using old by simp
    moreover have "map fl [0..<n] = map row_flags rows"
      using assms(1) by (simp add: built_def)
    ultimately show ?thesis
      using new by (simp only: map_append)
  qed
  ultimately have "built n' (rows @ rows') L' fl'"
    using assms(1,3) good by (simp add: built_def)
  with r show ?thesis by (rule that)
qed

lemma run_root:
  "\<exists>L fl. run_state structure_top structure_initial =
    ((0, 3), layout_store 6 L fl (of_nat 6 + 1) (Some 0)) \<and> built 6 rows_root L fl"
  apply (intro exI conjI)
   apply (simp add: structure_top_def structure_initial_layout run_simps PROCFS_ROOT_NODE_BASE_ID_def
      eval_nat_numeral
      cong: layout_store_cong bind_cong_first)
  apply (simp add: built_def rows_root_def row_of_def good_entry_def upt_rec inherit_def flag_defs)
  done

lemma row_flags_at:
  "row_flags (rows_root ! 0) = 0"
  "row_flags ((rows_root @ r) ! 0) = 0"
  "row_flags ((rows_root @ r) ! 3) = 0"
  by (simp_all add: rows_root_def nth_append)

lemma length_rows:
  "length rows_root = 6" "length rows_root_files = 21" "length rows_device_files = 19"
  "length rows_subdirs = 51" "length rows_net = 13" "length rows_process_dirs = 24"
  "length rows_process_files = 32" "length rows_object_files = 9"
  by (simp_all add: rows_defs)

lemma row_flags_process:
  "length r = 110 \<Longrightarrow> row_flags ((r @ rows_process_dirs) ! 113) = 1"
  "length r = 110 \<Longrightarrow> row_flags ((r @ rows_process_dirs @ s) ! 119) = 1"
  "length r = 110 \<Longrightarrow> row_flags ((r @ rows_process_dirs @ s) ! 125) = 3"
  "length r = 110 \<Longrightarrow> row_flags ((r @ rows_process_dirs @ s) ! 131) = 3"
  by (simp_all add: nth_append rows_process_dirs_def)

definition builds :: "(pfs_store, 'a) state \<Rightarrow> nat \<Rightarrow> layout_row list \<Rightarrow> 'a \<Rightarrow> nat \<Rightarrow>
    layout_row list \<Rightarrow> bool" where
  "builds m n rows a n' rows' \<longleftrightarrow> (\<forall>L fl. built n rows L fl \<longrightarrow> (\<exists>L' fl'.
     run_state m (layout_store n L fl (of_nat n + 1) (Some 0)) =
       (a, layout_store n' L' fl' (of_nat n' + 1) (Some 0)) \<and> built n' rows' L' fl'))"

lemma builds_bind:
  assumes "builds m n rows a n1 rows1" and "builds (f a) n1 rows1 b n2 rows2"
  shows "builds (State_Monad.bind m f) n rows b n2 rows2"
  unfolding builds_def
proof (intro allI impI)
  fix L fl assume "built n rows L fl"
  with assms(1) obtain L1 f1 where
    r1: "run_state m (layout_store n L fl (of_nat n + 1) (Some 0)) =
      (a, layout_store n1 L1 f1 (of_nat n1 + 1) (Some 0))" and "built n1 rows1 L1 f1"
    unfolding builds_def by blast
  with assms(2) obtain L2 f2 where
    "run_state (f a) (layout_store n1 L1 f1 (of_nat n1 + 1) (Some 0)) =
      (b, layout_store n2 L2 f2 (of_nat n2 + 1) (Some 0))" "built n2 rows2 L2 f2"
    unfolding builds_def by blast
  then show "\<exists>L' fl'. run_state (State_Monad.bind m f) (layout_store n L fl (of_nat n + 1) (Some 0)) =
      (b, layout_store n2 L' fl' (of_nat n2 + 1) (Some 0)) \<and> built n2 rows2 L' fl'"
    using run_bind [OF r1, of f] by metis
qed

lemma builds_segment:
  assumes "\<And>L fl. built n rows L fl \<Longrightarrow> segment m a n n' rows' fl" and "n' = n + length rows'"
  shows "builds m n rows a n' (rows @ rows')"
  unfolding builds_def using assms built_segment by metis

lemma builds_return: "builds (State_Monad.return a) n rows a n rows"
  by (auto simp: builds_def run_return)

lemma builds_groups:
  defines "r0 \<equiv> rows_root @ rows_root_files"
  defines "r1 \<equiv> (((r0 @ rows_device_files) @ rows_subdirs) @ rows_net)"
  shows "builds (structure_root_files 0) 6 rows_root () 27 r0"
    and "builds (structure_device_files 0) 27 r0 () 46 (r0 @ rows_device_files)"
    and "builds (structure_subdirs 0) 46 (r0 @ rows_device_files) () 97
      ((r0 @ rows_device_files) @ rows_subdirs)"
    and "builds (structure_net 0) 97 ((r0 @ rows_device_files) @ rows_subdirs) () 110 r1"
    and "builds (structure_process_dirs 0 3) 110 r1 (113, 119, 125, 131) 134
      (r1 @ rows_process_dirs)"
    and "builds (structure_process_files 113) 134 (r1 @ rows_process_dirs) () 166
      ((r1 @ rows_process_dirs) @ rows_process_files)"
    and "builds (structure_object_files 119 125 131) 166
      ((r1 @ rows_process_dirs) @ rows_process_files) () 175 procfs_rows"
proof -
  have len: "length r1 = 110" by (simp add: r1_def r0_def length_rows)
  show "builds (structure_root_files 0) 6 rows_root () 27 r0" unfolding r0_def
    by (rule builds_segment [OF run_root_files])
      (auto simp: built_flags row_flags_at length_rows)
  show "builds (structure_device_files 0) 27 r0 () 46 (r0 @ rows_device_files)"
    by (rule builds_segment [OF run_device_files])
      (auto simp: built_flags row_flags_at length_rows r0_def)
  show "builds (structure_subdirs 0) 46 (r0 @ rows_device_files) () 97
      ((r0 @ rows_device_files) @ rows_subdirs)"
    by (rule builds_segment [OF run_subdirs])
      (auto simp: built_flags row_flags_at length_rows r0_def)
  show "builds (structure_net 0) 97 ((r0 @ rows_device_files) @ rows_subdirs) () 110 r1"
    unfolding r1_def by (rule builds_segment [OF run_net])
      (auto simp: built_flags row_flags_at length_rows r0_def)
  show "builds (structure_process_dirs 0 3) 110 r1 (113, 119, 125, 131) 134
      (r1 @ rows_process_dirs)"
    by (rule builds_segment [OF run_process_dirs])
      (auto simp: built_flags row_flags_at length_rows r0_def r1_def)
  show "builds (structure_process_files 113) 134 (r1 @ rows_process_dirs) () 166
      ((r1 @ rows_process_dirs) @ rows_process_files)"
    by (rule builds_segment [OF run_process_files])
      (auto simp: built_flags row_flags_process [OF len] length_rows)
  show "builds (structure_object_files 119 125 131) 166
      ((r1 @ rows_process_dirs) @ rows_process_files) () 175 procfs_rows"
    unfolding procfs_rows_def r1_def [unfolded r0_def, symmetric]
    by (rule builds_segment [OF run_object_files])
      (auto simp: built_flags row_flags_process [OF len] length_rows)
qed

lemma build_layout:
  obtains L fl where
    "run_state structure_build structure_initial = (0, layout_store 175 L fl (of_nat 175 + 1) (Some 0))"
    "built 175 procfs_rows L fl"
proof -
  let ?rest = "\<lambda>(root_node, proc_by_name_dir). do {
     _ \<leftarrow> structure_root_files root_node;
     _ \<leftarrow> structure_device_files root_node;
     _ \<leftarrow> structure_subdirs root_node;
     _ \<leftarrow> structure_net root_node;
     (one_proc_dir, one_fd_dir, one_thread_dir, one_task_dir) \<leftarrow>
       structure_process_dirs root_node proc_by_name_dir;
     _ \<leftarrow> structure_process_files one_proc_dir;
     _ \<leftarrow> structure_object_files one_fd_dir one_thread_dir one_task_dir;
     State_Monad.return root_node }"
  have "builds (?rest (0, 3)) 6 rows_root 0 175 procfs_rows"
    unfolding prod.case
    by (rule builds_bind, rule builds_groups, rule builds_bind, rule builds_groups,
        rule builds_bind, rule builds_groups, rule builds_bind, rule builds_groups,
        rule builds_bind, rule builds_groups, unfold prod.case, rule builds_bind,
        rule builds_groups, rule builds_bind, rule builds_groups, rule builds_return)
  moreover from run_root obtain L fl where
    r: "run_state structure_top structure_initial =
      ((0, 3), layout_store 6 L fl (of_nat 6 + 1) (Some 0))" and "built 6 rows_root L fl"
    by blast
  ultimately obtain L' fl' where "run_state (?rest (0, 3)) (layout_store 6 L fl (of_nat 6 + 1) (Some 0)) =
      (0, layout_store 175 L' fl' (of_nat 175 + 1) (Some 0))" "built 175 procfs_rows L' fl'"
    unfolding builds_def by blast
  then show ?thesis
    using run_bind [OF r, of ?rest] by (intro that) (simp_all only: structure_build_def)
qed

section \<open>The tree of the first mount\<close>

definition snode_row :: "pfssnode \<Rightarrow> layout_row" where
  "snode_row n = (psn_parent n, psn_name n, psn_node_type n, psn_flags n)"

definition procfs_heap :: "pfssnode list" where
  "procfs_heap = sn_heap (procfs_structure_init structure_initial)"

lemma heap_of_nth:
  assumes "\<forall>i < length l. \<forall>p. psn_parent (l ! i) = Some p \<longrightarrow> p < i"
    and "\<forall>i < length l. psn_children (l ! i) = []" and "i < length l"
  shows "heap_of l ! i =
    (l ! i)\<lparr>psn_children := filter (\<lambda>j. psn_parent (l ! j) = Some i) [0..<length l]\<rparr>"
  using assms
proof (induction l arbitrary: i rule: rev_induct)
  case (snoc e l)
  have par: "\<forall>i < length l. \<forall>p. psn_parent (l ! i) = Some p \<longrightarrow> p < i"
    and nil: "\<forall>i < length l. psn_children (l ! i) = []"
    using snoc.prems(1,2) by (auto simp: nth_append split: if_splits)
  have e: "psn_children e = []"
    using snoc.prems(2) [rule_format, of "length l"] by simp
  have split: "filter (\<lambda>j. psn_parent ((l @ [e]) ! j) = Some i) [0..<length (l @ [e])] =
      filter (\<lambda>j. psn_parent (l ! j) = Some i) [0..<length l] @
      (if psn_parent e = Some i then [length l] else [])" for i
    by (simp, rule filter_cong) (auto simp: nth_append)
  show ?case
  proof (cases "i < length l")
    case True
    have "(l @ [e]) ! i = l ! i" using True by (simp add: nth_append)
    with snoc.IH [OF par nil True] True show ?thesis
      unfolding split by (simp add: heap_of_snoc link_nth append_child_def)
  next
    case False
    with snoc.prems(3) have i: "i = length l" by simp
    have none: "filter (\<lambda>j. psn_parent (l ! j) = Some (length l)) [0..<length l] = []"
      using par by (auto simp: filter_empty_conv)
    have "psn_parent e \<noteq> Some (length l)"
      using snoc.prems(1) [rule_format, of "length l"] by auto
    then show ?thesis
      unfolding split i using e none link_nth_last [of "heap_of l" e] by (simp add: heap_of_snoc)
  qed
qed simp

fun parents_ok :: "nat \<Rightarrow> layout_row list \<Rightarrow> bool" where
  "parents_ok k [] = True"
| "parents_ok k ((p, r) # rs) =
     ((case p of None \<Rightarrow> k = 0 | Some q \<Rightarrow> q < k) \<and> parents_ok (Suc k) rs)"

fun siblings_ok :: "layout_row list \<Rightarrow> bool" where
  "siblings_ok [] = True"
| "siblings_ok ((p, nm, t, f) # rs) =
     (list_all (\<lambda>(p', nm', t', f'). p' \<noteq> p \<or> nm' \<noteq> nm \<and> \<not> dynamic_type t) rs \<and> siblings_ok rs)"

lemma parents_ok_nth:
  "parents_ok k rs \<Longrightarrow> i < length rs \<Longrightarrow>
     (fst (rs ! i) = None \<longrightarrow> k + i = 0) \<and> (\<forall>q. fst (rs ! i) = Some q \<longrightarrow> q < k + i)"
proof (induction k rs arbitrary: i rule: parents_ok.induct)
  case (2 k p r rs)
  show ?case
  proof (cases i)
    case 0
    with 2 show ?thesis by (auto split: option.splits)
  next
    case (Suc i')
    with 2 have "(fst (rs ! i') = None \<longrightarrow> Suc k + i' = 0) \<and>
        (\<forall>q. fst (rs ! i') = Some q \<longrightarrow> q < Suc k + i')" by (intro "2.IH") auto
    with Suc show ?thesis by simp
  qed
qed simp

lemma siblings_ok_nth:
  "siblings_ok rs \<Longrightarrow> i < j \<Longrightarrow> j < length rs \<Longrightarrow> fst (rs ! i) = fst (rs ! j) \<Longrightarrow>
     fst (snd (rs ! i)) \<noteq> fst (snd (rs ! j)) \<and> \<not> dynamic_type (fst (snd (snd (rs ! i))))"
proof (induction rs arbitrary: i j rule: siblings_ok.induct)
  case (2 p nm t f rs)
  then obtain j' where j: "j = Suc j'" "j' < length rs" by (cases j) auto
  show ?case
  proof (cases i)
    case 0
    from 2 j have "rs ! j' \<in> set rs" by simp
    with 2 0 j show ?thesis by (cases "rs ! j'") (fastforce simp: list_all_iff)
  next
    case (Suc i')
    with 2 j show ?thesis by simp
  qed
qed simp

lemma procfs_rows_parents: "parents_ok 0 procfs_rows"
  by (simp add: rows_defs)

lemma procfs_rows_siblings: "siblings_ok procfs_rows"
  by (simp add: rows_defs dynamic_type_def)

lemma length_procfs_rows [simp]: "length procfs_rows = 175"
  by (simp add: procfs_rows_def length_rows)

lemma init_layout:
  shows "map snode_row procfs_heap = procfs_rows"
    and "map psn_base_node_id procfs_heap = map of_nat [1..<176]"
    and "i < 175 \<Longrightarrow> psn_children (procfs_heap ! i) =
      filter (\<lambda>j. psn_parent (procfs_heap ! j) = Some i) [0..<175]"
    and "list_all (\<lambda>n. psn_node_type n = PFSfile \<longrightarrow> psn_read_data_fn n \<noteq> None) procfs_heap"
    and "sn_root (procfs_structure_init structure_initial) = Some 0"
    and "sn_log (procfs_structure_init structure_initial) = []"
    and "sn_freed (procfs_structure_init structure_initial) = []"
proof -
  obtain L fl where run: "run_state structure_build structure_initial =
      (0, layout_store 175 L fl (of_nat 175 + 1) (Some 0))" and b: "built 175 procfs_rows L fl"
    by (rule build_layout)
  then have st: "procfs_structure_init structure_initial =
      layout_store 175 L fl (of_nat 175 + 1) (Some 0)"
    by (simp add: procfs_structure_init_def structure_initial_def)
  from st show "sn_root (procfs_structure_init structure_initial) = Some 0"
    "sn_log (procfs_structure_init structure_initial) = []"
    "sn_freed (procfs_structure_init structure_initial) = []"
    by (simp_all add: layout_store_def)
  from b have keys: "map row_of (rev L) = map row_key procfs_rows"
    and ids: "map le_id (rev L) = map of_nat [1..<176]" and good: "list_all good_entry L"
    by (auto simp: built_def)
  from arg_cong [OF keys, of length] have len: "length L = 175" by simp
  let ?ns = "nodes_of 175 L fl"
  have ns: "?ns ! i = entry_node (rev L ! i) (fl i)" if "i < 175" for i
    using that len by (simp add: nodes_of_def entries_rev)
  have key: "row_of (rev L ! i) = row_key (procfs_rows ! i)" if "i < 175" for i
    using arg_cong [OF keys, of "\<lambda>xs. xs ! i"] that len by simp
  have row: "snode_row (?ns ! i) = procfs_rows ! i" if "i < 175" for i
    using key [OF that] built_flags [OF b that]
    by (simp add: ns that snode_row_def entry_node_def row_of_def prod_eq_iff)
  have par: "\<forall>i < length ?ns. \<forall>p. psn_parent (?ns ! i) = Some p \<longrightarrow> p < i"
    using parents_ok_nth [OF procfs_rows_parents] row
    by (fastforce simp: snode_row_def prod_eq_iff)
  have h: "procfs_heap ! i =
     (?ns ! i)\<lparr>psn_children := filter (\<lambda>j. psn_parent (?ns ! j) = Some i) [0..<175]\<rparr>"
    if "i < 175" for i
    using heap_of_nth [OF par, of i] that
    by (simp add: procfs_heap_def st layout_store_def ns entry_node_def)
  have lh: "length procfs_heap = 175"
    by (simp add: procfs_heap_def st layout_store_def)
  show "map snode_row procfs_heap = procfs_rows"
    using row by (intro nth_equalityI) (simp_all add: lh h snode_row_def)
  show "map psn_base_node_id procfs_heap = map of_nat [1..<176]"
  proof (rule nth_equalityI)
    fix i assume "i < length (map psn_base_node_id procfs_heap)"
    then show "map psn_base_node_id procfs_heap ! i = map of_nat [1..<176] ! i"
      using arg_cong [OF ids, of "\<lambda>xs. xs ! i"] len by (simp add: lh h ns entry_node_def del: upt_Suc)
  qed (simp add: lh)
  show "psn_children (procfs_heap ! i) =
      filter (\<lambda>j. psn_parent (procfs_heap ! j) = Some i) [0..<175]" if "i < 175" for i
    unfolding h [OF that] by (simp, rule filter_cong) (auto simp: h)
  show "list_all (\<lambda>n. psn_node_type n = PFSfile \<longrightarrow> psn_read_data_fn n \<noteq> None) procfs_heap"
    using good len
    by (auto simp: list_all_length lh h ns entry_node_def good_entry_def rev_nth)
qed

lemma length_procfs_heap: "length procfs_heap = 175"
  using arg_cong [OF init_layout(1), of length] by simp

lemma procfs_heap_row: "i < 175 \<Longrightarrow> snode_row (procfs_heap ! i) = procfs_rows ! i"
  using arg_cong [OF init_layout(1), of "\<lambda>xs. xs ! i"] length_procfs_heap by simp

interpretation procfs: layout_tree procfs_heap
proof
  show "procfs_heap \<noteq> []"
    using arg_cong [OF init_layout(1), of length] by auto
next
  fix i p
  note len = length_procfs_heap and row = procfs_heap_row
  { assume "i < length procfs_heap" "psn_parent (procfs_heap ! i) = Some p"
    then show "p < i"
      using parents_ok_nth [OF procfs_rows_parents, of i] row [of i] len
      by (auto simp: snode_row_def prod_eq_iff) }
  { assume "i < length procfs_heap" "psn_parent (procfs_heap ! i) = None"
    then show "i = 0"
      using parents_ok_nth [OF procfs_rows_parents, of i] row [of i] len
      by (auto simp: snode_row_def prod_eq_iff) }
  { assume "i < length procfs_heap"
    then show "psn_children (procfs_heap ! i) =
        filter (\<lambda>j. psn_parent (procfs_heap ! j) = Some i) [0..<length procfs_heap]"
      using init_layout(3) len by simp }
  fix j
  assume "i < j" "j < length procfs_heap" "psn_parent (procfs_heap ! i) = psn_parent (procfs_heap ! j)"
  then show "psn_name (procfs_heap ! i) \<noteq> psn_name (procfs_heap ! j) \<and>
      \<not> dynamic_type (psn_node_type (procfs_heap ! i))"
    using siblings_ok_nth [OF procfs_rows_siblings, of i j] row [of i] row [of j] len
    by (auto simp: snode_row_def prod_eq_iff)
next
  have "unat (of_nat n :: 16 word) = n" if "n < 176" for n
    using that by (simp add: unat_of_nat take_bit_nat_eq_self)
  then have "inj_on (of_nat :: nat \<Rightarrow> 16 word) {1..<176}"
    by (intro inj_on_inverseI [where g = unat]) simp
  then show "distinct (map psn_base_node_id procfs_heap)"
    by (simp add: init_layout(2) distinct_map del: upt_Suc)
qed

section \<open>Properties\<close>

text \<open>
  C8: the first mount builds exactly the tree of the table: the nodes in allocation order have
  the parents, names, types and flags of the rows, base ids 1 to 175, child queues in
  allocation order, a read function for every regular file, and no name had to be truncated.
\<close>

theorem structure_init_builds_table:
  "map snode_row procfs_heap = procfs_rows \<and>
   map psn_base_node_id procfs_heap = map of_nat [1..<176] \<and>
   map psn_children procfs_heap =
     map (\<lambda>i. filter (\<lambda>j. psn_parent (procfs_heap ! j) = Some i) [0..<175]) [0..<175] \<and>
   filter (\<lambda>n. psn_node_type n = PFSfile \<and> psn_read_data_fn n = None) procfs_heap = [] \<and>
   procfs_structure_root_node (procfs_structure_init structure_initial) = Some 0 \<and>
   sn_log (procfs_structure_init structure_initial) = []"
proof -
  have "map psn_children procfs_heap =
     map (\<lambda>i. filter (\<lambda>j. psn_parent (procfs_heap ! j) = Some i) [0..<175]) [0..<175]"
    using init_layout(3) by (intro nth_equalityI) (simp_all add: length_procfs_heap)
  moreover have "filter (\<lambda>n. psn_node_type n = PFSfile \<and> psn_read_data_fn n = None) procfs_heap = []"
    using init_layout(4) by (auto simp: filter_empty_conv list_all_iff)
  ultimately show ?thesis
    using init_layout(1,2,5,6) by (simp add: procfs_structure_root_node_def)
qed

text \<open>
  C9: releasing the tree of the first mount returns, clears the root pointer and frees every
  node exactly once, no node after its parent, although each child is unlinked twice.
\<close>

theorem structure_free_releases_all:
  "\<exists>st'. procfs_structure_free (procfs_structure_init structure_initial) = Some st' \<and>
     sn_root st' = None \<and> distinct (sn_freed st') \<and>
     set (sn_freed st') = {..<length procfs_heap} \<and> child_first procfs_heap (sn_freed st')"
  by (rule procfs.structure_free_ok) (simp_all add: procfs_heap_def init_layout)

end
