(* ===== verification/NodeTable.thy ===== *)
theory NodeTable
  imports Types
begin

text \<open>
  The table of active nodes, \<open>kext/procfs_node.c\<close>, and the reclaim operation of
  \<open>kext/procfs_vnops.c\<close>. Everything between two operations on \<open>pfsnode_hash_mutex\<close> is one
  atomic operation on \<open>node_table\<close>; \<open>nt_step\<close> interleaves any number of threads inside
  \<open>procfsnode_find\<close> with each other and with the kernel's reclaim of vnodes, and
  \<open>procfsnode_find\<close> is the same loop run by one thread.

  A node pointer is a natural number, which \<open>OSMalloc\<close> may hand out again after it was freed. A
  vnode is named by the pair of its address and its vid, which is never used twice; it is alive
  until reclaim, and dying once the kernel has decided to reclaim it, which it does only while
  nobody holds an iocount.
\<close>

section \<open>Hash\<close>

definition PROCFS_ROOT_NODE_ID :: pfsid where
  "PROCFS_ROOT_NODE_ID = mk_id PRNODE_NO_PID PRNODE_NO_OBJECTID PROCFS_ROOT_NODE_BASE_ID"

definition HASH_FOR_MOUNT_AND_ID :: "int \<Rightarrow> pfsid \<Rightarrow> u32" where
  "HASH_FOR_MOUNT_AND_ID mount_id nid = ucast
     ((push_bit 16 (of_int mount_id :: u64)) XOR of_int (nodeid_pid nid) XOR
      nodeid_objectid nid XOR ucast (nodeid_base_id nid))"

definition PROCFS_NODE_HASH_TO_BUCKET :: "u32 \<Rightarrow> nat" where
  "PROCFS_NODE_HASH_TO_BUCKET h = unat (h AND 63)"

definition bucket_of :: "int \<Rightarrow> pfsid \<Rightarrow> nat" where
  "bucket_of mount_id nid = PROCFS_NODE_HASH_TO_BUCKET (HASH_FOR_MOUNT_AND_ID mount_id nid)"

section \<open>The table\<close>

type_synonym nptr = nat

record vnode_info =
  v_fsnode :: nptr
  v_dying :: bool

record node_table =
  nt_nodes :: "nptr \<Rightarrow> pfsnode option"
  nt_hash :: "nat \<Rightarrow> nptr list"
  nt_vnodes :: "nat \<Rightarrow> vnode_info option"
  nt_vseq :: nat

definition nt_initial :: node_table where
  "nt_initial = \<lparr>nt_nodes = (\<lambda>_. None), nt_hash = (\<lambda>_. []), nt_vnodes = (\<lambda>_. None), nt_vseq = 0\<rparr>"

record find_req =
  fr_mount :: int
  fr_id :: pfsid
  fr_snode :: sptr

definition node_matches :: "find_req \<Rightarrow> pfsnode \<Rightarrow> bool" where
  "node_matches req n \<longleftrightarrow> node_mnt_id n = fr_mount req \<and>
     nodeid_pid (node_id n) = nodeid_pid (fr_id req) \<and>
     nodeid_objectid (node_id n) = nodeid_objectid (fr_id req) \<and>
     nodeid_base_id (node_id n) = nodeid_base_id (fr_id req)"

definition nt_search :: "find_req \<Rightarrow> node_table \<Rightarrow> nptr option" where
  "nt_search req nt = List.find
     (\<lambda>p. case nt_nodes nt p of None \<Rightarrow> False | Some n \<Rightarrow> node_matches req n)
     (nt_hash nt (bucket_of (fr_mount req) (fr_id req)))"

definition nt_update :: "nptr \<Rightarrow> (pfsnode \<Rightarrow> pfsnode) \<Rightarrow> node_table \<Rightarrow> node_table" where
  "nt_update p f nt = nt\<lparr>nt_nodes := (nt_nodes nt)(p := map_option f (nt_nodes nt p))\<rparr>"

text \<open>Promotion of the freshly allocated node: zero it, fill in the key, insert at the head.\<close>

definition nt_insert :: "find_req \<Rightarrow> nptr \<Rightarrow> node_table \<Rightarrow> node_table" where
  "nt_insert req p nt =
     (let n = \<lparr>node_vnode = None, node_attaching_vnode = False, node_thread_waiting_attach = False,
               node_mnt_id = fr_mount req, node_id = fr_id req, node_structure_node = fr_snode req\<rparr>;
          b = bucket_of (fr_mount req) (fr_id req)
      in nt\<lparr>nt_nodes := (nt_nodes nt)(p := Some n), nt_hash := (nt_hash nt)(b := p # nt_hash nt b)\<rparr>)"

definition procfsnode_free_node :: "nptr \<Rightarrow> node_table \<Rightarrow> node_table" where
  "procfsnode_free_node p nt = nt\<lparr>nt_hash := (\<lambda>b. remove1 p (nt_hash nt b)),
     nt_nodes := (nt_nodes nt)(p := None)\<rparr>"

text \<open>The locked part of one turn of the loop, up to the point where the lock is dropped.\<close>

datatype nt_verdict =
    MustAlloc
  | MustSleep nptr
  | HasVnode nptr nat
  | MustCreate nptr

definition nt_decide :: "nptr \<Rightarrow> node_table \<Rightarrow> nt_verdict \<times> node_table" where
  "nt_decide p nt = (case nt_nodes nt p of None \<Rightarrow> (MustAlloc, nt)
     | Some n \<Rightarrow>
         if node_attaching_vnode n
         then (MustSleep p, nt_update p (\<lambda>n. n\<lparr>node_thread_waiting_attach := True\<rparr>) nt)
         else (case node_vnode n of Some v \<Rightarrow> (HasVnode p v, nt)
           | None \<Rightarrow> (MustCreate p, nt_update p (\<lambda>n. n\<lparr>node_attaching_vnode := True\<rparr>) nt)))"

definition nt_turn :: "find_req \<Rightarrow> nptr option \<Rightarrow> node_table \<Rightarrow> nt_verdict \<times> node_table" where
  "nt_turn req new nt = (case nt_search req nt of
      Some p \<Rightarrow> nt_decide p nt
    | None \<Rightarrow> (case new of None \<Rightarrow> (MustAlloc, nt)
        | Some p \<Rightarrow> nt_decide p (nt_insert req p nt)))"

text \<open>After the caller's callback: clear the marks, then link the vnode or drop the node.\<close>

definition nt_attached :: "nptr \<Rightarrow> nat res \<Rightarrow> node_table \<Rightarrow> node_table" where
  "nt_attached p r nt =
     (let nt1 = nt_update p (\<lambda>n. n\<lparr>node_attaching_vnode := False,
                node_thread_waiting_attach := False\<rparr>) nt
      in case r of Inl e \<Rightarrow> procfsnode_free_node p nt1
         | Inr v \<Rightarrow> nt_update p (\<lambda>n. n\<lparr>node_vnode := Some v\<rparr>) nt1)"

definition nt_discard :: "nptr option \<Rightarrow> nptr \<Rightarrow> node_table \<Rightarrow> node_table" where
  \<comment> \<open>the node allocated on the way is freed unless it is the one returned\<close>
  "nt_discard new p nt = (case new of None \<Rightarrow> nt
     | Some q \<Rightarrow> if q \<noteq> p then nt\<lparr>nt_nodes := (nt_nodes nt)(q := None)\<rparr> else nt)"

definition nt_new_vnode :: "nptr \<Rightarrow> node_table \<Rightarrow> nat \<times> node_table" where
  "nt_new_vnode p nt = (nt_vseq nt, nt\<lparr>nt_vseq := Suc (nt_vseq nt),
     nt_vnodes := (nt_vnodes nt)(nt_vseq nt := Some \<lparr>v_fsnode = p, v_dying = False\<rparr>)\<rparr>)"

text \<open>
  \<open>procfs_vnop_reclaim\<close>: the node goes, then the link from the vnode to it.
\<close>

definition procfs_vnop_reclaim :: "nat \<Rightarrow> node_table \<Rightarrow> node_table" where
  "procfs_vnop_reclaim v nt = (case nt_vnodes nt v of None \<Rightarrow> nt
     | Some vn \<Rightarrow> (procfsnode_free_node (v_fsnode vn) nt)
         \<lparr>nt_vnodes := (nt_vnodes nt)(v := None)\<rparr>)"

section \<open>One thread\<close>

text \<open>
  The loop as a single thread runs it. The outcomes of the kernel calls are parameters: the
  address \<open>OSMalloc\<close> returns (or NULL) and what the memory there holds, the result of \<open>vnode_getwithvid\<close>, and the error of the
  caller's \<open>create_vnode_func\<close> (0 for success). Waiting for another thread's attachment cannot
  end here and is \<^const>\<open>None\<close>, as is running out of turns.
\<close>

record find_env =
  fe_malloc :: "node_table \<Rightarrow> (nptr \<times> pfsnode) option"
  fe_getwithvid :: "nat \<Rightarrow> errno"
  fe_create :: "find_req \<Rightarrow> errno"

fun find_loop :: "nat \<Rightarrow> find_env \<Rightarrow> find_req \<Rightarrow> nptr option \<Rightarrow> node_table \<Rightarrow>
    ((nptr \<times> nat) res \<times> node_table) option" where
  "find_loop 0 E req new nt = None"
| "find_loop (Suc f) E req new nt = (case nt_turn req new nt of
      (MustAlloc, nt1) \<Rightarrow> (case fe_malloc E nt1 of
          None \<Rightarrow> Some (Inl ENOMEM, nt1)
        | Some (p, garbage) \<Rightarrow> find_loop f E req (Some p)
            (nt1\<lparr>nt_nodes := (nt_nodes nt1)(p := Some garbage)\<rparr>))
    | (MustSleep p, nt1) \<Rightarrow> None
    | (HasVnode p v, nt1) \<Rightarrow>
        if fe_getwithvid E v = 0 then Some (Inr (p, v), nt_discard new p nt1)
        else find_loop f E req None nt1
    | (MustCreate p, nt1) \<Rightarrow>
        if fe_create E req = 0 then
          (case nt_new_vnode p nt1 of (v, nt2) \<Rightarrow>
             Some (Inr (p, v), nt_discard new p (nt_attached p (Inr v) nt2)))
        else Some (Inl (fe_create E req), nt_attached p (Inl (fe_create E req)) nt1))"

definition procfsnode_find :: "find_env \<Rightarrow> find_req \<Rightarrow> node_table \<Rightarrow>
    ((nptr \<times> nat) res \<times> node_table) option" where
  "procfsnode_find E req nt = find_loop 3 E req None nt"

text \<open>The id of the parent of a node; the root is its own parent.\<close>

definition procfs_get_parent_node_id :: "pfssnode list \<Rightarrow> pfsnode \<Rightarrow> pfsid" where
  "procfs_get_parent_node_id h pnp =
     (let snode = h ! node_structure_node pnp;
          parent = (case psn_parent snode of None \<Rightarrow> snode | Some q \<Rightarrow> h ! q);
          pid_node = psn_flags parent AND PSN_FLAG_PROCESS \<noteq> 0;
          thread_node = psn_flags parent AND PSN_FLAG_THREAD \<noteq> 0
      in mk_id (if pid_node then nodeid_pid (node_id pnp) else PRNODE_NO_PID)
           (if thread_node then nodeid_objectid (node_id pnp) else PRNODE_NO_OBJECTID)
           (psn_base_node_id parent))"

section \<open>All threads together\<close>

datatype nt_pc =
    NIdle
  | NTop find_req "nptr option"
  | NAlloc find_req
  | NSleep nptr find_req "nptr option"
  | NGetVid nptr nat find_req "nptr option"
  | NCreate nptr find_req "nptr option"
  | NAttach nptr "nat res" find_req "nptr option"
  | NRet find_req "(nptr \<times> nat) res"

definition wake :: "nptr \<Rightarrow> (nat \<Rightarrow> nt_pc) \<Rightarrow> (nat \<Rightarrow> nt_pc)" where
  "wake p pcs = (\<lambda>t. case pcs t of NSleep q req new \<Rightarrow> if q = p then NTop req new else pcs t
     | pc \<Rightarrow> pc)"

fun vheld :: "nt_pc \<Rightarrow> (nptr \<times> nat) option" where
  "vheld (NAttach p (Inr v) req new) = Some (p, v)"
| "vheld (NRet req (Inr pv)) = Some pv"
| "vheld _ = None"

type_synonym nt_sys = "node_table \<times> (nat \<Rightarrow> nt_pc)"

definition waiting :: "nptr \<Rightarrow> node_table \<Rightarrow> bool" where
  "waiting p nt = (case nt_nodes nt p of None \<Rightarrow> False | Some n \<Rightarrow> node_thread_waiting_attach n)"

inductive nt_step :: "nt_sys \<Rightarrow> nt_sys \<Rightarrow> bool" where
  Call: "pcs t = NIdle \<Longrightarrow> nt_step (nt, pcs) (nt, pcs(t := NTop req None))"
| Alloc: "pcs t = NTop req new \<Longrightarrow> nt_turn req new nt = (MustAlloc, nt') \<Longrightarrow>
    nt_step (nt, pcs) (nt', pcs(t := NAlloc req))"
| Sleep: "pcs t = NTop req new \<Longrightarrow> nt_turn req new nt = (MustSleep p, nt') \<Longrightarrow>
    nt_step (nt, pcs) (nt', pcs(t := NSleep p req new))"
| Found: "pcs t = NTop req new \<Longrightarrow> nt_turn req new nt = (HasVnode p v, nt') \<Longrightarrow>
    nt_step (nt, pcs) (nt', pcs(t := NGetVid p v req new))"
| Promote: "pcs t = NTop req new \<Longrightarrow> nt_turn req new nt = (MustCreate p, nt') \<Longrightarrow>
    nt_step (nt, pcs) (nt', pcs(t := NCreate p req new))"
| NoMem: "pcs t = NAlloc req \<Longrightarrow> nt_step (nt, pcs) (nt, pcs(t := NRet req (Inl ENOMEM)))"
| Malloc: "pcs t = NAlloc req \<Longrightarrow> nt_nodes nt p = None \<Longrightarrow>
    nt_step (nt, pcs) (nt\<lparr>nt_nodes := (nt_nodes nt)(p := Some g)\<rparr>, pcs(t := NTop req (Some p)))"
| GetOk: "pcs t = NGetVid p v req new \<Longrightarrow> nt_vnodes nt v = Some vn \<Longrightarrow> \<not> v_dying vn \<Longrightarrow>
    nt_step (nt, pcs) (nt_discard new p nt, pcs(t := NRet req (Inr (p, v))))"
| GetFail: "pcs t = NGetVid p v req new \<Longrightarrow> (\<And>vn. nt_vnodes nt v = Some vn \<Longrightarrow> v_dying vn) \<Longrightarrow>
    nt_step (nt, pcs) (nt, pcs(t := NTop req None))"
| CreateOk: "pcs t = NCreate p req new \<Longrightarrow> nt_new_vnode p nt = (v, nt') \<Longrightarrow>
    nt_step (nt, pcs) (nt', pcs(t := NAttach p (Inr v) req new))"
| CreateFail: "pcs t = NCreate p req new \<Longrightarrow> e \<noteq> 0 \<Longrightarrow>
    nt_step (nt, pcs) (nt, pcs(t := NAttach p (Inl e) req new))"
| AttachOk: "pcs t = NAttach p (Inr v) req new \<Longrightarrow>
    nt_step (nt, pcs) (nt_discard new p (nt_attached p (Inr v) nt),
      (if waiting p nt then wake p pcs else pcs)(t := NRet req (Inr (p, v))))"
| AttachFail: "pcs t = NAttach p (Inl e) req new \<Longrightarrow>
    nt_step (nt, pcs) (nt_attached p (Inl e) nt,
      (if waiting p nt then wake p pcs else pcs)(t := NRet req (Inl e)))"
| Put: "pcs t = NRet req r \<Longrightarrow> nt_step (nt, pcs) (nt, pcs(t := NIdle))"
| Dying: "nt_vnodes nt v = Some vn \<Longrightarrow> (\<And>t p. vheld (pcs t) \<noteq> Some (p, v)) \<Longrightarrow>
    nt_step (nt, pcs) (nt\<lparr>nt_vnodes := (nt_vnodes nt)(v := Some (vn\<lparr>v_dying := True\<rparr>))\<rparr>, pcs)"
| Reclaim: "nt_vnodes nt v = Some vn \<Longrightarrow> v_dying vn \<Longrightarrow>
    nt_step (nt, pcs) (procfs_vnop_reclaim v nt, pcs)"

inductive_cases nt_stepE: "nt_step s s'"

inductive nt_reachable :: "nt_sys \<Rightarrow> bool" where
  Init: "nt_reachable (nt_initial, \<lambda>_. NIdle)"
| Step: "nt_reachable s \<Longrightarrow> nt_step s s' \<Longrightarrow> nt_reachable s'"

section \<open>Invariant\<close>

definition inhash :: "node_table \<Rightarrow> nptr \<Rightarrow> bool" where
  "inhash nt p \<longleftrightarrow> (\<exists>b. p \<in> set (nt_hash nt b))"

definition key :: "pfsnode \<Rightarrow> int \<times> pfsid" where
  "key n = (node_mnt_id n, node_id n)"

definition rkey :: "find_req \<Rightarrow> int \<times> pfsid" where
  "rkey req = (fr_mount req, fr_id req)"

text \<open>The node a thread has allocated and not yet published, and the node it attaches.\<close>

fun owned :: "nt_pc \<Rightarrow> nptr option" where
  "owned (NTop req new) = new"
| "owned (NSleep p req new) = new"
| "owned (NGetVid p v req new) = new"
| "owned _ = None"

fun creating :: "nt_pc \<Rightarrow> nptr option" where
  "creating (NCreate p req new) = Some p"
| "creating (NAttach p r req new) = Some p"
| "creating _ = None"

fun pc_wf :: "nt_pc \<Rightarrow> bool" where
  "pc_wf (NCreate p req new) = (new = Some p)"
| "pc_wf (NAttach p r req new) = (new = Some p)"
| "pc_wf _ = True"

text \<open>The node a thread works on has the key it asked for.\<close>

fun target :: "nt_pc \<Rightarrow> (nptr \<times> find_req) option" where
  "target (NCreate p req new) = Some (p, req)"
| "target (NAttach p r req new) = Some (p, req)"
| "target (NRet req (Inr (p, v))) = Some (p, req)"
| "target _ = None"

text \<open>The invariant is split by what it speaks about: the table alone, threads and nodes, vnodes.\<close>

definition hash_inv :: "node_table \<Rightarrow> bool" where
  "hash_inv nt \<longleftrightarrow>
     (\<forall>b p. p \<in> set (nt_hash nt b) \<longrightarrow>
        (\<exists>n. nt_nodes nt p = Some n \<and> bucket_of (node_mnt_id n) (node_id n) = b)) \<and>
     (\<forall>b. distinct (nt_hash nt b)) \<and>
     (\<forall>p q n m. inhash nt p \<longrightarrow> inhash nt q \<longrightarrow> nt_nodes nt p = Some n \<longrightarrow> nt_nodes nt q = Some m \<longrightarrow>
        key n = key m \<longrightarrow> p = q)"

definition thread_inv :: "node_table \<Rightarrow> (nat \<Rightarrow> nt_pc) \<Rightarrow> bool" where
  "thread_inv nt pcs \<longleftrightarrow>
     (\<forall>t. pc_wf (pcs t)) \<and>
     (\<forall>t p. owned (pcs t) = Some p \<longrightarrow> nt_nodes nt p \<noteq> None \<and> \<not> inhash nt p) \<and>
     (\<forall>t u p. owned (pcs t) = Some p \<longrightarrow> owned (pcs u) = Some p \<longrightarrow> t = u) \<and>
     (\<forall>t p. creating (pcs t) = Some p \<longrightarrow> inhash nt p \<and>
        (\<exists>n. nt_nodes nt p = Some n \<and> node_attaching_vnode n \<and> node_vnode n = None)) \<and>
     (\<forall>t u p. creating (pcs t) = Some p \<longrightarrow> creating (pcs u) = Some p \<longrightarrow> t = u) \<and>
     (\<forall>p n. inhash nt p \<longrightarrow> nt_nodes nt p = Some n \<longrightarrow> node_attaching_vnode n \<longrightarrow>
        (\<exists>t. creating (pcs t) = Some p)) \<and>
     (\<forall>t p req new. pcs t = NSleep p req new \<longrightarrow> inhash nt p \<and>
        (\<exists>n. nt_nodes nt p = Some n \<and> node_attaching_vnode n \<and> node_thread_waiting_attach n)) \<and>
     (\<forall>t p req. target (pcs t) = Some (p, req) \<longrightarrow>
        (\<exists>n. nt_nodes nt p = Some n \<and> key n = rkey req))"

definition vnode_inv :: "node_table \<Rightarrow> (nat \<Rightarrow> nt_pc) \<Rightarrow> bool" where
  "vnode_inv nt pcs \<longleftrightarrow>
     (\<forall>p n. inhash nt p \<longrightarrow> nt_nodes nt p = Some n \<longrightarrow> \<not> node_attaching_vnode n \<longrightarrow>
        (\<exists>v vn. node_vnode n = Some v \<and> nt_vnodes nt v = Some vn \<and> v_fsnode vn = p)) \<and>
     (\<forall>v vn. nt_vnodes nt v = Some vn \<longrightarrow> v < nt_vseq nt \<and> inhash nt (v_fsnode vn) \<and>
        ((\<exists>n. nt_nodes nt (v_fsnode vn) = Some n \<and> \<not> node_attaching_vnode n \<and> node_vnode n = Some v) \<or>
         (\<exists>t req new. pcs t = NAttach (v_fsnode vn) (Inr v) req new))) \<and>
     (\<forall>t p v. vheld (pcs t) = Some (p, v) \<longrightarrow>
        (\<exists>vn. nt_vnodes nt v = Some vn \<and> \<not> v_dying vn \<and> v_fsnode vn = p)) \<and>
     (\<forall>t p v req new. pcs t = NGetVid p v req new \<longrightarrow> v < nt_vseq nt \<and>
        (\<forall>vn. nt_vnodes nt v = Some vn \<longrightarrow> v_fsnode vn = p \<and>
           (\<exists>n. nt_nodes nt p = Some n \<and> key n = rkey req)))"

definition nt_inv :: "nt_sys \<Rightarrow> bool" where
  "nt_inv s \<longleftrightarrow> (case s of (nt, pcs) \<Rightarrow> hash_inv nt \<and> thread_inv nt pcs \<and> vnode_inv nt pcs)"

lemma node_matches_key: "node_matches req n \<longleftrightarrow> key n = rkey req"
  by (auto simp: node_matches_def key_def rkey_def)

lemma nt_search_Some:
  assumes "nt_search req nt = Some p"
  shows "inhash nt p \<and> (\<exists>n. nt_nodes nt p = Some n \<and> key n = rkey req)"
  using find_Some_iff_first [OF assms [unfolded nt_search_def]]
  by (auto simp: inhash_def node_matches_key split: option.splits)

lemma nt_search_None:
  assumes "hash_inv nt" "nt_search req nt = None" "inhash nt p" "nt_nodes nt p = Some n"
  shows "key n \<noteq> rkey req"
proof
  assume "key n = rkey req"
  moreover from assms(3) obtain b where b: "p \<in> set (nt_hash nt b)" by (auto simp: inhash_def)
  ultimately have "b = bucket_of (fr_mount req) (fr_id req)"
    using assms(1,4) by (fastforce simp: hash_inv_def key_def rkey_def)
  with b assms(2,4) \<open>key n = rkey req\<close> show False
    by (fastforce simp: nt_search_def find_None_set node_matches_key)
qed

lemma hash_invI:
  assumes "\<And>b p. p \<in> set (nt_hash nt b) \<Longrightarrow>
      \<exists>n. nt_nodes nt p = Some n \<and> bucket_of (node_mnt_id n) (node_id n) = b"
    and "\<And>b. distinct (nt_hash nt b)"
    and "\<And>p q n m. inhash nt p \<Longrightarrow> inhash nt q \<Longrightarrow> nt_nodes nt p = Some n \<Longrightarrow> nt_nodes nt q = Some m \<Longrightarrow>
      key n = key m \<Longrightarrow> p = q"
  shows "hash_inv nt"
  using assms unfolding hash_inv_def by blast

lemma hash_invD:
  assumes "hash_inv nt"
  shows "\<And>b p. p \<in> set (nt_hash nt b) \<Longrightarrow>
      \<exists>n. nt_nodes nt p = Some n \<and> bucket_of (node_mnt_id n) (node_id n) = b"
    and "\<And>b. distinct (nt_hash nt b)"
    and "\<And>p q n m. inhash nt p \<Longrightarrow> inhash nt q \<Longrightarrow> nt_nodes nt p = Some n \<Longrightarrow> nt_nodes nt q = Some m \<Longrightarrow>
      key n = key m \<Longrightarrow> p = q"
  using assms unfolding hash_inv_def by blast+

lemma thread_invI:
  assumes "\<And>t. pc_wf (pcs t)"
    and "\<And>t p. owned (pcs t) = Some p \<Longrightarrow> nt_nodes nt p \<noteq> None \<and> \<not> inhash nt p"
    and "\<And>t u p. owned (pcs t) = Some p \<Longrightarrow> owned (pcs u) = Some p \<Longrightarrow> t = u"
    and "\<And>t p. creating (pcs t) = Some p \<Longrightarrow> inhash nt p \<and>
        (\<exists>n. nt_nodes nt p = Some n \<and> node_attaching_vnode n \<and> node_vnode n = None)"
    and "\<And>t u p. creating (pcs t) = Some p \<Longrightarrow> creating (pcs u) = Some p \<Longrightarrow> t = u"
    and "\<And>p n. inhash nt p \<Longrightarrow> nt_nodes nt p = Some n \<Longrightarrow> node_attaching_vnode n \<Longrightarrow>
        \<exists>t. creating (pcs t) = Some p"
    and "\<And>t p req new. pcs t = NSleep p req new \<Longrightarrow> inhash nt p \<and>
        (\<exists>n. nt_nodes nt p = Some n \<and> node_attaching_vnode n \<and> node_thread_waiting_attach n)"
    and "\<And>t p req. target (pcs t) = Some (p, req) \<Longrightarrow>
        \<exists>n. nt_nodes nt p = Some n \<and> key n = rkey req"
  shows "thread_inv nt pcs"
  using assms unfolding thread_inv_def by blast

lemma thread_invD:
  assumes "thread_inv nt pcs"
  shows "\<And>t. pc_wf (pcs t)"
    and "\<And>t p. owned (pcs t) = Some p \<Longrightarrow> nt_nodes nt p \<noteq> None \<and> \<not> inhash nt p"
    and "\<And>t u p. owned (pcs t) = Some p \<Longrightarrow> owned (pcs u) = Some p \<Longrightarrow> t = u"
    and "\<And>t p. creating (pcs t) = Some p \<Longrightarrow> inhash nt p \<and>
        (\<exists>n. nt_nodes nt p = Some n \<and> node_attaching_vnode n \<and> node_vnode n = None)"
    and "\<And>t u p. creating (pcs t) = Some p \<Longrightarrow> creating (pcs u) = Some p \<Longrightarrow> t = u"
    and "\<And>p n. inhash nt p \<Longrightarrow> nt_nodes nt p = Some n \<Longrightarrow> node_attaching_vnode n \<Longrightarrow>
        \<exists>t. creating (pcs t) = Some p"
    and "\<And>t p req new. pcs t = NSleep p req new \<Longrightarrow> inhash nt p \<and>
        (\<exists>n. nt_nodes nt p = Some n \<and> node_attaching_vnode n \<and> node_thread_waiting_attach n)"
    and "\<And>t p req. target (pcs t) = Some (p, req) \<Longrightarrow>
        \<exists>n. nt_nodes nt p = Some n \<and> key n = rkey req"
  using assms unfolding thread_inv_def by blast+

lemma vnode_invI:
  assumes "\<And>p n. inhash nt p \<Longrightarrow> nt_nodes nt p = Some n \<Longrightarrow> \<not> node_attaching_vnode n \<Longrightarrow>
        \<exists>v vn. node_vnode n = Some v \<and> nt_vnodes nt v = Some vn \<and> v_fsnode vn = p"
    and "\<And>v vn. nt_vnodes nt v = Some vn \<Longrightarrow> v < nt_vseq nt \<and> inhash nt (v_fsnode vn) \<and>
        ((\<exists>n. nt_nodes nt (v_fsnode vn) = Some n \<and> \<not> node_attaching_vnode n \<and> node_vnode n = Some v) \<or>
         (\<exists>t req new. pcs t = NAttach (v_fsnode vn) (Inr v) req new))"
    and "\<And>t p v. vheld (pcs t) = Some (p, v) \<Longrightarrow>
        \<exists>vn. nt_vnodes nt v = Some vn \<and> \<not> v_dying vn \<and> v_fsnode vn = p"
    and "\<And>t p v req new. pcs t = NGetVid p v req new \<Longrightarrow> v < nt_vseq nt"
    and "\<And>t p v req new vn. pcs t = NGetVid p v req new \<Longrightarrow> nt_vnodes nt v = Some vn \<Longrightarrow>
        v_fsnode vn = p \<and> (\<exists>n. nt_nodes nt p = Some n \<and> key n = rkey req)"
  shows "vnode_inv nt pcs"
  using assms unfolding vnode_inv_def by blast

lemma vnode_invD:
  assumes "vnode_inv nt pcs"
  shows "\<And>p n. inhash nt p \<Longrightarrow> nt_nodes nt p = Some n \<Longrightarrow> \<not> node_attaching_vnode n \<Longrightarrow>
        \<exists>v vn. node_vnode n = Some v \<and> nt_vnodes nt v = Some vn \<and> v_fsnode vn = p"
    and "\<And>v vn. nt_vnodes nt v = Some vn \<Longrightarrow> v < nt_vseq nt \<and> inhash nt (v_fsnode vn) \<and>
        ((\<exists>n. nt_nodes nt (v_fsnode vn) = Some n \<and> \<not> node_attaching_vnode n \<and> node_vnode n = Some v) \<or>
         (\<exists>t req new. pcs t = NAttach (v_fsnode vn) (Inr v) req new))"
    and "\<And>t p v. vheld (pcs t) = Some (p, v) \<Longrightarrow>
        \<exists>vn. nt_vnodes nt v = Some vn \<and> \<not> v_dying vn \<and> v_fsnode vn = p"
    and "\<And>t p v req new. pcs t = NGetVid p v req new \<Longrightarrow> v < nt_vseq nt"
    and "\<And>t p v req new vn. pcs t = NGetVid p v req new \<Longrightarrow> nt_vnodes nt v = Some vn \<Longrightarrow>
        v_fsnode vn = p \<and> (\<exists>n. nt_nodes nt p = Some n \<and> key n = rkey req)"
  using assms unfolding vnode_inv_def by blast+

text \<open>
  A step that moves one thread, where the new position takes over what the old one had or
  gives it up, and the table keeps its nodes.
\<close>

lemma thread_inv_move:
  assumes inv: "thread_inv nt pcs" and wf: "pc_wf q"
    and o: "\<And>p. owned q = Some p \<Longrightarrow> owned (pcs t) = Some p \<or>
      nt_nodes nt p \<noteq> None \<and> \<not> inhash nt p \<and> (\<forall>u. owned (pcs u) \<noteq> Some p)"
    and c: "creating q = creating (pcs t)"
    and s: "\<And>p req new. q = NSleep p req new \<Longrightarrow> inhash nt p \<and>
        (\<exists>n. nt_nodes nt p = Some n \<and> node_attaching_vnode n \<and> node_thread_waiting_attach n)"
    and g: "\<And>p req. target q = Some (p, req) \<Longrightarrow> \<exists>n. nt_nodes nt p = Some n \<and> key n = rkey req"
  shows "thread_inv nt (pcs(t := q))"
proof -
  note D = thread_invD [OF inv]
  have cr: "creating ((pcs(t := q)) u) = creating (pcs u)" for u using c by simp
  have ow: "owned (pcs u) = Some p \<or> u = t \<and> nt_nodes nt p \<noteq> None \<and> \<not> inhash nt p \<and>
      (\<forall>u. owned (pcs u) \<noteq> Some p)" if "owned ((pcs(t := q)) u) = Some p" for u p
    using o that by (cases "u = t") auto
  show ?thesis
  proof (rule thread_invI)
    show "pc_wf ((pcs(t := q)) u)" for u using wf D(1) by simp
    show "nt_nodes nt p \<noteq> None \<and> \<not> inhash nt p" if "owned ((pcs(t := q)) u) = Some p" for u p
      using D(2) ow [OF that] by blast
    show "u = v" if "owned ((pcs(t := q)) u) = Some p" "owned ((pcs(t := q)) v) = Some p" for u v p
      using D(3) ow [OF that(1)] ow [OF that(2)] by blast
    show "inhash nt p \<and> (\<exists>n. nt_nodes nt p = Some n \<and> node_attaching_vnode n \<and> node_vnode n = None)"
      if "creating ((pcs(t := q)) u) = Some p" for u p using D(4) that unfolding cr by blast
    show "u = v" if "creating ((pcs(t := q)) u) = Some p" "creating ((pcs(t := q)) v) = Some p" for u v p
      using D(5) that unfolding cr by blast
    show "\<exists>u. creating ((pcs(t := q)) u) = Some p"
      if "inhash nt p" "nt_nodes nt p = Some n" "node_attaching_vnode n" for p n
      using D(6) [OF that] unfolding cr .
    show "inhash nt p \<and> (\<exists>n. nt_nodes nt p = Some n \<and> node_attaching_vnode n \<and> node_thread_waiting_attach n)"
      if "(pcs(t := q)) u = NSleep p req new" for u p req new
      using s D(7) that by (cases "u = t") auto
    show "\<exists>n. nt_nodes nt p = Some n \<and> key n = rkey req" if "target ((pcs(t := q)) u) = Some (p, req)" for u p req
      using g D(8) that by (cases "u = t") auto
  qed
qed

lemma vnode_inv_move:
  assumes inv: "vnode_inv nt pcs"
    and a: "\<And>p v req new. pcs t = NAttach p (Inr v) req new \<Longrightarrow> q = NAttach p (Inr v) req new"
    and h: "\<And>p v. vheld q = Some (p, v) \<Longrightarrow> \<exists>vn. nt_vnodes nt v = Some vn \<and> \<not> v_dying vn \<and> v_fsnode vn = p"
    and g: "\<And>p v req new. q = NGetVid p v req new \<Longrightarrow> v < nt_vseq nt \<and>
      (\<forall>vn. nt_vnodes nt v = Some vn \<longrightarrow> v_fsnode vn = p \<and> (\<exists>n. nt_nodes nt p = Some n \<and> key n = rkey req))"
  shows "vnode_inv nt (pcs(t := q))"
proof -
  note D = vnode_invD [OF inv]
  have at: "\<exists>u req new. (pcs(t := q)) u = NAttach p (Inr v) req new"
    if "pcs u = NAttach p (Inr v) req new" for u p v req new
    using that a by (intro exI [of _ u]) auto
  show ?thesis
  proof (rule vnode_invI)
    show "v < nt_vseq nt \<and> inhash nt (v_fsnode vn) \<and>
        ((\<exists>n. nt_nodes nt (v_fsnode vn) = Some n \<and> \<not> node_attaching_vnode n \<and> node_vnode n = Some v) \<or>
         (\<exists>u req new. (pcs(t := q)) u = NAttach (v_fsnode vn) (Inr v) req new))"
      if "nt_vnodes nt v = Some vn" for v vn using D(2) [OF that] at by blast
    show "\<exists>vn. nt_vnodes nt v = Some vn \<and> \<not> v_dying vn \<and> v_fsnode vn = p"
      if "vheld ((pcs(t := q)) u) = Some (p, v)" for u p v using h D(3) that by (cases "u = t") auto
    show "v < nt_vseq nt" if "(pcs(t := q)) u = NGetVid p v req new" for u p v req new
      using g D(4) that by (cases "u = t") auto
    show "v_fsnode vn = p \<and> (\<exists>n. nt_nodes nt p = Some n \<and> key n = rkey req)"
      if "(pcs(t := q)) u = NGetVid p v req new" "nt_vnodes nt v = Some vn" for u p v req new vn
      using g D(5) that by (cases "u = t") auto
  qed (use D(1) in blast)
qed

lemma target_inhash:
  assumes "thread_inv nt pcs" "vnode_inv nt pcs" "target (pcs t) = Some (p, req)"
  shows "inhash nt p"
proof (cases "creating (pcs t)")
  case None
  with assms(3) obtain v where "pcs t = NRet req (Inr (p, v))"
    by (cases "(pcs t, True)" rule: prod.exhaust) (cases "pcs t"; auto split: sum.splits elim!: target.elims)
  then have "vheld (pcs t) = Some (p, v)" by simp
  then obtain vn where "nt_vnodes nt v = Some vn" "v_fsnode vn = p"
    using vnode_invD(3) [OF assms(2)] by blast
  then show ?thesis using vnode_invD(2) [OF assms(2)] by blast
next
  case (Some q)
  with assms(3) have "q = p" by (cases "pcs t") auto
  then show ?thesis using Some thread_invD(4) [OF assms(1)] by blast
qed

text \<open>A change of the memory that the hash table does not see.\<close>

lemma nt_inv_outside:
  assumes inv: "nt_inv (nt, pcs)"
    and eq: "nt_hash nt' = nt_hash nt" "nt_vnodes nt' = nt_vnodes nt" "nt_vseq nt' = nt_vseq nt"
    and same: "\<And>p. inhash nt p \<Longrightarrow> nt_nodes nt' p = nt_nodes nt p"
    and own: "\<And>t p. owned (pcs t) = Some p \<Longrightarrow> nt_nodes nt' p \<noteq> None"
  shows "nt_inv (nt', pcs)"
proof -
  from inv have h: "hash_inv nt" and t: "thread_inv nt pcs" and v: "vnode_inv nt pcs"
    by (auto simp: nt_inv_def)
  have ih: "inhash nt' p = inhash nt p" for p by (simp add: inhash_def eq)
  have "hash_inv nt'"
  proof (rule hash_invI)
    show "\<exists>n. nt_nodes nt' p = Some n \<and> bucket_of (node_mnt_id n) (node_id n) = b"
      if "p \<in> set (nt_hash nt' b)" for b p
    proof -
      from that have "p \<in> set (nt_hash nt b)" "inhash nt p" by (auto simp: eq inhash_def)
      then show ?thesis using hash_invD(1) [OF h, of p b] same by simp
    qed
    show "distinct (nt_hash nt' b)" for b using hash_invD(2) [OF h] by (simp add: eq)
    show "p = q" if "inhash nt' p" "inhash nt' q" "nt_nodes nt' p = Some n" "nt_nodes nt' q = Some m"
      "key n = key m" for p q n m
      using hash_invD(3) [OF h, of p q n m] that same unfolding ih by simp
  qed
  moreover have "thread_inv nt' pcs"
  proof (rule thread_invI)
    note D = thread_invD [OF t]
    show "pc_wf (pcs t)" for t using D(1) .
    show "nt_nodes nt' p \<noteq> None \<and> \<not> inhash nt' p" if "owned (pcs t) = Some p" for t p
      using D(2) [OF that] own [OF that] by (simp add: ih)
    show "t = u" if "owned (pcs t) = Some p" "owned (pcs u) = Some p" for t u p using D(3) that .
    show "inhash nt' p \<and> (\<exists>n. nt_nodes nt' p = Some n \<and> node_attaching_vnode n \<and> node_vnode n = None)"
      if "creating (pcs t) = Some p" for t p using D(4) [OF that] same [of p] by (simp add: ih)
    show "t = u" if "creating (pcs t) = Some p" "creating (pcs u) = Some p" for t u p using D(5) that .
    show "\<exists>t. creating (pcs t) = Some p" if "inhash nt' p" "nt_nodes nt' p = Some n" "node_attaching_vnode n"
      for p n using D(6) [of p n] that same [of p] by (simp add: ih)
    show "inhash nt' p \<and> (\<exists>n. nt_nodes nt' p = Some n \<and> node_attaching_vnode n \<and> node_thread_waiting_attach n)"
      if "pcs t = NSleep p req new" for t p req new using D(7) [OF that] same [of p] by (simp add: ih)
    show "\<exists>n. nt_nodes nt' p = Some n \<and> key n = rkey req" if "target (pcs t) = Some (p, req)" for t p req
      using D(8) [OF that] same [OF target_inhash [OF t v that]] by simp
  qed
  moreover have "vnode_inv nt' pcs"
  proof (rule vnode_invI)
    note D = vnode_invD [OF v]
    show "\<exists>v vn. node_vnode n = Some v \<and> nt_vnodes nt' v = Some vn \<and> v_fsnode vn = p"
      if "inhash nt' p" "nt_nodes nt' p = Some n" "\<not> node_attaching_vnode n" for p n
      using D(1) [of p n] that same [of p] by (simp add: ih eq)
    show "v < nt_vseq nt' \<and> inhash nt' (v_fsnode vn) \<and>
        ((\<exists>n. nt_nodes nt' (v_fsnode vn) = Some n \<and> \<not> node_attaching_vnode n \<and> node_vnode n = Some v) \<or>
         (\<exists>t req new. pcs t = NAttach (v_fsnode vn) (Inr v) req new))"
      if "nt_vnodes nt' v = Some vn" for v vn
      using D(2) [of v vn] that same [of "v_fsnode vn"] by (simp add: ih eq)
    show "\<exists>vn. nt_vnodes nt' v = Some vn \<and> \<not> v_dying vn \<and> v_fsnode vn = p"
      if "vheld (pcs t) = Some (p, v)" for t p v using D(3) [OF that] by (simp add: eq)
    show "v < nt_vseq nt'" if "pcs t = NGetVid p v req new" for t p v req new
      using D(4) [OF that] by (simp add: eq)
    show "v_fsnode vn = p \<and> (\<exists>n. nt_nodes nt' p = Some n \<and> key n = rkey req)"
      if "pcs t = NGetVid p v req new" "nt_vnodes nt' v = Some vn" for t p v req new vn
      using D(5) [OF that(1), of vn] D(2) [of v vn] that(2) same [of p] by (auto simp: eq)
  qed
  ultimately show ?thesis by (simp add: nt_inv_def)
qed

lemma nt_inv_parts:
  "nt_inv (nt, pcs) \<longleftrightarrow> hash_inv nt \<and> thread_inv nt pcs \<and> vnode_inv nt pcs"
  by (simp add: nt_inv_def)

text \<open>What one turn of the loop can find.\<close>

lemma nt_turn_cases:
  assumes inv: "nt_inv (nt, pcs)" and turn: "nt_turn req new nt = (w, nt')"
  obtains (alloc) "w = MustAlloc" "nt' = nt" "new = None" "nt_search req nt = None"
    | (promote) p where "w = MustCreate p" "new = Some p" "nt_search req nt = None"
        "nt' = nt_update p (\<lambda>n. n\<lparr>node_attaching_vnode := True\<rparr>) (nt_insert req p nt)"
    | (sleep) p n where "w = MustSleep p" "inhash nt p" "nt_nodes nt p = Some n" "key n = rkey req"
        "node_attaching_vnode n"
        "nt' = nt_update p (\<lambda>n. n\<lparr>node_thread_waiting_attach := True\<rparr>) nt"
    | (vnode) p n v where "w = HasVnode p v" "inhash nt p" "nt_nodes nt p = Some n" "key n = rkey req"
        "\<not> node_attaching_vnode n" "node_vnode n = Some v" "nt' = nt"
proof (cases "nt_search req nt")
  case None
  note none = this
  show ?thesis
  proof (cases new)
    case None
    with none have "nt_turn req new nt = (MustAlloc, nt)" by (simp add: nt_turn_def)
    with turn None none show ?thesis by (intro alloc) simp_all
  next
    case (Some p)
    have "nt_nodes (nt_insert req p nt) p \<noteq> None"
      "\<forall>n. nt_nodes (nt_insert req p nt) p = Some n \<longrightarrow> \<not> node_attaching_vnode n \<and> node_vnode n = None"
      by (simp_all add: nt_insert_def Let_def)
    then have "nt_turn req new nt =
        (MustCreate p, nt_update p (\<lambda>n. n\<lparr>node_attaching_vnode := True\<rparr>) (nt_insert req p nt))"
      using none Some by (auto simp: nt_turn_def nt_decide_def split: option.split)
    with turn Some none show ?thesis by (intro promote [of p]) simp_all
  qed
next
  case (Some p)
  from nt_search_Some [OF this] obtain n where n: "inhash nt p" "nt_nodes nt p = Some n" "key n = rkey req"
    by blast
  show ?thesis
  proof (cases "node_attaching_vnode n")
    case True
    with Some n have "nt_turn req new nt =
        (MustSleep p, nt_update p (\<lambda>n. n\<lparr>node_thread_waiting_attach := True\<rparr>) nt)"
      by (simp add: nt_turn_def nt_decide_def)
    with turn True n show ?thesis by (intro sleep [of p n]) simp_all
  next
    case False
    obtain v where v: "node_vnode n = Some v"
      using inv vnode_invD(1) [OF _ n(1,2) False] by (auto simp: nt_inv_parts)
    with Some n False have "nt_turn req new nt = (HasVnode p v, nt)"
      by (simp add: nt_turn_def nt_decide_def)
    with turn v False n show ?thesis by (intro vnode [of p v n]) simp_all
  qed
qed

lemma nt_inv_mark:
  assumes inv: "nt_inv (nt, pcs)"
  shows "nt_inv (nt_update p (\<lambda>n. n\<lparr>node_thread_waiting_attach := True\<rparr>) nt, pcs)" (is "nt_inv (?nt, pcs)")
proof -
  from inv have h: "hash_inv nt" and t: "thread_inv nt pcs" and v: "vnode_inv nt pcs"
    by (auto simp: nt_inv_parts)
  let ?f = "\<lambda>n. n\<lparr>node_thread_waiting_attach := True\<rparr>"
  have ih: "inhash ?nt q = inhash nt q" for q by (simp add: inhash_def nt_update_def)
  have eq: "nt_hash ?nt = nt_hash nt" "nt_vnodes ?nt = nt_vnodes nt" "nt_vseq ?nt = nt_vseq nt"
    by (simp_all add: nt_update_def)
  have nd: "nt_nodes ?nt q = (if q = p then map_option ?f (nt_nodes nt q) else nt_nodes nt q)" for q
    by (simp add: nt_update_def)
  have bwd: "\<exists>n. nt_nodes nt q = Some n \<and> key n = key m \<and> node_attaching_vnode n = node_attaching_vnode m \<and>
      node_vnode n = node_vnode m" if "nt_nodes ?nt q = Some m" for q m
    using that by (auto simp: nd key_def split: if_splits)
  have fwd: "\<exists>m. nt_nodes ?nt q = Some m \<and> key m = key n \<and> node_attaching_vnode m = node_attaching_vnode n \<and>
      node_vnode m = node_vnode n \<and> (node_thread_waiting_attach n \<longrightarrow> node_thread_waiting_attach m)"
    if "nt_nodes nt q = Some n" for q n
    using that by (auto simp: nd key_def)
  have "hash_inv ?nt"
  proof (rule hash_invI)
    show "\<exists>n. nt_nodes ?nt q = Some n \<and> bucket_of (node_mnt_id n) (node_id n) = b"
      if "q \<in> set (nt_hash ?nt b)" for b q
      using hash_invD(1) [OF h, of q b] that fwd [of q] unfolding eq by (auto simp: key_def)
    show "distinct (nt_hash ?nt b)" for b using hash_invD(2) [OF h] by (simp add: eq)
    show "q = r" if "inhash ?nt q" "inhash ?nt r" "nt_nodes ?nt q = Some n" "nt_nodes ?nt r = Some m" "key n = key m"
      for q r n m
      using hash_invD(3) [OF h, of q r] bwd [OF that(3)] bwd [OF that(4)] that(1,2,5) unfolding ih by auto
  qed
  moreover have "thread_inv ?nt pcs"
  proof (rule thread_invI)
    note D = thread_invD [OF t]
    show "pc_wf (pcs t)" for t using D(1) .
    show "nt_nodes ?nt q \<noteq> None \<and> \<not> inhash ?nt q" if "owned (pcs t) = Some q" for t q
      using D(2) [OF that] by (auto simp: ih nd)
    show "t = u" if "owned (pcs t) = Some q" "owned (pcs u) = Some q" for t u q using D(3) that .
    show "inhash ?nt q \<and> (\<exists>n. nt_nodes ?nt q = Some n \<and> node_attaching_vnode n \<and> node_vnode n = None)"
      if "creating (pcs t) = Some q" for t q using D(4) [OF that] fwd [of q] unfolding ih by fastforce
    show "t = u" if "creating (pcs t) = Some q" "creating (pcs u) = Some q" for t u q using D(5) that .
    show "\<exists>t. creating (pcs t) = Some q" if "inhash ?nt q" "nt_nodes ?nt q = Some n" "node_attaching_vnode n"
      for q n using D(6) [of q] that(1,3) bwd [OF that(2)] unfolding ih by auto
    show "inhash ?nt q \<and> (\<exists>n. nt_nodes ?nt q = Some n \<and> node_attaching_vnode n \<and> node_thread_waiting_attach n)"
      if "pcs t = NSleep q req new" for t q req new using D(7) [OF that] fwd [of q] unfolding ih by fastforce
    show "\<exists>n. nt_nodes ?nt q = Some n \<and> key n = rkey req" if "target (pcs t) = Some (q, req)" for t q req
      using D(8) [OF that] fwd [of q] by fastforce
  qed
  moreover have "vnode_inv ?nt pcs"
  proof (rule vnode_invI)
    note D = vnode_invD [OF v]
    show "\<exists>v vn. node_vnode n = Some v \<and> nt_vnodes ?nt v = Some vn \<and> v_fsnode vn = q"
      if "inhash ?nt q" "nt_nodes ?nt q = Some n" "\<not> node_attaching_vnode n" for q n
      using D(1) [of q] that(1,3) bwd [OF that(2)] unfolding ih eq by auto
    show "v < nt_vseq ?nt \<and> inhash ?nt (v_fsnode vn) \<and>
        ((\<exists>n. nt_nodes ?nt (v_fsnode vn) = Some n \<and> \<not> node_attaching_vnode n \<and> node_vnode n = Some v) \<or>
         (\<exists>t req new. pcs t = NAttach (v_fsnode vn) (Inr v) req new))"
      if "nt_vnodes ?nt v = Some vn" for v vn
      using D(2) [of v vn] that fwd [of "v_fsnode vn"] unfolding ih eq by fastforce
    show "\<exists>vn. nt_vnodes ?nt v = Some vn \<and> \<not> v_dying vn \<and> v_fsnode vn = q"
      if "vheld (pcs t) = Some (q, v)" for t q v using D(3) [OF that] by (simp add: eq)
    show "v < nt_vseq ?nt" if "pcs t = NGetVid q v req new" for t q v req new
      using D(4) [OF that] by (simp add: eq)
    show "v_fsnode vn = q \<and> (\<exists>n. nt_nodes ?nt q = Some n \<and> key n = rkey req)"
      if "pcs t = NGetVid q v req new" "nt_vnodes ?nt v = Some vn" for t q v req new vn
      using D(5) [OF that(1), of vn] that(2) fwd [of q] unfolding eq by fastforce
  qed
  ultimately show ?thesis by (simp add: nt_inv_parts)
qed

lemma inhash_update [simp]: "inhash (nt_update q f nt) p = inhash nt p"
  by (simp add: inhash_def nt_update_def)

lemma inhash_insert: "inhash (nt_insert req q nt) p \<longleftrightarrow> p = q \<or> inhash nt p"
proof -
  let ?b = "bucket_of (fr_mount req) (fr_id req)" and ?nt = "nt_insert req q nt"
  have hs: "nt_hash ?nt b = (if b = ?b then q # nt_hash nt b else nt_hash nt b)" for b
    by (simp add: nt_insert_def Let_def)
  have "q \<in> set (nt_hash ?nt ?b)" by (simp add: hs)
  moreover have "p \<in> set (nt_hash ?nt b)" if "p \<in> set (nt_hash nt b)" for b using that by (auto simp: hs)
  moreover have "p = q \<or> p \<in> set (nt_hash nt b)" if "p \<in> set (nt_hash ?nt b)" for b
    using that by (auto simp: hs split: if_splits)
  ultimately show ?thesis unfolding inhash_def by blast
qed

lemma nt_inv_promote:
  assumes inv: "nt_inv (nt, pcs)" and pc: "pcs t = NTop req (Some p)" and none: "nt_search req nt = None"
  shows "nt_inv (nt_update p (\<lambda>n. n\<lparr>node_attaching_vnode := True\<rparr>) (nt_insert req p nt),
    pcs(t := NCreate p req (Some p)))" (is "nt_inv (_, ?pcs)")
proof -
  define NT where "NT = nt_update p (\<lambda>n. n\<lparr>node_attaching_vnode := True\<rparr>) (nt_insert req p nt)"
  from inv have h: "hash_inv nt" and ti: "thread_inv nt pcs" and v: "vnode_inv nt pcs"
    by (auto simp: nt_inv_parts)
  let ?b = "bucket_of (fr_mount req) (fr_id req)"
  define n where "n = \<lparr>node_vnode = None, node_attaching_vnode = True, node_thread_waiting_attach = False,
    node_mnt_id = fr_mount req, node_id = fr_id req, node_structure_node = fr_snode req\<rparr>"
  have nd: "nt_nodes NT q = (if q = p then Some n else nt_nodes nt q)" for q
    by (simp add: NT_def nt_update_def nt_insert_def Let_def n_def)
  have hs: "nt_hash NT b = (if b = ?b then p # nt_hash nt b else nt_hash nt b)" for b
    by (simp add: NT_def nt_update_def nt_insert_def Let_def)
  have eq: "nt_vnodes NT = nt_vnodes nt" "nt_vseq NT = nt_vseq nt"
    by (simp_all add: NT_def nt_update_def nt_insert_def Let_def)
  have own: "owned (pcs t) = Some p" using pc by simp
  then have p: "\<not> inhash nt p" using thread_invD(2) [OF ti] by blast
  then have pb: "p \<notin> set (nt_hash nt b)" for b by (auto simp: inhash_def)
  have ih: "inhash NT q \<longleftrightarrow> q = p \<or> inhash nt q" for q by (simp add: NT_def inhash_insert)
  have old: "nt_nodes NT q = nt_nodes nt q" if "inhash nt q" for q using that p by (auto simp: nd)
  have kn: "key n = rkey req" by (simp add: n_def key_def rkey_def)
  have fresh: "key m \<noteq> rkey req" if "inhash nt q" "nt_nodes nt q = Some m" for q m
    using nt_search_None [OF h none that] .
  have "hash_inv NT"
  proof (rule hash_invI)
    show "\<exists>m. nt_nodes NT q = Some m \<and> bucket_of (node_mnt_id m) (node_id m) = b"
      if "q \<in> set (nt_hash NT b)" for b q
    proof (cases "q = p")
      case True
      with that pb have "b = ?b" by (auto simp: hs split: if_splits)
      with True show ?thesis by (simp add: nd n_def)
    next
      case False
      with that have "q \<in> set (nt_hash nt b)" by (auto simp: hs split: if_splits)
      with False hash_invD(1) [OF h this] show ?thesis by (simp add: nd)
    qed
    show "distinct (nt_hash NT b)" for b using hash_invD(2) [OF h] pb by (simp add: hs)
    show "q = r" if "inhash NT q" "inhash NT r" "nt_nodes NT q = Some m" "nt_nodes NT r = Some m'"
      "key m = key m'" for q r m m'
      using that fresh [of q m] fresh [of r m'] hash_invD(3) [OF h, of q r m m'] kn
      by (auto simp: ih nd split: if_splits)
  qed
  moreover have "thread_inv NT ?pcs"
  proof (rule thread_invI)
    note D = thread_invD [OF ti]
    show "pc_wf (?pcs u)" for u using D(1) by simp
    show "nt_nodes NT q \<noteq> None \<and> \<not> inhash NT q" if "owned (?pcs u) = Some q" for u q
    proof -
      from that have u: "u \<noteq> t" "owned (pcs u) = Some q" by (auto split: if_splits)
      then have "q \<noteq> p" using D(3) [OF u(2), of t] own by auto
      with D(2) [OF u(2)] show ?thesis by (simp add: nd ih)
    qed
    show "u = w" if "owned (?pcs u) = Some q" "owned (?pcs w) = Some q" for u w q
      using D(3) [of u q w] that by (auto split: if_splits)
    show "inhash NT q \<and> (\<exists>n. nt_nodes NT q = Some n \<and> node_attaching_vnode n \<and> node_vnode n = None)"
      if "creating (?pcs u) = Some q" for u q
    proof (cases "u = t")
      case True
      with that show ?thesis by (simp add: nd ih n_def)
    next
      case False
      with that D(4) [of u q] old [of q] show ?thesis by (simp add: ih)
    qed
    show "u = w" if "creating (?pcs u) = Some q" "creating (?pcs w) = Some q" for u w q
      using D(5) [of u q w] D(4) [of u q] D(4) [of w q] p that by (auto split: if_splits)
    show "\<exists>u. creating (?pcs u) = Some q" if "inhash NT q" "nt_nodes NT q = Some m" "node_attaching_vnode m" for q m
    proof (cases "q = p")
      case True
      then show ?thesis by (intro exI [of _ t]) simp
    next
      case False
      with that obtain u where "creating (pcs u) = Some q" using D(6) [of q m] by (auto simp: ih nd)
      then show ?thesis using pc by (intro exI [of _ u]) auto
    qed
    show "inhash NT q \<and> (\<exists>n. nt_nodes NT q = Some n \<and> node_attaching_vnode n \<and> node_thread_waiting_attach n)"
      if "?pcs u = NSleep q r w" for u q r w
      using that D(7) [of u q r w] old [of q] by (auto simp: ih split: if_splits)
    show "\<exists>m. nt_nodes NT q = Some m \<and> key m = rkey r" if "target (?pcs u) = Some (q, r)" for u q r
    proof (cases "u = t")
      case True
      with that kn show ?thesis by (simp add: nd)
    next
      case False
      with that have "target (pcs u) = Some (q, r)" by simp
      then show ?thesis using D(8) target_inhash [OF ti v] old by simp
    qed
  qed
  moreover have "vnode_inv NT ?pcs"
  proof (rule vnode_invI)
    note D = vnode_invD [OF v]
    show "\<exists>v vn. node_vnode m = Some v \<and> nt_vnodes NT v = Some vn \<and> v_fsnode vn = q"
      if "inhash NT q" "nt_nodes NT q = Some m" "\<not> node_attaching_vnode m" for q m
      using D(1) [of q m] that by (auto simp: ih nd eq n_def split: if_splits)
    show "x < nt_vseq NT \<and> inhash NT (v_fsnode vn) \<and>
        ((\<exists>n. nt_nodes NT (v_fsnode vn) = Some n \<and> \<not> node_attaching_vnode n \<and> node_vnode n = Some x) \<or>
         (\<exists>u r w. ?pcs u = NAttach (v_fsnode vn) (Inr x) r w))"
      if "nt_vnodes NT x = Some vn" for x vn
    proof -
      from that have "nt_vnodes nt x = Some vn" by (simp add: eq)
      note d = D(2) [OF this]
      have "\<exists>u r w. ?pcs u = NAttach (v_fsnode vn) (Inr x) r w"
        if "pcs u = NAttach (v_fsnode vn) (Inr x) r w" for u r w
        using that pc by (intro exI [of _ u]) auto
      with d old [of "v_fsnode vn"] show ?thesis unfolding ih eq by metis
    qed
    show "\<exists>vn. nt_vnodes NT x = Some vn \<and> \<not> v_dying vn \<and> v_fsnode vn = q"
      if "vheld (?pcs u) = Some (q, x)" for u q x using D(3) [of u q x] that by (auto simp: eq split: if_splits)
    show "x < nt_vseq NT" if "?pcs u = NGetVid q x r w" for u q x r w
      using D(4) [of u q x r w] that by (auto simp: eq split: if_splits)
    show "v_fsnode vn = q \<and> (\<exists>n. nt_nodes NT q = Some n \<and> key n = rkey r)"
      if "?pcs u = NGetVid q x r w" "nt_vnodes NT x = Some vn" for u q x r w vn
    proof -
      from that have u: "pcs u = NGetVid q x r w" "nt_vnodes nt x = Some vn" by (auto simp: eq split: if_splits)
      from D(5) [OF u] D(2) [OF u(2)] old [of q] show ?thesis by auto
    qed
  qed
  ultimately show ?thesis by (simp add: nt_inv_parts NT_def)
qed


lemma hash_inv_cong: "nt_nodes nt' = nt_nodes nt \<Longrightarrow> nt_hash nt' = nt_hash nt \<Longrightarrow> hash_inv nt' = hash_inv nt"
  by (simp add: hash_inv_def inhash_def)

lemma thread_inv_cong:
  "nt_nodes nt' = nt_nodes nt \<Longrightarrow> nt_hash nt' = nt_hash nt \<Longrightarrow> thread_inv nt' pcs = thread_inv nt pcs"
  by (simp add: thread_inv_def inhash_def)

lemma vheld_target: "vheld pc = Some (p, v) \<Longrightarrow> \<exists>req. target pc = Some (p, req)"
  by (induction pc rule: vheld.induct) auto

lemma nt_inv_create:
  assumes inv: "nt_inv (nt, pcs)" and pc: "pcs t = NCreate p req new" and v: "nt_new_vnode p nt = (v, nt')"
  shows "nt_inv (nt', pcs(t := NAttach p (Inr v) req new))" (is "nt_inv (_, ?pcs)")
proof -
  from inv have h: "hash_inv nt" and ti: "thread_inv nt pcs" and vi: "vnode_inv nt pcs"
    by (auto simp: nt_inv_parts)
  from v have eq: "nt_nodes nt' = nt_nodes nt" "nt_hash nt' = nt_hash nt" "nt_vseq nt' = Suc v" "v = nt_vseq nt"
    and vn: "nt_vnodes nt' = (nt_vnodes nt)(v := Some \<lparr>v_fsnode = p, v_dying = False\<rparr>)"
    by (auto simp: nt_new_vnode_def)
  have ih: "inhash nt' = inhash nt" by (rule ext) (simp add: inhash_def eq)
  have wf: "new = Some p" using thread_invD(1) [OF ti, of t] pc by simp
  have hp: "inhash nt p" using thread_invD(4) [OF ti, of t p] pc by simp
  have "thread_inv nt ?pcs"
    using thread_invD(8) [OF ti, of t] pc wf by (intro thread_inv_move [OF ti]) auto
  moreover have "vnode_inv nt' ?pcs"
  proof (rule vnode_invI)
    note D = vnode_invD [OF vi]
    have lt: "x \<noteq> v" if "nt_vnodes nt x = Some w" for x w using D(2) [OF that] eq(4) by simp
    show "\<exists>x vn. node_vnode m = Some x \<and> nt_vnodes nt' x = Some vn \<and> v_fsnode vn = q"
      if "inhash nt' q" "nt_nodes nt' q = Some m" "\<not> node_attaching_vnode m" for q m
      using D(1) [of q m] that lt unfolding ih eq vn by fastforce
    show "x < nt_vseq nt' \<and> inhash nt' (v_fsnode w) \<and>
        ((\<exists>n. nt_nodes nt' (v_fsnode w) = Some n \<and> \<not> node_attaching_vnode n \<and> node_vnode n = Some x) \<or>
         (\<exists>u r k. ?pcs u = NAttach (v_fsnode w) (Inr x) r k))"
      if "nt_vnodes nt' x = Some w" for x w
    proof (cases "x = v")
      case True
      with that have "w = \<lparr>v_fsnode = p, v_dying = False\<rparr>" by (simp add: vn)
      with True show ?thesis using hp by (auto simp: ih eq intro: exI [of _ t])
    next
      case False
      with that have old: "nt_vnodes nt x = Some w" by (simp add: vn)
      have "\<exists>u r k. ?pcs u = NAttach (v_fsnode w) (Inr x) r k"
        if "pcs u = NAttach (v_fsnode w) (Inr x) r k" for u r k
        using that pc by (intro exI [of _ u]) auto
      with D(2) [OF old] show ?thesis unfolding ih eq by (metis less_SucI)
    qed
    show "\<exists>vn. nt_vnodes nt' x = Some vn \<and> \<not> v_dying vn \<and> v_fsnode vn = q"
      if "vheld (?pcs u) = Some (q, x)" for u q x
    proof (cases "u = t")
      case True
      with that show ?thesis by (simp add: vn)
    next
      case False
      with that D(3) [of u q x] lt show ?thesis by (fastforce simp: vn)
    qed
    show "x < nt_vseq nt'" if "?pcs u = NGetVid q x r k" for u q x r k
      using D(4) [of u q x r k] that eq(4) by (auto simp: eq(3) split: if_splits)
    show "v_fsnode w = q \<and> (\<exists>n. nt_nodes nt' q = Some n \<and> key n = rkey r)"
      if "?pcs u = NGetVid q x r k" "nt_vnodes nt' x = Some w" for u q x r k w
    proof -
      from that(1) have u: "pcs u = NGetVid q x r k" by (auto split: if_splits)
      from D(4) [OF u] eq(4) have "x \<noteq> v" by simp
      with D(5) [OF u, of w] that(2) show ?thesis by (simp add: vn eq)
    qed
  qed
  ultimately show ?thesis using h by (simp add: nt_inv_parts hash_inv_cong [OF eq(1,2)] thread_inv_cong [OF eq(1,2)])
qed

text \<open>A wakeup moves every thread sleeping on the node back to the top of its loop.\<close>

lemma wake_simps:
  "owned (wake p pcs t) = owned (pcs t)" "creating (wake p pcs t) = creating (pcs t)"
  "target (wake p pcs t) = target (pcs t)" "vheld (wake p pcs t) = vheld (pcs t)"
  "pc_wf (wake p pcs t) = pc_wf (pcs t)"
  "wake p pcs t = NAttach q r req new \<longleftrightarrow> pcs t = NAttach q r req new"
  "wake p pcs t = NGetVid q v req new \<longleftrightarrow> pcs t = NGetVid q v req new"
  "wake p pcs t = NSleep q req new \<longleftrightarrow> pcs t = NSleep q req new \<and> q \<noteq> p"
  by (cases "pcs t"; auto simp: wake_def)+

lemma nt_inv_wake:
  assumes "nt_inv (nt, pcs)"
  shows "nt_inv (nt, wake p pcs)"
  using assms unfolding nt_inv_parts thread_inv_def vnode_inv_def wake_simps
  by (elim conjE, intro conjI; (assumption | blast))

lemma wake_idle:
  assumes "nt_inv (nt, pcs)" "\<not> waiting p nt"
  shows "wake p pcs = pcs"
proof
  fix t
  have "thread_inv nt pcs" using assms(1) by (simp add: nt_inv_parts)
  from thread_invD(7) [OF this] assms(2) have "pcs t \<noteq> NSleep p req new" for req new
    by (fastforce simp: waiting_def)
  then show "wake p pcs t = pcs t" by (cases "pcs t") (auto simp: wake_def)
qed

lemma nt_inv_attach:
  assumes inv: "nt_inv (nt, pcs)" and pc: "pcs t = NAttach p (Inr v) req new"
    and quiet: "\<And>u r w. pcs u \<noteq> NSleep p r w"
  shows "nt_inv (nt_attached p (Inr v) nt, pcs(t := NRet req (Inr (p, v))))" (is "nt_inv (_, ?pcs)")
proof -
  define NT where "NT = nt_attached p (Inr v) nt"
  from inv have h: "hash_inv nt" and ti: "thread_inv nt pcs" and vi: "vnode_inv nt pcs"
    by (auto simp: nt_inv_parts)
  note T = thread_invD [OF ti] and V = vnode_invD [OF vi]
  have cr: "creating (pcs t) = Some p" using pc by simp
  obtain n where n: "inhash nt p" "nt_nodes nt p = Some n" "node_attaching_vnode n" "node_vnode n = None"
    using T(4) [OF cr] by blast
  define n' where "n' = n\<lparr>node_attaching_vnode := False, node_thread_waiting_attach := False, node_vnode := Some v\<rparr>"
  have nd: "nt_nodes NT q = (if q = p then Some n' else nt_nodes nt q)" for q
    by (simp add: NT_def nt_attached_def nt_update_def n n'_def Let_def)
  have eq: "nt_hash NT = nt_hash nt" "nt_vnodes NT = nt_vnodes nt" "nt_vseq NT = nt_vseq nt"
    by (simp_all add: NT_def nt_attached_def nt_update_def Let_def)
  have ih: "inhash NT = inhash nt" by (rule ext) (simp add: inhash_def eq)
  have kn: "key n' = key n" "\<not> node_attaching_vnode n'" "node_vnode n' = Some v"
    by (simp_all add: n'_def key_def)
  have other: "creating (pcs u) \<noteq> Some p" if "u \<noteq> t" for u using T(5) cr that by blast
  have "vheld (pcs t) = Some (p, v)" using pc by simp
  then obtain w where w: "nt_vnodes nt v = Some w" "\<not> v_dying w" "v_fsnode w = p" using V(3) by blast
  have bwd: "\<exists>m'. nt_nodes nt q = Some m' \<and> key m' = key m" if "nt_nodes NT q = Some m" for q m
    using that n kn by (auto simp: nd split: if_splits)
  have fwd: "\<exists>m'. nt_nodes NT q = Some m' \<and> key m' = key m" if "nt_nodes nt q = Some m" for q m
    using that n kn by (auto simp: nd)
  have "hash_inv NT"
  proof (rule hash_invI)
    show "\<exists>n. nt_nodes NT q = Some n \<and> bucket_of (node_mnt_id n) (node_id n) = b" if "q \<in> set (nt_hash NT b)" for b q
      using hash_invD(1) [OF h, of q b] that fwd [of q] by (auto simp: eq key_def)
    show "distinct (nt_hash NT b)" for b using hash_invD(2) [OF h] by (simp add: eq)
    show "q = r" if "inhash NT q" "inhash NT r" "nt_nodes NT q = Some m" "nt_nodes NT r = Some m'" "key m = key m'"
      for q r m m' using hash_invD(3) [OF h, of q r] bwd [OF that(3)] bwd [OF that(4)] that(1,2,5) unfolding ih by auto
  qed
  moreover have "thread_inv NT ?pcs"
  proof (rule thread_invI)
    show "pc_wf (?pcs u)" for u using T(1) by simp
    show "nt_nodes NT q \<noteq> None \<and> \<not> inhash NT q" if "owned (?pcs u) = Some q" for u q
      using T(2) [of u q] that by (auto simp: nd ih split: if_splits)
    show "a = b" if "owned (?pcs a) = Some q" "owned (?pcs b) = Some q" for a b q
      using T(3) [of a q b] that by (auto split: if_splits)
    show "inhash NT q \<and> (\<exists>n. nt_nodes NT q = Some n \<and> node_attaching_vnode n \<and> node_vnode n = None)"
      if "creating (?pcs u) = Some q" for u q
      using T(4) [of u q] that other [of u] by (auto simp: nd ih split: if_splits)
    show "a = b" if "creating (?pcs a) = Some q" "creating (?pcs b) = Some q" for a b q
      using T(5) [of a q b] that by (auto split: if_splits)
    show "\<exists>u. creating (?pcs u) = Some q" if "inhash NT q" "nt_nodes NT q = Some m" "node_attaching_vnode m" for q m
    proof -
      from that kn(2) have "q \<noteq> p" "nt_nodes nt q = Some m" by (auto simp: nd split: if_splits)
      with T(6) [of q m] that obtain u where "creating (pcs u) = Some q" by (auto simp: ih)
      then show ?thesis using \<open>q \<noteq> p\<close> cr by (intro exI [of _ u]) auto
    qed
    show "inhash NT q \<and> (\<exists>n. nt_nodes NT q = Some n \<and> node_attaching_vnode n \<and> node_thread_waiting_attach n)"
      if "?pcs u = NSleep q r k" for u q r k
      using T(7) [of u q r k] quiet [of u r k] that by (auto simp: nd ih split: if_splits)
    show "\<exists>m. nt_nodes NT q = Some m \<and> key m = rkey r" if "target (?pcs u) = Some (q, r)" for u q r
      using T(8) [of u q r] T(8) [of t p req] that fwd [of q] pc by (fastforce split: if_splits)
  qed
  moreover have "vnode_inv NT ?pcs"
  proof (rule vnode_invI)
    show "\<exists>x vn. node_vnode m = Some x \<and> nt_vnodes NT x = Some vn \<and> v_fsnode vn = q"
      if "inhash NT q" "nt_nodes NT q = Some m" "\<not> node_attaching_vnode m" for q m
      using V(1) [of q m] that w kn by (auto simp: nd ih eq split: if_splits)
    show "x < nt_vseq NT \<and> inhash NT (v_fsnode y) \<and>
        ((\<exists>n. nt_nodes NT (v_fsnode y) = Some n \<and> \<not> node_attaching_vnode n \<and> node_vnode n = Some x) \<or>
         (\<exists>u r k. ?pcs u = NAttach (v_fsnode y) (Inr x) r k))"
      if "nt_vnodes NT x = Some y" for x y
    proof (cases "v_fsnode y = p")
      case True
      from that have y: "nt_vnodes nt x = Some y" by (simp add: eq)
      have "x = v" using V(2) [OF y] True n other pc by (metis creating.simps(2) nt_pc.inject(6) option.inject sum.inject(2))
      with V(2) [OF y] True kn show ?thesis by (simp add: nd ih eq)
    next
      case False
      from that have y: "nt_vnodes nt x = Some y" by (simp add: eq)
      have "\<exists>u r k. ?pcs u = NAttach (v_fsnode y) (Inr x) r k" if "pcs u = NAttach (v_fsnode y) (Inr x) r k" for u r k
        using that pc False by (intro exI [of _ u]) auto
      with V(2) [OF y] False show ?thesis unfolding ih eq nd by metis
    qed
    show "\<exists>vn. nt_vnodes NT x = Some vn \<and> \<not> v_dying vn \<and> v_fsnode vn = q" if "vheld (?pcs u) = Some (q, x)" for u q x
      using V(3) [of u q x] that w by (auto simp: eq split: if_splits)
    show "x < nt_vseq NT" if "?pcs u = NGetVid q x r k" for u q x r k
      using V(4) [of u q x r k] that by (auto simp: eq split: if_splits)
    show "v_fsnode y = q \<and> (\<exists>n. nt_nodes NT q = Some n \<and> key n = rkey r)"
      if "?pcs u = NGetVid q x r k" "nt_vnodes NT x = Some y" for u q x r k y
      using V(5) [of u q x r k y] that fwd [of q] by (fastforce simp: eq split: if_splits)
  qed
  ultimately show ?thesis by (simp add: nt_inv_parts NT_def)
qed

text \<open>
  A node leaves the table together with its vnode, if it has one, when no thread works on it any
  more. \<open>drop_vnode\<close> is the table of vnodes without those of the node.
\<close>

definition drop_vnode :: "nptr \<Rightarrow> node_table \<Rightarrow> node_table" where
  "drop_vnode p nt = nt\<lparr>nt_vnodes := (\<lambda>v. case nt_vnodes nt v of None \<Rightarrow> None
     | Some vn \<Rightarrow> if v_fsnode vn = p then None else Some vn)\<rparr>"

lemma removed_simps:
  assumes "hash_inv nt" "nt' = drop_vnode p (procfsnode_free_node p nt)"
  shows "nt_nodes nt' = (nt_nodes nt)(p := None)" "inhash nt' q \<longleftrightarrow> inhash nt q \<and> q \<noteq> p"
    "nt_vnodes nt' v = Some vn \<longleftrightarrow> nt_vnodes nt v = Some vn \<and> v_fsnode vn \<noteq> p"
    "nt_vseq nt' = nt_vseq nt" "nt_hash nt' b = remove1 p (nt_hash nt b)"
proof -
  show "inhash nt' q \<longleftrightarrow> inhash nt q \<and> q \<noteq> p"
    using hash_invD(2) [OF assms(1)]
    by (auto simp: assms(2) inhash_def drop_vnode_def procfsnode_free_node_def)
qed (auto simp: assms(2) drop_vnode_def procfsnode_free_node_def split: option.splits)

lemma hash_inv_remove:
  assumes h: "hash_inv nt" and nt': "nt' = drop_vnode p (procfsnode_free_node p nt)"
  shows "hash_inv nt'"
proof (rule hash_invI)
  note R = removed_simps [OF h nt']
  show "\<exists>n. nt_nodes nt' q = Some n \<and> bucket_of (node_mnt_id n) (node_id n) = b" if "q \<in> set (nt_hash nt' b)" for b q
    using hash_invD(1) [OF h, of q b] hash_invD(2) [OF h, of b] that by (auto simp: R)
  show "distinct (nt_hash nt' b)" for b using hash_invD(2) [OF h, of b] by (simp add: R)
  show "q = r" if "inhash nt' q" "inhash nt' r" "nt_nodes nt' q = Some m" "nt_nodes nt' r = Some m'" "key m = key m'"
    for q r m m' using hash_invD(3) [OF h, of q r m m'] that by (auto simp: R split: if_splits)
qed

text \<open>
  \<open>leaves\<close> relates the positions before and after: at most the thread that gives the node up
  moves, to an error return, and nobody works on the node afterwards.
\<close>

definition leaves :: "nptr \<Rightarrow> (nat \<Rightarrow> nt_pc) \<Rightarrow> (nat \<Rightarrow> nt_pc) \<Rightarrow> bool" where
  "leaves p pcs pcs' \<longleftrightarrow>
     (\<forall>u. pcs' u = pcs u \<or> creating (pcs u) = Some p \<and> (\<exists>r e. pcs' u = NRet r (Inl e))) \<and>
     (\<forall>u. creating (pcs' u) \<noteq> Some p \<and> (\<forall>r. target (pcs' u) \<noteq> Some (p, r)) \<and>
        (\<forall>r w. pcs' u \<noteq> NSleep p r w))"

lemma leavesD:
  assumes "leaves p pcs pcs'"
  shows "owned (pcs' u) = Some q \<Longrightarrow> owned (pcs u) = Some q"
    and "creating (pcs' u) = Some q \<Longrightarrow> creating (pcs u) = Some q \<and> q \<noteq> p"
    and "creating (pcs u) = Some q \<Longrightarrow> q \<noteq> p \<Longrightarrow> pcs' u = pcs u"
    and "target (pcs' u) = Some (q, r) \<Longrightarrow> target (pcs u) = Some (q, r) \<and> q \<noteq> p"
    and "vheld (pcs' u) = Some (q, x) \<Longrightarrow> vheld (pcs u) = Some (q, x) \<and> q \<noteq> p"
    and "pcs' u = NSleep q r w \<Longrightarrow> pcs u = NSleep q r w \<and> q \<noteq> p"
    and "pcs' u = NGetVid q x r w \<Longrightarrow> pcs u = NGetVid q x r w"
    and "pc_wf (pcs u) \<Longrightarrow> pc_wf (pcs' u)"
proof -
  consider (same) "pcs' u = pcs u" | (out) r e where "creating (pcs u) = Some p" "pcs' u = NRet r (Inl e)"
    using assms unfolding leaves_def by metis
  note c = this
  have no: "creating (pcs' u) \<noteq> Some p" "target (pcs' u) \<noteq> Some (p, r)" "pcs' u \<noteq> NSleep p r w" for r w
    using assms unfolding leaves_def by blast+
  show "owned (pcs' u) = Some q \<Longrightarrow> owned (pcs u) = Some q"
    "creating (pcs' u) = Some q \<Longrightarrow> creating (pcs u) = Some q \<and> q \<noteq> p"
    "creating (pcs u) = Some q \<Longrightarrow> q \<noteq> p \<Longrightarrow> pcs' u = pcs u"
    "pcs' u = NGetVid q x r w \<Longrightarrow> pcs u = NGetVid q x r w" "pc_wf (pcs u) \<Longrightarrow> pc_wf (pcs' u)"
    using c no(1) by (cases; auto)+
  show "target (pcs' u) = Some (q, r) \<Longrightarrow> target (pcs u) = Some (q, r) \<and> q \<noteq> p"
    "pcs' u = NSleep q r w \<Longrightarrow> pcs u = NSleep q r w \<and> q \<noteq> p"
    using c no(2,3) by (cases; auto)+
  show "vheld (pcs u) = Some (q, x) \<and> q \<noteq> p" if "vheld (pcs' u) = Some (q, x)"
    using c that no(2) vheld_target [OF that] by cases auto
qed

lemma nt_inv_remove:
  assumes inv: "nt_inv (nt, pcs)" and nt': "nt' = drop_vnode p (procfsnode_free_node p nt)"
    and p: "inhash nt p" and lv: "leaves p pcs pcs'"
  shows "nt_inv (nt', pcs')"
proof -
  from inv have h: "hash_inv nt" and ti: "thread_inv nt pcs" and vi: "vnode_inv nt pcs"
    by (auto simp: nt_inv_parts)
  note T = thread_invD [OF ti] and V = vnode_invD [OF vi] and R = removed_simps [OF h nt'] and L = leavesD [OF lv]
  have at: "pcs' u = pcs u" if "pcs u = NAttach q r k w" "q \<noteq> p" for u q r k w
    using L(3) [of u q] that by simp
  have "thread_inv nt' pcs'"
  proof (rule thread_invI)
    show "pc_wf (pcs' u)" for u using T(1) L(8) by blast
    show "nt_nodes nt' q \<noteq> None \<and> \<not> inhash nt' q" if "owned (pcs' u) = Some q" for u q
      using T(2) [OF L(1) [OF that]] p by (auto simp: R)
    show "a = b" if "owned (pcs' a) = Some q" "owned (pcs' b) = Some q" for a b q
      using T(3) [OF L(1) L(1)] that by blast
    show "inhash nt' q \<and> (\<exists>n. nt_nodes nt' q = Some n \<and> node_attaching_vnode n \<and> node_vnode n = None)"
      if "creating (pcs' u) = Some q" for u q using T(4) [of u q] L(2) [OF that] by (simp add: R)
    show "a = b" if "creating (pcs' a) = Some q" "creating (pcs' b) = Some q" for a b q
      using T(5) L(2) [OF that(1)] L(2) [OF that(2)] by blast
    show "\<exists>u. creating (pcs' u) = Some q" if "inhash nt' q" "nt_nodes nt' q = Some m" "node_attaching_vnode m" for q m
    proof -
      from that have q: "inhash nt q" "q \<noteq> p" "nt_nodes nt q = Some m" by (auto simp: R)
      then obtain u where u: "creating (pcs u) = Some q" using T(6) [OF q(1,3) \<open>node_attaching_vnode m\<close>] by blast
      with L(3) [OF u q(2)] show ?thesis by (intro exI [of _ u]) simp
    qed
    show "inhash nt' q \<and> (\<exists>n. nt_nodes nt' q = Some n \<and> node_attaching_vnode n \<and> node_thread_waiting_attach n)"
      if "pcs' u = NSleep q r k" for u q r k using T(7) [of u q r k] L(6) [OF that] by (simp add: R)
    show "\<exists>m. nt_nodes nt' q = Some m \<and> key m = rkey r" if "target (pcs' u) = Some (q, r)" for u q r
      using T(8) [of u q r] L(4) [OF that] by (simp add: R)
  qed
  moreover have "vnode_inv nt' pcs'"
  proof (rule vnode_invI)
    show "\<exists>x vn. node_vnode m = Some x \<and> nt_vnodes nt' x = Some vn \<and> v_fsnode vn = q"
      if "inhash nt' q" "nt_nodes nt' q = Some m" "\<not> node_attaching_vnode m" for q m
      using V(1) [of q m] that by (fastforce simp: R)
    show "x < nt_vseq nt' \<and> inhash nt' (v_fsnode y) \<and>
        ((\<exists>n. nt_nodes nt' (v_fsnode y) = Some n \<and> \<not> node_attaching_vnode n \<and> node_vnode n = Some x) \<or>
         (\<exists>u r k. pcs' u = NAttach (v_fsnode y) (Inr x) r k))"
      if "nt_vnodes nt' x = Some y" for x y
      using V(2) [of x y] that at unfolding R by (metis fun_upd_other)
    show "\<exists>vn. nt_vnodes nt' x = Some vn \<and> \<not> v_dying vn \<and> v_fsnode vn = q" if "vheld (pcs' u) = Some (q, x)" for u q x
      using V(3) [of u q x] L(5) [OF that] unfolding R by blast
    show "x < nt_vseq nt'" if "pcs' u = NGetVid q x r k" for u q x r k
      using V(4) [OF L(7) [OF that]] by (simp add: R)
    show "v_fsnode y = q \<and> (\<exists>n. nt_nodes nt' q = Some n \<and> key n = rkey r)"
      if "pcs' u = NGetVid q x r k" "nt_vnodes nt' x = Some y" for u q x r k y
      using V(5) [OF L(7) [OF that(1)], of y] that(2) by (auto simp: R)
  qed
  ultimately show ?thesis using hash_inv_remove [OF h nt'] by (simp add: nt_inv_parts)
qed

lemma attached_unique:
  assumes inv: "nt_inv (nt, pcs)" and n: "nt_nodes nt p = Some n" "\<not> node_attaching_vnode n" "node_vnode n = Some v"
    and x: "nt_vnodes nt x = Some w" "v_fsnode w = p"
  shows "x = v"
proof -
  from inv have ti: "thread_inv nt pcs" and vi: "vnode_inv nt pcs" by (auto simp: nt_inv_parts)
  have "pcs u \<noteq> NAttach p (Inr x) r k" for u r k
    using thread_invD(4) [OF ti, of u p] n by auto
  with vnode_invD(2) [OF vi x(1)] x(2) n show ?thesis by auto
qed

lemma nt_inv_attach_fail:
  assumes inv: "nt_inv (nt, pcs)" and pc: "pcs t = NAttach p (Inl e) req new"
    and quiet: "\<And>u r w. pcs u \<noteq> NSleep p r w"
  shows "nt_inv (nt_attached p (Inl e) nt, pcs(t := NRet req (Inl e)))" (is "nt_inv (_, ?pcs)")
proof (rule nt_inv_remove [OF inv])
  from inv have ti: "thread_inv nt pcs" and vi: "vnode_inv nt pcs" by (auto simp: nt_inv_parts)
  note T = thread_invD [OF ti] and V = vnode_invD [OF vi]
  have cr: "creating (pcs t) = Some p" using pc by simp
  have other: "creating (pcs u) \<noteq> Some p" if "u \<noteq> t" for u using T(5) cr that by blast
  show "inhash nt p" using T(4) [OF cr] by blast
  have novn: "v_fsnode w \<noteq> p" if w: "nt_vnodes nt x = Some w" for x w
  proof
    assume "v_fsnode w = p"
    with V(2) [OF w] T(4) [OF cr] obtain u r k where "pcs u = NAttach p (Inr x) r k" by auto
    with other [of u] pc show False by (cases "u = t") auto
  qed
  then have "drop_vnode p nt' = nt'" if "nt_vnodes nt' = nt_vnodes nt" for nt'
    using that by (auto simp: drop_vnode_def fun_eq_iff split: option.splits intro!: node_table.equality)
  then show "nt_attached p (Inl e) nt = drop_vnode p (procfsnode_free_node p nt)"
    by (simp add: nt_attached_def procfsnode_free_node_def nt_update_def Let_def)
  have "target (pcs u) \<noteq> Some (p, r)" if "u \<noteq> t" for u r
  proof
    assume "target (pcs u) = Some (p, r)"
    with other [OF that] obtain v where "pcs u = NRet r (Inr (p, v))"
      by (cases "pcs u") (auto elim!: target.elims)
    then have "vheld (pcs u) = Some (p, v)" by simp
    from V(3) [OF this] novn show False by blast
  qed
  then show "leaves p pcs ?pcs" using other cr quiet by (auto simp: leaves_def)
qed

lemma nt_inv_reclaim:
  assumes inv: "nt_inv (nt, pcs)" and v: "nt_vnodes nt v = Some vn" "v_dying vn"
  shows "nt_inv (procfs_vnop_reclaim v nt, pcs)"
proof (rule nt_inv_remove [OF inv])
  from inv have ti: "thread_inv nt pcs" and vi: "vnode_inv nt pcs" by (auto simp: nt_inv_parts)
  note T = thread_invD [OF ti] and V = vnode_invD [OF vi]
  let ?p = "v_fsnode vn"
  have held: "vheld (pcs u) \<noteq> Some (q, v)" for u q using V(3) [of u q v] v by auto
  then have "pcs u \<noteq> NAttach ?p (Inr v) r k" for u r k by (metis vheld.simps(1))
  with V(2) [OF v(1)] obtain n where
    n: "inhash nt ?p" "nt_nodes nt ?p = Some n" "\<not> node_attaching_vnode n" "node_vnode n = Some v" by blast
  show "inhash nt ?p" by (fact n)
  have only: "x = v" if "nt_vnodes nt x = Some w" "v_fsnode w = ?p" for x w
    using attached_unique [OF inv n(2-4) that] .
  have "(\<lambda>x. case nt_vnodes nt x of None \<Rightarrow> None | Some w \<Rightarrow> if v_fsnode w = ?p then None else Some w) =
      (nt_vnodes nt)(v := None)" (is "?f = ?g")
  proof
    fix x
    show "?f x = ?g x"
    proof (cases "x = v")
      case True
      with v(1) show ?thesis by simp
    next
      case False
      with only [of x] show ?thesis by (cases "nt_vnodes nt x") auto
    qed
  qed
  then show "procfs_vnop_reclaim v nt = drop_vnode ?p (procfsnode_free_node ?p nt)"
    unfolding procfs_vnop_reclaim_def v(1) drop_vnode_def procfsnode_free_node_def by simp
  have nocr: "creating (pcs u) \<noteq> Some ?p" for u using T(4) [of u ?p] n by auto
  moreover have "target (pcs u) \<noteq> Some (?p, r)" for u r
  proof
    assume "target (pcs u) = Some (?p, r)"
    with nocr [of u] obtain x where "pcs u = NRet r (Inr (?p, x))"
      by (cases "pcs u") (auto elim!: target.elims)
    then have x: "vheld (pcs u) = Some (?p, x)" by simp
    from V(3) [OF this] only have "x = v" by blast
    with x held show False by blast
  qed
  moreover have "pcs u \<noteq> NSleep ?p r w" for u r w using T(7) [of u ?p r w] n by auto
  ultimately show "leaves ?p pcs pcs" by (simp add: leaves_def)
qed

lemma nt_inv_dying:
  assumes inv: "nt_inv (nt, pcs)" and v: "nt_vnodes nt v = Some vn" and free: "\<And>t p. vheld (pcs t) \<noteq> Some (p, v)"
  shows "nt_inv (nt\<lparr>nt_vnodes := (nt_vnodes nt)(v := Some (vn\<lparr>v_dying := True\<rparr>))\<rparr>, pcs)" (is "nt_inv (?nt, _)")
proof -
  from inv have h: "hash_inv nt" and ti: "thread_inv nt pcs" and vi: "vnode_inv nt pcs" by (auto simp: nt_inv_parts)
  note V = vnode_invD [OF vi]
  have ih: "inhash ?nt = inhash nt" by (rule ext) (simp add: inhash_def)
  have bwd: "\<exists>y. nt_vnodes nt x = Some y \<and> v_fsnode y = v_fsnode w" if "nt_vnodes ?nt x = Some w" for x w
    using that v by (auto split: if_splits)
  have "vnode_inv ?nt pcs"
  proof (rule vnode_invI)
    show "\<exists>x w. node_vnode m = Some x \<and> nt_vnodes ?nt x = Some w \<and> v_fsnode w = q"
      if "inhash ?nt q" "nt_nodes ?nt q = Some m" "\<not> node_attaching_vnode m" for q m
      using V(1) [of q m] that v unfolding ih by auto
    show "x < nt_vseq ?nt \<and> inhash ?nt (v_fsnode w) \<and>
        ((\<exists>n. nt_nodes ?nt (v_fsnode w) = Some n \<and> \<not> node_attaching_vnode n \<and> node_vnode n = Some x) \<or>
         (\<exists>u r k. pcs u = NAttach (v_fsnode w) (Inr x) r k))" if w: "nt_vnodes ?nt x = Some w" for x w
      using bwd [OF w] V(2) [of x] unfolding ih by fastforce
    show "\<exists>w. nt_vnodes ?nt x = Some w \<and> \<not> v_dying w \<and> v_fsnode w = q" if "vheld (pcs u) = Some (q, x)" for u q x
      using V(3) [OF that] free [of u q] that by auto
    show "x < nt_vseq ?nt" if "pcs u = NGetVid q x r k" for u q x r k using V(4) [OF that] by simp
    show "v_fsnode w = q \<and> (\<exists>n. nt_nodes ?nt q = Some n \<and> key n = rkey r)"
      if "pcs u = NGetVid q x r k" "nt_vnodes ?nt x = Some w" for u q x r k w
      using V(5) [OF that(1)] bwd [OF that(2)] by auto
  qed
  then show ?thesis using h ti by (simp add: nt_inv_parts hash_inv_def thread_inv_def inhash_def)
qed

lemma nt_inv_move:
  assumes "nt_inv (nt, pcs)" "pc_wf q" "creating q = creating (pcs t)"
    and "\<And>p. owned q = Some p \<Longrightarrow> owned (pcs t) = Some p \<or>
      nt_nodes nt p \<noteq> None \<and> \<not> inhash nt p \<and> (\<forall>u. owned (pcs u) \<noteq> Some p)"
    and "\<And>p req new. q = NSleep p req new \<Longrightarrow> inhash nt p \<and>
      (\<exists>n. nt_nodes nt p = Some n \<and> node_attaching_vnode n \<and> node_thread_waiting_attach n)"
    and "\<And>p req. target q = Some (p, req) \<Longrightarrow> \<exists>n. nt_nodes nt p = Some n \<and> key n = rkey req"
    and "\<And>p v req new. pcs t = NAttach p (Inr v) req new \<Longrightarrow> q = NAttach p (Inr v) req new"
    and "\<And>p v. vheld q = Some (p, v) \<Longrightarrow> \<exists>vn. nt_vnodes nt v = Some vn \<and> \<not> v_dying vn \<and> v_fsnode vn = p"
    and "\<And>p v req new. q = NGetVid p v req new \<Longrightarrow> v < nt_vseq nt \<and>
      (\<forall>vn. nt_vnodes nt v = Some vn \<longrightarrow> v_fsnode vn = p \<and> (\<exists>n. nt_nodes nt p = Some n \<and> key n = rkey req))"
  shows "nt_inv (nt, pcs(t := q))"
proof -
  from assms(1) have h: "hash_inv nt" and ti: "thread_inv nt pcs" and vi: "vnode_inv nt pcs"
    by (auto simp: nt_inv_parts)
  have "thread_inv nt (pcs(t := q))"
    by (rule thread_inv_move [OF ti assms(2)]) (fact assms(4) assms(3) assms(5,6))+
  moreover have "vnode_inv nt (pcs(t := q))"
    by (rule vnode_inv_move [OF vi]) (fact assms(7-9))+
  ultimately show ?thesis using h by (simp add: nt_inv_parts)
qed

lemma nt_inv_alloc:
  assumes inv: "nt_inv (nt, pcs)" and pc: "pcs t = NAlloc req" and p: "nt_nodes nt p = None"
  shows "nt_inv (nt\<lparr>nt_nodes := (nt_nodes nt)(p := Some g)\<rparr>, pcs(t := NTop req (Some p)))" (is "nt_inv (?nt, _)")
proof (rule nt_inv_move)
  from inv have h: "hash_inv nt" and ti: "thread_inv nt pcs" by (auto simp: nt_inv_parts)
  have out: "\<not> inhash nt p" using hash_invD(1) [OF h] p by (fastforce simp: inhash_def)
  have own: "owned (pcs u) \<noteq> Some p" for u using thread_invD(2) [OF ti, of u p] p by auto
  show "nt_inv (?nt, pcs)"
    using out own thread_invD(2) [OF ti] by (intro nt_inv_outside [OF inv]) auto
  show "owned (pcs t) = Some q \<or> nt_nodes ?nt q \<noteq> None \<and> \<not> inhash ?nt q \<and> (\<forall>u. owned (pcs u) \<noteq> Some q)"
    if "owned (NTop req (Some p)) = Some q" for q
    using that out own by (simp add: inhash_def)
qed (use pc in auto)

lemma nt_inv_get:
  assumes inv: "nt_inv (nt, pcs)" and pc: "pcs t = NGetVid p v req new"
    and v: "nt_vnodes nt v = Some vn" "\<not> v_dying vn"
  shows "nt_inv (nt_discard new p nt, pcs(t := NRet req (Inr (p, v))))" (is "nt_inv (_, ?pcs)")
proof -
  from inv have ti: "thread_inv nt pcs" and vi: "vnode_inv nt pcs" by (auto simp: nt_inv_parts)
  have k: "v_fsnode vn = p" "\<exists>n. nt_nodes nt p = Some n \<and> key n = rkey req"
    using vnode_invD(5) [OF vi pc v(1)] by auto
  have moved: "nt_inv (nt, ?pcs)"
    by (rule nt_inv_move [OF inv]) (use pc v k in auto)
  show ?thesis
  proof (cases "\<exists>q. new = Some q \<and> q \<noteq> p")
    case True
    then obtain q where q: "new = Some q" "q \<noteq> p" by blast
    then have own: "owned (pcs t) = Some q" using pc by simp
    have "owned (?pcs u) \<noteq> Some q" for u using thread_invD(3) [OF ti own, of u] by auto
    moreover from moved have "thread_inv nt ?pcs" by (simp add: nt_inv_parts)
    ultimately show ?thesis
      using thread_invD(2) [OF ti own] thread_invD(2) [of nt ?pcs] q
      by (intro nt_inv_outside [OF moved]) (auto simp: nt_discard_def)
  next
    case False
    then have "nt_discard new p nt = nt" by (auto simp: nt_discard_def split: option.splits)
    with moved show ?thesis by simp
  qed
qed

lemma attach_wakes:
  assumes inv: "nt_inv (nt, pcs)"
  shows "(if waiting p nt then wake p pcs else pcs) = wake p pcs"
  using wake_idle [OF inv] by auto

lemma nt_inv_turn:
  assumes inv: "nt_inv (nt, pcs)" and pc: "pcs t = NTop req new" and turn: "nt_turn req new nt = (w, nt')"
  shows "w = MustAlloc \<Longrightarrow> nt_inv (nt', pcs(t := NAlloc req))"
    and "w = MustSleep p \<Longrightarrow> nt_inv (nt', pcs(t := NSleep p req new))"
    and "w = HasVnode p v \<Longrightarrow> nt_inv (nt', pcs(t := NGetVid p v req new))"
    and "w = MustCreate p \<Longrightarrow> nt_inv (nt', pcs(t := NCreate p req new))"
proof -
  have vi: "vnode_inv nt pcs" using inv by (simp add: nt_inv_parts)
  show "nt_inv (nt', pcs(t := NAlloc req))" if "w = MustAlloc"
    using inv turn
  proof (cases rule: nt_turn_cases)
    case alloc
    then show ?thesis using pc by (auto intro!: nt_inv_move [OF inv])
  qed (use that in simp_all)
  show "nt_inv (nt', pcs(t := NSleep p req new))" if "w = MustSleep p"
    using inv turn
  proof (cases rule: nt_turn_cases)
    case (sleep q n)
    with that have q: "q = p" by simp
    show ?thesis
      by (rule nt_inv_move) (use nt_inv_mark [OF inv, of p] pc sleep q in \<open>auto simp: inhash_def nt_update_def\<close>)
  qed (use that in simp_all)
  show "nt_inv (nt', pcs(t := NGetVid p v req new))" if "w = HasVnode p v"
    using inv turn
  proof (cases rule: nt_turn_cases)
    case (vnode q n x)
    with that have q: "q = p" "x = v" by simp_all
    with vnode vnode_invD(1) [OF vi vnode(2,3,5)] obtain vn where "nt_vnodes nt v = Some vn" "v_fsnode vn = p" by auto
    with vnode_invD(2) [OF vi this(1)] vnode q show ?thesis
      using pc by (auto intro!: nt_inv_move [OF inv])
  qed (use that in simp_all)
  show "nt_inv (nt', pcs(t := NCreate p req new))" if "w = MustCreate p"
    using inv turn
  proof (cases rule: nt_turn_cases)
    case (promote q)
    then show ?thesis using that nt_inv_promote [OF inv, of t req p] pc by simp
  qed (use that in simp_all)
qed

lemma nt_inv_finish:
  assumes inv: "nt_inv (nt, pcs)" and pc: "pcs t = NAttach p r req new"
  shows "r = Inr v \<Longrightarrow> nt_inv (nt_discard new p (nt_attached p r nt),
      (if waiting p nt then wake p pcs else pcs)(t := NRet req (Inr (p, v))))"
    and "r = Inl e \<Longrightarrow> nt_inv (nt_attached p r nt,
      (if waiting p nt then wake p pcs else pcs)(t := NRet req (Inl e)))"
proof -
  have "new = Some p" using inv thread_invD(1) [of nt pcs t] pc by (simp add: nt_inv_parts)
  then have d: "nt_discard new p nt' = nt'" for nt' by (simp add: nt_discard_def)
  have w: "wake p pcs t = NAttach p r req new" "wake p pcs u \<noteq> NSleep p k l" for u k l
    using pc by (simp_all add: wake_simps)
  note wi = nt_inv_wake [OF inv, of p]
  show "nt_inv (nt_discard new p (nt_attached p r nt),
      (if waiting p nt then wake p pcs else pcs)(t := NRet req (Inr (p, v))))" if "r = Inr v"
    using nt_inv_attach [OF wi, of t p v req new] w that unfolding d attach_wakes [OF inv] by simp
  show "nt_inv (nt_attached p r nt,
      (if waiting p nt then wake p pcs else pcs)(t := NRet req (Inl e)))" if "r = Inl e"
    using nt_inv_attach_fail [OF wi, of t p e req new] w that unfolding attach_wakes [OF inv] by simp
qed

lemma nt_inv_step: "nt_step s s' \<Longrightarrow> nt_inv s \<Longrightarrow> nt_inv s'"
proof (induction rule: nt_step.induct)
  case (Call pcs t nt req)
  then show ?case by (auto intro!: nt_inv_move)
next
  case (NoMem pcs t req nt)
  then show ?case by (auto intro!: nt_inv_move)
next
  case (GetFail pcs t p v req new nt)
  then show ?case by (auto intro!: nt_inv_move)
next
  case (CreateFail pcs t p req new e nt)
  then have ti: "thread_inv nt pcs" by (simp add: nt_inv_parts)
  from CreateFail thread_invD(1) [OF ti, of t] thread_invD(8) [OF ti, of t] show ?case
    by (auto intro!: nt_inv_move)
next
  case (Put pcs t req r nt)
  then show ?case by (auto intro!: nt_inv_move)
qed (blast intro: nt_inv_turn nt_inv_alloc nt_inv_get nt_inv_create nt_inv_finish nt_inv_dying nt_inv_reclaim)+

lemma nt_reachable_inv: "nt_reachable s \<Longrightarrow> nt_inv s"
proof (induction rule: nt_reachable.induct)
  case Init
  show ?case
    by (simp add: nt_inv_parts hash_inv_def thread_inv_def vnode_inv_def nt_initial_def inhash_def)
next
  case (Step s s')
  then show ?case using nt_inv_step by blast
qed

text \<open>
  A vnode that a thread has found or returned is the one recorded in its node for as long as it
  is alive: no second vnode is ever attached to a node.
\<close>

definition attached_to :: "node_table \<Rightarrow> nptr \<Rightarrow> nat \<Rightarrow> bool" where
  "attached_to nt p v \<longleftrightarrow> (\<forall>vn. nt_vnodes nt v = Some vn \<longrightarrow>
     v_fsnode vn = p \<and> inhash nt p \<and>
     (\<exists>n. nt_nodes nt p = Some n \<and> \<not> node_attaching_vnode n \<and> node_vnode n = Some v))"

fun settled :: "nt_pc \<Rightarrow> (nptr \<times> nat) option" where
  "settled (NRet req (Inr pv)) = Some pv"
| "settled (NGetVid p v req new) = Some (p, v)"
| "settled _ = None"

definition settled_inv :: "nt_sys \<Rightarrow> bool" where
  "settled_inv s \<longleftrightarrow> (case s of (nt, pcs) \<Rightarrow> \<forall>t p v. settled (pcs t) = Some (p, v) \<longrightarrow> attached_to nt p v \<and> v < nt_vseq nt)"

lemma settled_wake [simp]: "settled (wake p pcs t) = settled (pcs t)"
  by (cases "pcs t") (auto simp: wake_def)

lemma settled_inv_move:
  assumes "settled_inv (nt, pcs)"
    and "\<And>p v. settled q = Some (p, v) \<Longrightarrow> settled (pcs t) = Some (p, v) \<or> attached_to nt' p v \<and> v < nt_vseq nt'"
    and "\<And>p v. v < nt_vseq nt \<Longrightarrow> attached_to nt p v \<Longrightarrow> attached_to nt' p v" and "nt_vseq nt \<le> nt_vseq nt'"
    and "\<And>u. u \<noteq> t \<Longrightarrow> settled (pcs' u) = settled (pcs u)" and "pcs' t = q"
  shows "settled_inv (nt', pcs')"
  unfolding settled_inv_def prod.case
proof (intro allI impI)
  fix u p v
  assume u: "settled (pcs' u) = Some (p, v)"
  have old: "attached_to nt' p v \<and> v < nt_vseq nt'" if "settled (pcs w) = Some (p, v)" for w
    using assms(1,3,4) that by (fastforce simp: settled_inv_def)
  show "attached_to nt' p v \<and> v < nt_vseq nt'"
    using u old assms(2,5,6) by (cases "u = t") auto
qed

lemma attached_to_turn:
  assumes inv: "nt_inv (nt, pcs)" and pc: "pcs t = NTop req new" and turn: "nt_turn req new nt = (w, nt')"
    and at: "attached_to nt p v"
  shows "attached_to nt' p v"
  using inv turn
proof (cases rule: nt_turn_cases)
  case alloc
  then show ?thesis using at by simp
next
  case (promote q)
  have "owned (pcs t) = Some q" using promote pc by simp
  then have "\<not> inhash nt q" using inv thread_invD(2) [of nt pcs t q] by (simp add: nt_inv_parts)
  with at promote show ?thesis
    by (auto simp: attached_to_def inhash_insert) (auto simp: nt_update_def nt_insert_def Let_def)
next
  case (sleep q n)
  with at show ?thesis by (auto simp: attached_to_def) (auto simp: nt_update_def)
next
  case (vnode q n x)
  then show ?thesis using at by simp
qed

lemma attached_to_attach:
  assumes inv: "nt_inv (nt, pcs)" and pc: "pcs t = NAttach q r req new" and at: "attached_to nt p v"
  shows "attached_to (nt_attached q r nt) p v"
proof -
  have cr: "creating (pcs t) = Some q" using pc by simp
  obtain n where n: "nt_nodes nt q = Some n" "node_attaching_vnode n"
    using inv thread_invD(4) [of nt pcs t q] cr by (auto simp: nt_inv_parts)
  show ?thesis
  proof (cases "nt_vnodes nt v")
    case None
    then show ?thesis
      by (simp add: attached_to_def nt_attached_def nt_update_def procfsnode_free_node_def Let_def split: sum.splits)
  next
    case (Some vn)
    with at n have "p \<noteq> q" by (auto simp: attached_to_def)
    with at show ?thesis
      by (auto simp: attached_to_def nt_attached_def nt_update_def procfsnode_free_node_def Let_def inhash_def
          split: sum.splits)
  qed
qed

lemma attached_to_reclaim:
  assumes inv: "nt_inv (nt, pcs)" and v: "nt_vnodes nt v = Some vn" "v_dying vn" and at: "attached_to nt p x"
  shows "attached_to (procfs_vnop_reclaim v nt) p x"
proof (cases "x = v \<or> nt_vnodes nt x = None")
  case True
  then show ?thesis using v by (auto simp: attached_to_def procfs_vnop_reclaim_def)
next
  case False
  then obtain y where y: "nt_vnodes nt x = Some y" by auto
  with at obtain n where n: "v_fsnode y = p" "nt_nodes nt p = Some n" "\<not> node_attaching_vnode n" "node_vnode n = Some x"
    by (auto simp: attached_to_def)
  have "v_fsnode vn \<noteq> p"
    using attached_unique [OF inv n(2-4) v(1)] False by auto
  with at False show ?thesis
    by (auto simp: attached_to_def procfs_vnop_reclaim_def v procfsnode_free_node_def inhash_def)
qed

lemma attached_to_discard:
  assumes inv: "nt_inv (nt, pcs)" and pc: "pcs t = NGetVid p v req new" and at: "attached_to nt q x"
  shows "attached_to (nt_discard new p nt) q x"
proof (cases new)
  case None
  then show ?thesis using at by (simp add: nt_discard_def)
next
  case (Some r)
  then have "owned (pcs t) = Some r" using pc by simp
  then have "\<not> inhash nt r" using inv thread_invD(2) [of nt pcs t r] by (simp add: nt_inv_parts)
  with at Some show ?thesis by (auto simp: nt_discard_def attached_to_def inhash_def)
qed

lemma attached_to_now:
  assumes inv: "nt_inv (nt, pcs)" and pc: "pcs t = NAttach p (Inr v) req new"
  shows "attached_to (nt_attached p (Inr v) nt) p v \<and> v < nt_vseq (nt_attached p (Inr v) nt)"
proof -
  have "vheld (pcs t) = Some (p, v)" "creating (pcs t) = Some p" using pc by simp_all
  with inv obtain vn n where "nt_vnodes nt v = Some vn" "v_fsnode vn = p" "inhash nt p" "nt_nodes nt p = Some n"
    using vnode_invD(3) [of nt pcs t p v] thread_invD(4) [of nt pcs t p] by (auto simp: nt_inv_parts)
  with inv vnode_invD(2) [of nt pcs v vn] show ?thesis
    by (auto simp: nt_inv_parts attached_to_def nt_attached_def Let_def) (auto simp: nt_update_def)
qed

lemma nt_turn_vseq: "nt_turn req new nt = (w, nt') \<Longrightarrow> nt_vseq nt' = nt_vseq nt"
  by (auto simp: nt_turn_def nt_decide_def nt_update_def nt_insert_def Let_def split: option.splits if_splits)

lemma settled_inv_turn:
  assumes "settled_inv (nt, pcs)" "nt_inv (nt, pcs)" "pcs t = NTop req new" "nt_turn req new nt = (w, nt')"
    and "settled q = None"
  shows "settled_inv (nt', pcs(t := q))"
  using attached_to_turn [OF assms(2-4)] nt_turn_vseq [OF assms(4)] assms(5)
  by (intro settled_inv_move [where t = t, OF assms(1)]) auto

lemma settled_inv_step:
  assumes "nt_step s s'" "nt_inv s" "settled_inv s"
  shows "settled_inv s'"
  using assms
proof (induction rule: nt_step.induct)
  case (Alloc pcs t req new nt nt')
  then show ?case by (intro settled_inv_turn) auto
next
  case (Sleep pcs t req new nt p nt')
  then show ?case by (intro settled_inv_turn) auto
next
  case (Found pcs t req new nt p v nt')
  then have vi: "vnode_inv nt pcs" by (simp add: nt_inv_parts)
  from Found(3,2) obtain n where n: "inhash nt p" "nt_nodes nt p = Some n" "\<not> node_attaching_vnode n"
    "node_vnode n = Some v" "nt' = nt" by (auto elim!: nt_turn_cases)
  with vnode_invD(1) [OF vi n(1-3)] vnode_invD(2) [OF vi] have "attached_to nt p v \<and> v < nt_vseq nt"
    by (auto simp: attached_to_def)
  with n Found(4) show ?case by (intro settled_inv_move [where t = t, OF Found(4)]) auto
next
  case (Promote pcs t req new nt p nt')
  then show ?case by (intro settled_inv_turn) auto
next
  case (Malloc pcs t req nt p g)
  then show ?case
    by (intro settled_inv_move [where t = t, OF Malloc(4)]) (auto simp: attached_to_def inhash_def)
next
  case (GetOk pcs t p v req new nt vn)
  have "nt_vseq (nt_discard new p nt) = nt_vseq nt" by (simp add: nt_discard_def split: option.splits)
  then show ?case
    using GetOk(1) attached_to_discard [OF GetOk(4,1)]
    by (intro settled_inv_move [where t = t, OF GetOk(5)]) auto
next
  case (CreateOk pcs t p req new nt v nt')
  then show ?case
    by (intro settled_inv_move [where t = t, OF CreateOk(4)])
      (auto simp: attached_to_def nt_new_vnode_def inhash_def)
next
  case (AttachOk pcs t p v req new nt)
  have "new = Some p" using AttachOk thread_invD(1) [of nt pcs t] by (simp add: nt_inv_parts)
  then have d: "nt_discard new p nt' = nt'" for nt' by (simp add: nt_discard_def)
  have "nt_vseq (nt_attached p (Inr v) nt) = nt_vseq nt" by (simp add: nt_attached_def nt_update_def Let_def)
  then show ?case
    using attached_to_now [OF AttachOk(2,1)] attached_to_attach [OF AttachOk(2,1)]
    unfolding d by (intro settled_inv_move [where t = t, OF AttachOk(3)]) auto
next
  case (AttachFail pcs t p e req new nt)
  have "nt_vseq (nt_attached p (Inl e) nt) = nt_vseq nt"
    by (simp add: nt_attached_def nt_update_def procfsnode_free_node_def Let_def)
  then show ?case
    using attached_to_attach [OF AttachFail(2,1)]
    by (intro settled_inv_move [where t = t, OF AttachFail(3)]) auto
next
  case (Dying nt v vn pcs)
  then show ?case
    by (intro settled_inv_move [where t = 0, OF Dying(4)])
      (auto simp: attached_to_def inhash_def split: if_splits)
next
  case (Reclaim nt v vn pcs)
  have "nt_vseq (procfs_vnop_reclaim v nt) = nt_vseq nt"
    by (simp add: procfs_vnop_reclaim_def procfsnode_free_node_def Reclaim)
  then show ?case
    using attached_to_reclaim [OF Reclaim(3,1,2)]
    by (intro settled_inv_move [where t = 0, OF Reclaim(4)]) auto
qed (auto simp: settled_inv_def)

lemma nt_reachable_settled: "nt_reachable s \<Longrightarrow> settled_inv s"
proof (induction rule: nt_reachable.induct)
  case Init
  show ?case by (simp add: settled_inv_def)
next
  case (Step s s')
  then show ?case using settled_inv_step nt_reachable_inv by blast
qed

section \<open>A run of two threads\<close>

text \<open>Thread 0 creates the node of \<open>demo_req\<close> at address 7, thread 1 sleeps until it is attached.\<close>

definition demo_req :: find_req where
  "demo_req = \<lparr>fr_mount = 1, fr_id = mk_id 42 PRNODE_NO_OBJECTID 9, fr_snode = 3\<rparr>"

abbreviation demo_node :: "bool \<Rightarrow> bool \<Rightarrow> nat option \<Rightarrow> pfsnode" where
  "demo_node a w v \<equiv> \<lparr>node_vnode = v, node_attaching_vnode = a, node_thread_waiting_attach = w,
     node_mnt_id = fr_mount demo_req, node_id = fr_id demo_req, node_structure_node = fr_snode demo_req\<rparr>"

definition demo_table :: "pfsnode \<Rightarrow> node_table" where
  "demo_table n = nt_initial\<lparr>nt_nodes := (\<lambda>_. None)(7 := Some n),
     nt_hash := (\<lambda>_. [])(bucket_of (fr_mount demo_req) (fr_id demo_req) := [7])\<rparr>"

abbreviation demo_linked :: node_table where
  "demo_linked \<equiv> (demo_table (demo_node False False (Some 0)))\<lparr>nt_vseq := 1,
     nt_vnodes := (\<lambda>_. None)(0 := Some \<lparr>v_fsnode = 7, v_dying = False\<rparr>)\<rparr>"

lemma demo_turns:
  "nt_turn demo_req None nt_initial = (MustAlloc, nt_initial)"
  "nt_turn demo_req (Some 7) (nt_initial\<lparr>nt_nodes := (\<lambda>_. None)(7 := Some g)\<rparr>) =
     (MustCreate 7, demo_table (demo_node True False None))"
  "nt_turn demo_req None (demo_table (demo_node True False None)) = (MustSleep 7, demo_table (demo_node True True None))"
  by (simp_all add: nt_turn_def nt_search_def nt_decide_def nt_insert_def nt_update_def nt_initial_def
      demo_table_def node_matches_def Let_def)

lemma demo_sleeping:
  "nt_reachable (demo_table (demo_node True True None),
     (\<lambda>_. NIdle)(0 := NCreate 7 demo_req (Some 7), 1 := NSleep 7 demo_req None))"
proof -
  let ?i = "\<lambda>_ :: nat. NIdle" and ?g = "demo_node False False None"
  have "nt_reachable (nt_initial, ?i(0 := NTop demo_req None))"
    by (rule nt_reachable.Step [OF nt_reachable.Init]) (rule nt_step.Call, simp)
  then have "nt_reachable (nt_initial, ?i(0 := NAlloc demo_req))"
    by (rule nt_reachable.Step) (use nt_step.Alloc [OF _ demo_turns(1), of "?i(0 := NTop demo_req None)" 0] in simp)
  then have "nt_reachable (nt_initial\<lparr>nt_nodes := (\<lambda>_. None)(7 := Some ?g)\<rparr>, ?i(0 := NTop demo_req (Some 7)))"
    by (rule nt_reachable.Step)
      (use nt_step.Malloc [of "?i(0 := NAlloc demo_req)" 0 demo_req nt_initial 7 ?g] in \<open>simp add: nt_initial_def\<close>)
  then have "nt_reachable (demo_table (demo_node True False None), ?i(0 := NCreate 7 demo_req (Some 7)))"
    by (rule nt_reachable.Step)
      (use nt_step.Promote [OF _ demo_turns(2), of "?i(0 := NTop demo_req (Some 7))" 0 ?g] in simp)
  then have "nt_reachable (demo_table (demo_node True False None),
      ?i(0 := NCreate 7 demo_req (Some 7), 1 := NTop demo_req None))"
    by (rule nt_reachable.Step) (rule nt_step.Call, simp)
  then show ?thesis
    by (rule nt_reachable.Step)
      (use nt_step.Sleep [OF _ demo_turns(3), of "?i(0 := NCreate 7 demo_req (Some 7), 1 := NTop demo_req None)" 1] in simp)
qed

lemma demo_returned:
  "nt_reachable (demo_linked, (\<lambda>_. NIdle)(0 := NRet demo_req (Inr (7, 0)), 1 := NTop demo_req None))"
proof -
  let ?i = "(\<lambda>_ :: nat. NIdle)" and ?a = "demo_table (demo_node True True None)"
  define nt where "nt = ?a\<lparr>nt_vseq := 1, nt_vnodes := (\<lambda>_. None)(0 := Some \<lparr>v_fsnode = 7, v_dying = False\<rparr>)\<rparr>"
  let ?pcs = "?i(0 := NAttach 7 (Inr 0) demo_req (Some 7), 1 := NSleep 7 demo_req None)"
  have "nt_new_vnode 7 ?a = (0, nt)" by (simp add: nt_new_vnode_def nt_def demo_table_def nt_initial_def)
  then have "nt_reachable (nt, ?pcs)"
    using nt_reachable.Step [OF demo_sleeping nt_step.CreateOk [of _ 0 7 demo_req "Some 7" ?a 0 nt]]
    by (simp add: fun_upd_twist)
  from nt_reachable.Step [OF this nt_step.AttachOk [of ?pcs 0 7 0 demo_req "Some 7" nt]]
  have "nt_reachable (nt_discard (Some 7) 7 (nt_attached 7 (Inr 0) nt),
      (if waiting 7 nt then wake 7 ?pcs else ?pcs)(0 := NRet demo_req (Inr (7, 0))))" by simp
  moreover have "nt_discard (Some 7) 7 (nt_attached 7 (Inr 0) nt) = demo_linked"
    by (simp add: nt_discard_def nt_attached_def nt_update_def nt_def demo_table_def nt_initial_def Let_def)
  moreover have "(if waiting 7 nt then wake 7 ?pcs else ?pcs)(0 := NRet demo_req (Inr (7, 0))) =
      ?i(0 := NRet demo_req (Inr (7, 0)), 1 := NTop demo_req None)"
    by (auto simp: waiting_def nt_def demo_table_def nt_initial_def wake_def fun_eq_iff)
  ultimately show ?thesis by simp
qed

section \<open>Sequential use\<close>

text \<open>No thread is inside \<open>procfsnode_find\<close>.\<close>

definition quiescent :: "node_table \<Rightarrow> bool" where
  "quiescent nt \<longleftrightarrow> nt_inv (nt, \<lambda>_. NIdle)"

text \<open>\<open>OSMalloc\<close> hands out memory that is not in use, when it does not fail.\<close>

definition malloc_law :: "(node_table \<Rightarrow> (nptr \<times> pfsnode) option) \<Rightarrow> bool" where
  "malloc_law f \<longleftrightarrow> (\<forall>nt p g. f nt = Some (p, g) \<longrightarrow> nt_nodes nt p = None)"

lemma quiescent_node:
  assumes "quiescent nt" "inhash nt p" "nt_nodes nt p = Some n"
  shows "\<not> node_attaching_vnode n" and "\<exists>v. node_vnode n = Some v"
proof -
  from assms(1) have ti: "thread_inv nt (\<lambda>_. NIdle)" and vi: "vnode_inv nt (\<lambda>_. NIdle)"
    by (auto simp: quiescent_def nt_inv_parts)
  show a: "\<not> node_attaching_vnode n" using thread_invD(6) [OF ti assms(2,3)] by auto
  show "\<exists>v. node_vnode n = Some v" using vnode_invD(1) [OF vi assms(2,3) a] by blast
qed

lemma find_hit:
  assumes "nt_search req nt = Some p" "nt_nodes nt p = Some n" "\<not> node_attaching_vnode n" "node_vnode n = Some v"
    and "fe_getwithvid E v = 0"
  shows "find_loop (Suc f) E req None nt = Some (Inr (p, v), nt)"
  using assms by (simp add: nt_turn_def nt_decide_def nt_discard_def)

lemma nt_search_inserted:
  assumes "nt_search req nt = None" "nt_nodes nt p = None"
  shows "nt_search req (nt_insert req p nt) = Some p"
  by (simp add: nt_search_def nt_insert_def Let_def node_matches_def)

lemma find_miss:
  assumes none: "nt_search req nt = None" and m: "fe_malloc E nt = Some (p, g)" "nt_nodes nt p = None"
    and out: "\<not> inhash nt p" and c: "fe_create E req = 0"
  shows "\<exists>nt' n. find_loop (Suc (Suc f)) E req None nt = Some (Inr (p, nt_vseq nt), nt') \<and>
    nt_search req nt' = Some p \<and> nt_nodes nt' p = Some n \<and> \<not> node_attaching_vnode n \<and>
    node_vnode n = Some (nt_vseq nt)"
proof -
  let ?nt1 = "nt\<lparr>nt_nodes := (nt_nodes nt)(p := Some g)\<rparr>"
  have b: "p \<notin> set (nt_hash nt b)" for b using out by (auto simp: inhash_def)
  have "nt_search req ?nt1 = nt_search req nt"
    unfolding nt_search_def by (rule find_cong) (use b in auto)
  then have none1: "nt_search req ?nt1 = None" using none by simp
  show ?thesis
    using none none1 m c
    by (simp add: nt_turn_def nt_decide_def nt_insert_def nt_update_def nt_new_vnode_def nt_attached_def
        nt_discard_def nt_search_def node_matches_def Let_def)
qed

section \<open>Properties\<close>

text \<open>
  C1: what \<open>procfsnode_find\<close> returns is right in every interleaving: the node is in the hash
  table under the key that was asked for, its vnode is the returned one, is linked back to the
  node and has not been reclaimed; and two threads that asked for the same key get the same node
  and the same vnode.
\<close>

theorem find_returns_live_node:
  assumes "nt_reachable (nt, pcs)" and "pcs t = NRet req (Inr (p, v))"
  shows "inhash nt p \<and>
    (\<exists>n. nt_nodes nt p = Some n \<and> key n = rkey req \<and> \<not> node_attaching_vnode n \<and> node_vnode n = Some v) \<and>
    (\<exists>vn. nt_vnodes nt v = Some vn \<and> \<not> v_dying vn \<and> v_fsnode vn = p) \<and>
    (\<forall>u req' q x. pcs u = NRet req' (Inr (q, x)) \<longrightarrow> rkey req' = rkey req \<longrightarrow> (q, x) = (p, v))"
proof -
  from nt_reachable_inv [OF assms(1)] have h: "hash_inv nt" and ti: "thread_inv nt pcs" and vi: "vnode_inv nt pcs"
    by (auto simp: nt_inv_parts)
  have one: "inhash nt q \<and> (\<exists>n. nt_nodes nt q = Some n \<and> key n = rkey r \<and> \<not> node_attaching_vnode n \<and> node_vnode n = Some x) \<and>
      (\<exists>vn. nt_vnodes nt x = Some vn \<and> \<not> v_dying vn \<and> v_fsnode vn = q)" if u: "pcs u = NRet r (Inr (q, x))" for u r q x
  proof -
    have "settled (pcs u) = Some (q, x)" "vheld (pcs u) = Some (q, x)" "target (pcs u) = Some (q, r)" using u by simp_all
    note c = this
    from vnode_invD(3) [OF vi c(2)] obtain vn where vn: "nt_vnodes nt x = Some vn" "\<not> v_dying vn" "v_fsnode vn = q" by blast
    have "attached_to nt q x" using nt_reachable_settled [OF assms(1)] c(1) by (auto simp: settled_inv_def)
    with vn(1) obtain n where "inhash nt q" "nt_nodes nt q = Some n" "\<not> node_attaching_vnode n" "node_vnode n = Some x"
      by (auto simp: attached_to_def)
    with thread_invD(8) [OF ti c(3)] vn show ?thesis by auto
  qed
  moreover have "(q, x) = (p, v)" if u: "pcs u = NRet r (Inr (q, x))" "rkey r = rkey req" for u r q x
  proof -
    from one [OF u(1)] one [OF assms(2)] obtain n m where
      "inhash nt q" "nt_nodes nt q = Some n" "key n = rkey r" "node_vnode n = Some x"
      "inhash nt p" "nt_nodes nt p = Some m" "key m = rkey req" "node_vnode m = Some v" by blast
    with hash_invD(3) [OF h, of q p n m] u(2) show ?thesis by simp
  qed
  ultimately show ?thesis using assms(2) by blast
qed

theorem find_returns_live_node_witness:
  "inhash demo_linked 7 \<and> (\<exists>n. nt_nodes demo_linked 7 = Some n \<and> key n = rkey demo_req \<and> node_vnode n = Some 0)"
proof -
  have "((\<lambda>_ :: nat. NIdle)(0 := NRet demo_req (Inr (7, 0)), 1 := NTop demo_req None)) 0 = NRet demo_req (Inr (7, 0))" by simp
  from find_returns_live_node [OF demo_returned this] show ?thesis by blast
qed

text \<open>
  C11: no wakeup is lost. When a thread sleeps until a vnode is attached to node \<open>p\<close>, some other
  thread is attaching it, and the step with which that thread is done with the node, successful or
  not, moves the sleeper back to the top of its loop.
\<close>

theorem find_no_lost_wakeup:
  assumes "nt_reachable (nt, pcs)" and "pcs t = NSleep p req new"
  shows "\<exists>u. u \<noteq> t \<and> creating (pcs u) = Some p \<and>
    (\<forall>nt' pcs'. nt_step (nt, pcs) (nt', pcs') \<longrightarrow> creating (pcs' u) \<noteq> Some p \<longrightarrow> pcs' t = NTop req new)"
proof -
  have inv: "nt_inv (nt, pcs)" by (rule nt_reachable_inv [OF assms(1)])
  then have ti: "thread_inv nt pcs" by (simp add: nt_inv_parts)
  from thread_invD(7) [OF ti assms(2)] obtain n where
    n: "inhash nt p" "nt_nodes nt p = Some n" "node_attaching_vnode n" "node_thread_waiting_attach n" by blast
  from thread_invD(6) [OF ti n(1-3)] obtain u where u: "creating (pcs u) = Some p" by blast
  have ut: "u \<noteq> t" using u assms(2) by auto
  have "pcs' t = NTop req new" if "nt_step (nt, pcs) (nt', pcs')" "creating (pcs' u) \<noteq> Some p" for nt' pcs'
    using that(1)
  proof cases
    case (AttachOk w q v r k)
    then have "w = u" using that(2) u by (auto simp: wake_simps split: if_splits)
    then have "q = p" using AttachOk u by simp
    then show ?thesis using AttachOk \<open>w = u\<close> ut assms(2) n by (auto simp: wake_def waiting_def)
  next
    case (AttachFail w q e r k)
    then have "w = u" using that(2) u by (auto simp: wake_simps split: if_splits)
    then have "q = p" using AttachFail u by simp
    then show ?thesis using AttachFail \<open>w = u\<close> ut assms(2) n by (auto simp: wake_def waiting_def)
  qed (use that(2) u in \<open>auto split: if_splits\<close>)
  with u ut show ?thesis by blast
qed

theorem find_no_lost_wakeup_witness:
  "\<exists>u. u \<noteq> 1 \<and> creating (((\<lambda>_ :: nat. NIdle)(0 := NCreate 7 demo_req (Some 7), 1 := NSleep 7 demo_req None)) u) = Some 7"
proof -
  have "((\<lambda>_ :: nat. NIdle)(0 := NCreate 7 demo_req (Some 7), 1 := NSleep 7 demo_req None)) 1 = NSleep 7 demo_req None" by simp
  from find_no_lost_wakeup [OF demo_sleeping this] show ?thesis by blast
qed

text \<open>
  C19: used by one thread at a time, \<open>procfsnode_find\<close> always returns, and what it returns it
  finds again: after a successful call the same request yields the same node and vnode and leaves
  the table as it is. It fails only with \<open>ENOMEM\<close> or the error of the create callback.
\<close>

theorem find_then_find:
  assumes "quiescent nt" "malloc_law (fe_malloc E)" "\<And>v. fe_getwithvid E v = 0"
  shows "\<exists>r nt'. procfsnode_find E req nt = Some (r, nt') \<and>
    (case r of Inl e \<Rightarrow> e = ENOMEM \<or> e = fe_create E req
     | Inr pv \<Rightarrow> procfsnode_find E req nt' = Some (Inr pv, nt'))"
proof (cases "nt_search req nt")
  case (Some p)
  from nt_search_Some [OF this] obtain n where n: "inhash nt p" "nt_nodes nt p = Some n" by blast
  with quiescent_node [OF assms(1) n] obtain v where v: "\<not> node_attaching_vnode n" "node_vnode n = Some v" by blast
  from find_hit [OF Some n(2) v assms(3), of 2] show ?thesis by (simp add: procfsnode_find_def numeral_3_eq_3 numeral_2_eq_2)
next
  case None
  show ?thesis
  proof (cases "fe_malloc E nt")
    case None
    with \<open>nt_search req nt = None\<close> show ?thesis by (simp add: procfsnode_find_def numeral_3_eq_3 nt_turn_def)
  next
    case (Some pg)
    then obtain p g where m: "fe_malloc E nt = Some (p, g)" by (cases pg) auto
    then have p: "nt_nodes nt p = None" using assms(2) by (auto simp: malloc_law_def)
    then have out: "\<not> inhash nt p"
      using assms(1) hash_invD(1) [of nt p] by (fastforce simp: quiescent_def nt_inv_parts inhash_def)
    show ?thesis
    proof (cases "fe_create E req = 0")
      case True
      from find_miss [where f = 1, OF None m p out True] obtain nt' n where
        r: "procfsnode_find E req nt = Some (Inr (p, nt_vseq nt), nt')" "nt_search req nt' = Some p"
          "nt_nodes nt' p = Some n" "\<not> node_attaching_vnode n" "node_vnode n = Some (nt_vseq nt)"
        by (auto simp: procfsnode_find_def numeral_3_eq_3)
      from find_hit [OF r(2-5) assms(3), of 2] r(1) show ?thesis
        by (auto simp: procfsnode_find_def numeral_3_eq_3 numeral_2_eq_2)
    next
      case False
      have b: "p \<notin> set (nt_hash nt b)" for b using out by (auto simp: inhash_def)
      have "nt_search req (nt\<lparr>nt_nodes := (nt_nodes nt)(p := Some g)\<rparr>) = nt_search req nt"
        unfolding nt_search_def by (rule find_cong) (use b in auto)
      with None m False show ?thesis
        by (simp add: procfsnode_find_def numeral_3_eq_3 nt_turn_def nt_decide_def nt_insert_def nt_update_def Let_def)
    qed
  qed
qed

definition demo_env :: find_env where
  "demo_env = \<lparr>fe_malloc = (\<lambda>nt. if nt_nodes nt 7 = None then Some (7, demo_node False False None) else None),
     fe_getwithvid = (\<lambda>_. 0), fe_create = (\<lambda>_. 0)\<rparr>"

theorem find_then_find_witness:
  "\<exists>pv nt'. procfsnode_find demo_env demo_req nt_initial = Some (Inr pv, nt') \<and>
     procfsnode_find demo_env demo_req nt' = Some (Inr pv, nt')"
proof -
  have q: "quiescent nt_initial"
    unfolding quiescent_def by (rule nt_reachable_inv) (rule nt_reachable.Init)
  have m: "malloc_law (fe_malloc demo_env)" by (auto simp: malloc_law_def demo_env_def split: if_splits)
  have v: "fe_getwithvid demo_env v = 0" for v by (simp add: demo_env_def)
  from find_miss [of demo_req nt_initial demo_env 7 "demo_node False False None" 1] obtain pv nt' where
    "procfsnode_find demo_env demo_req nt_initial = Some (Inr pv, nt')"
    by (auto simp: procfsnode_find_def numeral_3_eq_3 demo_env_def nt_initial_def nt_search_def inhash_def)
  with find_then_find [OF q m v, of demo_req] show ?thesis by auto
qed

section \<open>A leaked node\<close>

text \<open>
  A thread that allocated a node, then found another thread's node and lost its vnode to a
  reclaim, starts over with \<open>new_pfsnode\<close> cleared: the allocation is neither in the table nor
  held by any thread any more.
\<close>

lemma new_node_leaked:
  "\<exists>nt pcs p. nt_reachable (nt, pcs) \<and> nt_nodes nt p \<noteq> None \<and> \<not> inhash nt p \<and>
     (\<forall>t. owned (pcs t) \<noteq> Some p \<and> creating (pcs t) \<noteq> Some p)"
proof -
  let ?i = "\<lambda>_ :: nat. NIdle" and ?g = "demo_node False False None" and ?r = demo_req
  let ?x = "\<lambda>nt. nt\<lparr>nt_nodes := (nt_nodes nt)(8 := Some ?g)\<rparr>"
  let ?d = "(?x demo_linked)\<lparr>nt_vnodes := (nt_vnodes (?x demo_linked))
      (0 := Some (\<lparr>v_fsnode = 7, v_dying = False\<rparr>\<lparr>v_dying := True\<rparr>))\<rparr>"
  let ?one = "nt_initial\<lparr>nt_nodes := (\<lambda>_. None)(7 := Some ?g)\<rparr>"
  let ?a = "demo_table (demo_node True False None)"
  define nt where "nt = ?a\<lparr>nt_vseq := 1, nt_vnodes := (\<lambda>_. None)(0 := Some \<lparr>v_fsnode = 7, v_dying = False\<rparr>)\<rparr>"
  note turn = nt_turn_def nt_search_def nt_decide_def nt_insert_def nt_update_def nt_initial_def
    demo_table_def node_matches_def Let_def
  have "nt_reachable (nt_initial, ?i(0 := NTop ?r None))"
    by (rule nt_reachable.Step [OF nt_reachable.Init]) (rule nt_step.Call, simp)
  then have "nt_reachable (nt_initial, ?i(0 := NTop ?r None, 1 := NTop ?r None))"
    by (rule nt_reachable.Step) (rule nt_step.Call, simp)
  then have "nt_reachable (nt_initial, ?i(0 := NAlloc ?r, 1 := NTop ?r None))"
    by (rule nt_reachable.Step)
      (use nt_step.Alloc [OF _ demo_turns(1), of "?i(0 := NTop ?r None, 1 := NTop ?r None)" 0] in \<open>simp add: fun_upd_twist\<close>)
  then have "nt_reachable (nt_initial, ?i(0 := NAlloc ?r, 1 := NAlloc ?r))"
    by (rule nt_reachable.Step) (use nt_step.Alloc [OF _ demo_turns(1), of "?i(0 := NAlloc ?r, 1 := NTop ?r None)" 1] in simp)
  then have "nt_reachable (?one, ?i(0 := NTop ?r (Some 7), 1 := NAlloc ?r))"
    by (rule nt_reachable.Step) (use nt_step.Malloc [of "?i(0 := NAlloc ?r, 1 := NAlloc ?r)" 0 ?r nt_initial 7 ?g]
        in \<open>simp add: nt_initial_def fun_upd_twist\<close>)
  then have "nt_reachable (?x ?one, ?i(0 := NTop ?r (Some 7), 1 := NTop ?r (Some 8)))"
    by (rule nt_reachable.Step) (use nt_step.Malloc [of "?i(0 := NTop ?r (Some 7), 1 := NAlloc ?r)" 1 ?r ?one 8 ?g] in simp)
  then have "nt_reachable (?x ?a, ?i(0 := NCreate 7 ?r (Some 7), 1 := NTop ?r (Some 8)))"
    by (rule nt_reachable.Step)
      (use nt_step.Promote [of "?i(0 := NTop ?r (Some 7), 1 := NTop ?r (Some 8))" 0 ?r "Some 7" "?x ?one" 7 "?x ?a"]
       in \<open>simp add: turn fun_upd_twist\<close>)
  then have "nt_reachable (?x nt, ?i(0 := NAttach 7 (Inr 0) ?r (Some 7), 1 := NTop ?r (Some 8)))"
    by (rule nt_reachable.Step)
      (use nt_step.CreateOk [of "?i(0 := NCreate 7 ?r (Some 7), 1 := NTop ?r (Some 8))" 0 7 ?r "Some 7" "?x ?a" 0 "?x nt"]
       in \<open>simp add: nt_def nt_new_vnode_def demo_table_def nt_initial_def fun_upd_twist\<close>)
  then have "nt_reachable (?x demo_linked, ?i(0 := NRet ?r (Inr (7, 0)), 1 := NTop ?r (Some 8)))"
    by (rule nt_reachable.Step)
      (use nt_step.AttachOk [of "?i(0 := NAttach 7 (Inr 0) ?r (Some 7), 1 := NTop ?r (Some 8))" 0 7 0 ?r "Some 7" "?x nt"]
       in \<open>simp add: nt_def waiting_def nt_discard_def nt_attached_def nt_update_def demo_table_def nt_initial_def Let_def
         fun_upd_twist\<close>)
  then have "nt_reachable (?x demo_linked, ?i(0 := NRet ?r (Inr (7, 0)), 1 := NGetVid 7 0 ?r (Some 8)))"
    by (rule nt_reachable.Step)
      (use nt_step.Found [of "?i(0 := NRet ?r (Inr (7, 0)), 1 := NTop ?r (Some 8))" 1 ?r "Some 8" "?x demo_linked" 7 0 "?x demo_linked"]
       in \<open>simp add: turn\<close>)
  then have "nt_reachable (?x demo_linked, ?i(0 := NIdle, 1 := NGetVid 7 0 ?r (Some 8)))"
    by (rule nt_reachable.Step)
      (use nt_step.Put [of "?i(0 := NRet ?r (Inr (7, 0)), 1 := NGetVid 7 0 ?r (Some 8))" 0 ?r "Inr (7, 0)" "?x demo_linked"]
       in \<open>simp add: fun_upd_twist\<close>)
  then have "nt_reachable (?d, ?i(0 := NIdle, 1 := NGetVid 7 0 ?r (Some 8)))"
    by (rule nt_reachable.Step)
      (rule nt_step.Dying [of "?x demo_linked" 0 "\<lparr>v_fsnode = 7, v_dying = False\<rparr>"], simp_all)
  then have "nt_reachable (?d, ?i(0 := NIdle, 1 := NTop ?r None))"
    by (rule nt_reachable.Step)
      (use nt_step.GetFail [of "?i(0 := NIdle, 1 := NGetVid 7 0 ?r (Some 8))" 1 7 0 ?r "Some 8" ?d] in simp)
  moreover have "\<not> inhash ?d 8" by (simp add: inhash_def demo_table_def nt_initial_def)
  ultimately show ?thesis by (intro exI [of _ ?d] exI conjI [rotated] allI exI [of _ 8]) auto
qed

end
