(* ===== verification/Ctl.thy ===== *)
theory Ctl
  imports Prelude
begin

text \<open>
  The kernel-control bridge to the daemon: \<open>kext/procfs_ctl.c\<close> with the wire structures of
  \<open>include/fs/procfs/procfs_ctl.h\<close>. Every section the source runs under \<open>g_ctl_lock\<close> is one
  atomic operation on \<open>ctl_state\<close>. \<open>procfs_ctl_request_impl\<close> is the whole call as its caller
  sees it, with the activity of other threads and of the daemon while the lock is free as a
  parameter; \<open>ctl_step\<close> is the system of all threads, interleaved at those sections.
  An mbuf is the list of the packet's bytes, and a NULL MIB name is the empty name.
\<close>

section \<open>Wire format\<close>

definition PROCFS_CTL_MAGIC :: u32 where "PROCFS_CTL_MAGIC = 0x50524F43"
definition PROCFS_CTL_MAXPAYLOAD :: nat where "PROCFS_CTL_MAXPAYLOAD = 2048"
definition PROCFS_CTL_NAMEMAX :: nat where "PROCFS_CTL_NAMEMAX = 256"
definition PROCFS_CTL_SLOTS :: nat where "PROCFS_CTL_SLOTS = 16"

record ctl_req =
  req_magic :: u32
  req_seq :: u32
  req_type :: u32
  req_pid :: int
  req_arg :: u64
  req_name :: cstring

record ctl_resp =
  resp_magic :: u32
  resp_seq :: u32
  resp_error :: int
  resp_len :: u32

definition sizeof_ctl_resp :: nat where "sizeof_ctl_resp = 16"

definition le_u32 :: "bytes \<Rightarrow> u32" where
  "le_u32 bs = of_nat (le_nat (take 4 bs))"

definition u32_bytes :: "u32 \<Rightarrow> bytes" where
  "u32_bytes w = le_bytes 4 (unat w)"

definition encode_resp :: "ctl_resp \<Rightarrow> bytes" where
  "encode_resp r = u32_bytes (resp_magic r) @ u32_bytes (resp_seq r) @
     int32_bytes (resp_error r) @ u32_bytes (resp_len r)"

definition decode_resp :: "bytes \<Rightarrow> ctl_resp" where
  "decode_resp bs = \<lparr>resp_magic = le_u32 bs, resp_seq = le_u32 (drop 4 bs),
     resp_error = le_int32 (drop 8 bs), resp_len = le_u32 (drop 12 bs)\<rparr>"

definition mbuf_copydata :: "bytes \<Rightarrow> nat \<Rightarrow> nat \<Rightarrow> bytes option" where
  "mbuf_copydata m off n = (if off + n \<le> length m then Some (take n (drop off m)) else None)"

section \<open>The slot table\<close>

record ctl_slot =
  in_use :: bool
  slot_done :: bool
  slot_seq :: u32
  slot_error :: int
  slot_len :: nat
  slot_buf :: bytes

record ctl_state =
  ctl_ref :: bool
  ctl_unit :: u32
  ctl_connected :: bool
  ctl_seq :: u32
  ctl_slots :: "ctl_slot list"

definition slot_initial :: ctl_slot where
  "slot_initial = \<lparr>in_use = False, slot_done = False, slot_seq = 0, slot_error = 0, slot_len = 0,
     slot_buf = replicate PROCFS_CTL_MAXPAYLOAD NUL\<rparr>"

definition ctl_initial :: ctl_state where
  "ctl_initial = \<lparr>ctl_ref = False, ctl_unit = 0, ctl_connected = False, ctl_seq = 0,
     ctl_slots = replicate PROCFS_CTL_SLOTS slot_initial\<rparr>"

section \<open>Callbacks of the control socket\<close>

definition procfs_ctl_connect :: "u32 \<Rightarrow> ctl_state \<Rightarrow> errno \<times> ctl_state" where
  "procfs_ctl_connect sc_unit st = (0, st\<lparr>ctl_unit := sc_unit, ctl_connected := True\<rparr>)"

definition slot_disconnect :: "ctl_slot \<Rightarrow> ctl_slot" where
  "slot_disconnect s = (if in_use s \<and> \<not> slot_done s
     then s\<lparr>slot_error := ENOTCONN, slot_done := True\<rparr> else s)"

definition procfs_ctl_disconnect :: "ctl_state \<Rightarrow> errno \<times> ctl_state" where
  "procfs_ctl_disconnect st =
     (0, st\<lparr>ctl_connected := False, ctl_slots := map slot_disconnect (ctl_slots st)\<rparr>)"

text \<open>
  A reply fills the first slot that is in use, not yet done and has the reply's sequence number.
  The payload is copied only when the packet really holds \<open>plen\<close> bytes after the header.
\<close>

definition slot_complete :: "ctl_resp \<Rightarrow> nat \<Rightarrow> bytes \<Rightarrow> ctl_slot \<Rightarrow> ctl_slot" where
  "slot_complete resp plen m s = s\<lparr>
     slot_buf := (if 0 < plen \<and> sizeof_ctl_resp + plen \<le> length m
        then (case mbuf_copydata m sizeof_ctl_resp plen of None \<Rightarrow> slot_buf s
              | Some d \<Rightarrow> d @ drop plen (slot_buf s))
        else slot_buf s),
     slot_len := plen, slot_error := resp_error resp, slot_done := True\<rparr>"

fun ctl_deliver :: "ctl_resp \<Rightarrow> nat \<Rightarrow> bytes \<Rightarrow> ctl_slot list \<Rightarrow> ctl_slot list" where
  "ctl_deliver resp plen m [] = []"
| "ctl_deliver resp plen m (s # ss) =
     (if in_use s \<and> \<not> slot_done s \<and> slot_seq s = resp_seq resp
      then slot_complete resp plen m s # ss
      else s # ctl_deliver resp plen m ss)"

definition procfs_ctl_send :: "bytes \<Rightarrow> ctl_state \<Rightarrow> errno \<times> ctl_state" where
  "procfs_ctl_send m st =
     (if sizeof_ctl_resp \<le> length m then
        (case mbuf_copydata m 0 sizeof_ctl_resp of None \<Rightarrow> (0, st)
         | Some hdr \<Rightarrow>
             let resp = decode_resp hdr in
             if resp_magic resp = PROCFS_CTL_MAGIC then
               let plen = min (unat (resp_len resp)) PROCFS_CTL_MAXPAYLOAD
               in (0, st\<lparr>ctl_slots := ctl_deliver resp plen m (ctl_slots st)\<rparr>)
             else (0, st))
      else (0, st))"

section \<open>The atomic sections of a request\<close>

fun first_free :: "ctl_slot list \<Rightarrow> nat option" where
  "first_free [] = None"
| "first_free (s # ss) = (if \<not> in_use s then Some 0 else map_option Suc (first_free ss))"

definition next_seq :: "u32 \<Rightarrow> u32" where
  "next_seq s = (if s + 1 = 0 then s + 1 + 1 else s + 1)"

definition slot_claim :: "u32 \<Rightarrow> ctl_slot \<Rightarrow> ctl_slot" where
  "slot_claim seq s = s\<lparr>in_use := True, slot_done := False, slot_seq := seq, slot_error := 0,
     slot_len := 0\<rparr>"

definition ctl_claim :: "ctl_state \<Rightarrow> (nat \<times> u32 \<times> ctl_state) res" where
  "ctl_claim st = (case first_free (ctl_slots st) of None \<Rightarrow> Inl EBUSY
     | Some i \<Rightarrow> let seq = next_seq (ctl_seq st) in
         Inr (i, seq, st\<lparr>ctl_seq := seq,
           ctl_slots := (ctl_slots st)[i := slot_claim seq (ctl_slots st ! i)]\<rparr>))"

definition mk_req :: "u32 \<Rightarrow> u32 \<Rightarrow> int \<Rightarrow> u64 \<Rightarrow> cstring \<Rightarrow> ctl_req" where
  "mk_req seq type pid arg name = \<lparr>req_magic = PROCFS_CTL_MAGIC, req_seq = seq, req_type = type,
     req_pid = pid, req_arg = arg, req_name = strlcpy name PROCFS_CTL_NAMEMAX\<rparr>"

text \<open>What the caller reads from its slot when the wait is over.\<close>

definition ctl_result :: "ctl_slot \<Rightarrow> nat \<Rightarrow> bytes res" where
  "ctl_result s outcap =
     (if slot_done s then
        (if slot_error s = 0 then Inr (take (min (slot_len s) outcap) (slot_buf s))
         else Inl (slot_error s))
      else Inl ETIMEDOUT)"

definition ctl_release :: "nat \<Rightarrow> ctl_state \<Rightarrow> ctl_state" where
  "ctl_release i st = st\<lparr>ctl_slots := (ctl_slots st)[i := (ctl_slots st ! i)\<lparr>in_use := False\<rparr>]\<rparr>"

text \<open>
  The kernel and the rest of the world, as one request meets them: the result of
  \<open>ctl_enqueuedata\<close>, and what happens to the control state between that call and the end of
  the wait (replies, connects, disconnects and requests of other threads). The wait ends when
  the slot is done, or by a timeout or a signal.
\<close>

record ctl_env =
  env_enqueue :: "u32 \<Rightarrow> ctl_req \<Rightarrow> errno"
  env_wait :: "ctl_req \<Rightarrow> ctl_state \<Rightarrow> ctl_state"

definition procfs_ctl_request_impl :: "ctl_env \<Rightarrow> u32 \<Rightarrow> int \<Rightarrow> u64 \<Rightarrow> cstring \<Rightarrow> nat \<Rightarrow>
    ctl_state \<Rightarrow> bytes res \<times> ctl_state" where
  "procfs_ctl_request_impl E type pid arg name outcap st =
     (if \<not> ctl_connected st \<or> \<not> ctl_ref st then (Inl ENOTCONN, st)
      else (case ctl_claim st of Inl e \<Rightarrow> (Inl e, st)
        | Inr (slot, seq, st1) \<Rightarrow>
            let req = mk_req seq type pid arg name;
                e = env_enqueue E (ctl_unit st1) req
            in if e \<noteq> 0 then (Inl e, ctl_release slot st1)
               else let st2 = env_wait E req st1
                    in (ctl_result (ctl_slots st2 ! slot) outcap, ctl_release slot st2)))"

definition procfs_ctl_request :: "ctl_env \<Rightarrow> u32 \<Rightarrow> int \<Rightarrow> u64 \<Rightarrow> nat \<Rightarrow>
    ctl_state \<Rightarrow> bytes res \<times> ctl_state" where
  "procfs_ctl_request E type pid arg outcap st = procfs_ctl_request_impl E type pid arg [] outcap st"

definition procfs_ctl_request_named :: "ctl_env \<Rightarrow> u32 \<Rightarrow> int \<Rightarrow> u64 \<Rightarrow> cstring \<Rightarrow> nat \<Rightarrow>
    ctl_state \<Rightarrow> bytes res \<times> ctl_state" where
  "procfs_ctl_request_named E type pid arg name outcap st =
     procfs_ctl_request_impl E type pid arg name outcap st"

section \<open>Registration\<close>

text \<open>
  \<open>procfs_ctl_register\<close> allocates the lock group and the lock and registers the control; each
  of the three kernel calls may fail, and a failure undoes the ones before it. The booleans are
  the outcomes of the calls; the result says whether registration succeeded and which of the
  two allocations are still held.
\<close>

record ctl_locks =
  ctl_grp :: bool
  ctl_lock :: bool

definition procfs_ctl_register :: "bool \<Rightarrow> bool \<Rightarrow> bool \<Rightarrow> ctl_locks \<times> ctl_state \<Rightarrow>
    bool \<times> ctl_locks \<times> ctl_state" where
  "procfs_ctl_register grp_ok lock_ok reg_ok s = (case s of (l, st) \<Rightarrow>
     if \<not> grp_ok then (False, l\<lparr>ctl_grp := False\<rparr>, st)
     else if \<not> lock_ok then (False, l\<lparr>ctl_grp := False, ctl_lock := False\<rparr>, st)
     else if \<not> reg_ok then (False, l\<lparr>ctl_grp := False, ctl_lock := False\<rparr>, st)
     else (True, l\<lparr>ctl_grp := True, ctl_lock := True\<rparr>, st\<lparr>ctl_ref := True\<rparr>))"

definition procfs_ctl_deregister :: "ctl_locks \<times> ctl_state \<Rightarrow> ctl_locks \<times> ctl_state" where
  "procfs_ctl_deregister s = (case s of (l, st) \<Rightarrow>
     (l\<lparr>ctl_grp := False, ctl_lock := False\<rparr>, st\<lparr>ctl_ref := False, ctl_connected := False\<rparr>))"

section \<open>Clients in the same file\<close>

text \<open>
  A client sees the bridge as a function from the request to an errno or the payload. The
  arguments of \<open>ctl_oracle\<close> are type, pid, argument, MIB name and output capacity.
\<close>

type_synonym ctl_oracle = "u32 \<Rightarrow> int \<Rightarrow> u64 \<Rightarrow> cstring \<Rightarrow> nat \<Rightarrow> bytes res"

abbreviation REQ_CPUSTAT :: u32 where "REQ_CPUSTAT \<equiv> 22"
abbreviation REQ_CPUCLUSTERS :: u32 where "REQ_CPUCLUSTERS \<equiv> 23"

text \<open>
  The chunk loop of \<open>procfs_ctl_request_blob\<close>. It ends at an error or at the first short chunk;
  a daemon that only sends full chunks keeps it running, which is the value \<^const>\<open>None\<close>.
\<close>

partial_function (option) request_blob_loop ::
    "ctl_oracle \<Rightarrow> u32 \<Rightarrow> u64 \<Rightarrow> bytes \<Rightarrow> (errno \<times> bytes) option" where
  "request_blob_loop ctl type offset sb =
     (case ctl type 0 offset [] PROCFS_CTL_MAXPAYLOAD of
        Inl e \<Rightarrow> Some (e, sb)
      | Inr chunk \<Rightarrow>
          if length chunk < PROCFS_CTL_MAXPAYLOAD then Some (0, sb @ chunk)
          else request_blob_loop ctl type (offset + of_nat (length chunk)) (sb @ chunk))"

definition procfs_ctl_request_blob :: "ctl_oracle \<Rightarrow> u32 \<Rightarrow> bytes \<Rightarrow> (errno \<times> bytes) option" where
  "procfs_ctl_request_blob ctl type sb = request_blob_loop ctl type 0 sb"

record procfs_cpu_stat =
  hwirq :: u64
  ipi :: u64
  timer :: u64

definition sizeof_cpu_stat :: nat where "sizeof_cpu_stat = 24"

definition le_u64 :: "bytes \<Rightarrow> u64" where
  "le_u64 bs = of_nat (le_nat (take 8 bs))"

definition cpu_stat_at :: "bytes \<Rightarrow> nat \<Rightarrow> procfs_cpu_stat" where
  "cpu_stat_at buf i = (let b = drop (i * sizeof_cpu_stat) buf in
     \<lparr>hwirq = le_u64 b, ipi = le_u64 (drop 8 b), timer = le_u64 (drop 16 b)\<rparr>)"

definition cpu_stat_zero :: procfs_cpu_stat where
  "cpu_stat_zero = \<lparr>hwirq = 0, ipi = 0, timer = 0\<rparr>"

text \<open>The bounce buffer holds \<open>MAXPAYLOAD / 24 = 85\<close> records, so the capacity is 2040 bytes.\<close>

definition procfs_cpu_stat_all :: "ctl_oracle \<Rightarrow> nat \<Rightarrow> errno \<times> procfs_cpu_stat list" where
  "procfs_cpu_stat_all ctl ncpu =
     (case ctl REQ_CPUSTAT 0 0 []
         (PROCFS_CTL_MAXPAYLOAD div sizeof_cpu_stat * sizeof_cpu_stat) of
        Inl e \<Rightarrow> (e, replicate ncpu cpu_stat_zero)
      | Inr buf \<Rightarrow>
          let have = length buf div sizeof_cpu_stat;
              n = (if have < ncpu then have else ncpu)
          in (0, map (cpu_stat_at buf) [0..<n] @ replicate (ncpu - n) cpu_stat_zero))"

text \<open>Softirq vectors in \<open>/proc/softirqs\<close> order.\<close>

definition PROCFS_NR_SOFTIRQ :: nat where "PROCFS_NR_SOFTIRQ = 10"
definition PROCFS_SOFTIRQ_TIMER :: nat where "PROCFS_SOFTIRQ_TIMER = 1"
definition PROCFS_SOFTIRQ_SCHED :: nat where "PROCFS_SOFTIRQ_SCHED = 7"
definition PROCFS_SOFTIRQ_HRTIMER :: nat where "PROCFS_SOFTIRQ_HRTIMER = 8"

definition procfs_softirq_names :: "cstring list" where
  "procfs_softirq_names = [''HI'', ''TIMER'', ''NET_TX'', ''NET_RX'', ''BLOCK'',
     ''IRQ_POLL'', ''TASKLET'', ''SCHED'', ''HRTIMER'', ''RCU'']"

definition procfs_cpu_softirq_map :: "procfs_cpu_stat \<Rightarrow> u64 list" where
  "procfs_cpu_softirq_map st = ((replicate PROCFS_NR_SOFTIRQ 0)[PROCFS_SOFTIRQ_TIMER := timer st])
     [PROCFS_SOFTIRQ_HRTIMER := timer st, PROCFS_SOFTIRQ_SCHED := ipi st]"

definition procfs_cpu_clusters :: "ctl_oracle \<Rightarrow> nat \<Rightarrow> errno \<times> bytes" where
  "procfs_cpu_clusters ctl ncpu =
     (case ctl REQ_CPUCLUSTERS 0 0 [] 256 of
        Inl e \<Rightarrow> (e, replicate ncpu (CHR ''?''))
      | Inr buf \<Rightarrow>
          let n = (if length buf < ncpu then length buf else ncpu)
          in (0, take n buf @ replicate (ncpu - n) (CHR ''?'')))"

section \<open>All threads together\<close>

record ctl_call =
  call_type :: u32
  call_pid :: int
  call_arg :: u64
  call_name :: cstring
  call_cap :: nat

datatype ctl_pc =
    Idle
  | Entry ctl_call
  | Checked ctl_call
  | Claimed nat ctl_req nat
  | Waiting nat ctl_req nat
  | Releasing nat "bytes res"
  | Returned "bytes res"

type_synonym ctl_sys = "ctl_state \<times> (nat \<Rightarrow> ctl_pc)"

inductive ctl_step :: "ctl_sys \<Rightarrow> ctl_sys \<Rightarrow> bool" where
  Call: "pcs t = Idle \<Longrightarrow> ctl_step (st, pcs) (st, pcs(t := Entry c))"
| NotConnected: "pcs t = Entry c \<Longrightarrow> \<not> ctl_connected st \<or> \<not> ctl_ref st \<Longrightarrow>
    ctl_step (st, pcs) (st, pcs(t := Returned (Inl ENOTCONN)))"
| Connected: "pcs t = Entry c \<Longrightarrow> ctl_connected st \<Longrightarrow> ctl_ref st \<Longrightarrow>
    ctl_step (st, pcs) (st, pcs(t := Checked c))"
| Busy: "pcs t = Checked c \<Longrightarrow> ctl_claim st = Inl e \<Longrightarrow>
    ctl_step (st, pcs) (st, pcs(t := Returned (Inl e)))"
| Claim: "pcs t = Checked c \<Longrightarrow> ctl_claim st = Inr (i, seq, st') \<Longrightarrow>
    ctl_step (st, pcs) (st', pcs(t := Claimed i
      (mk_req seq (call_type c) (call_pid c) (call_arg c) (call_name c)) (call_cap c)))"
| EnqueueFail: "pcs t = Claimed i req cap \<Longrightarrow> e \<noteq> 0 \<Longrightarrow>
    ctl_step (st, pcs) (st, pcs(t := Releasing i (Inl e)))"
| Enqueue: "pcs t = Claimed i req cap \<Longrightarrow>
    ctl_step (st, pcs) (st, pcs(t := Waiting i req cap))"
| Wake: "pcs t = Waiting i req cap \<Longrightarrow>
    ctl_step (st, pcs) (st, pcs(t := Releasing i (ctl_result (ctl_slots st ! i) cap)))"
| Release: "pcs t = Releasing i r \<Longrightarrow>
    ctl_step (st, pcs) (ctl_release i st, pcs(t := Returned r))"
| Return: "pcs t = Returned r \<Longrightarrow> ctl_step (st, pcs) (st, pcs(t := Idle))"
| Connect: "ctl_step (st, pcs) (snd (procfs_ctl_connect u st), pcs)"
| Disconnect: "ctl_step (st, pcs) (snd (procfs_ctl_disconnect st), pcs)"
| Send: "ctl_step (st, pcs) (snd (procfs_ctl_send m st), pcs)"

inductive_cases ctl_stepE: "ctl_step s s'"

inductive ctl_reachable :: "ctl_sys \<Rightarrow> bool" where
  Init: "ctl_reachable (ctl_initial\<lparr>ctl_ref := True\<rparr>, \<lambda>_. Idle)"
| Step: "ctl_reachable s \<Longrightarrow> ctl_step s s' \<Longrightarrow> ctl_reachable s'"

text \<open>The slot a thread holds.\<close>

fun holds :: "ctl_pc \<Rightarrow> nat option" where
  "holds (Claimed i req cap) = Some i"
| "holds (Waiting i req cap) = Some i"
| "holds (Releasing i r) = Some i"
| "holds _ = None"

fun pc_req :: "ctl_pc \<Rightarrow> (nat \<times> ctl_req) option" where
  "pc_req (Claimed i req cap) = Some (i, req)"
| "pc_req (Waiting i req cap) = Some (i, req)"
| "pc_req _ = None"

definition slot_ok :: "ctl_slot \<Rightarrow> bool" where
  "slot_ok s \<longleftrightarrow> length (slot_buf s) = PROCFS_CTL_MAXPAYLOAD \<and> slot_len s \<le> PROCFS_CTL_MAXPAYLOAD"

definition table_ok :: "ctl_state \<Rightarrow> bool" where
  "table_ok st \<longleftrightarrow> length (ctl_slots st) = PROCFS_CTL_SLOTS \<and> (\<forall>s \<in> set (ctl_slots st). slot_ok s)"

definition ctl_inv :: "ctl_sys \<Rightarrow> bool" where
  "ctl_inv s \<longleftrightarrow> (case s of (st, pcs) \<Rightarrow> table_ok st \<and>
     (\<forall>t i. holds (pcs t) = Some i \<longrightarrow> i < PROCFS_CTL_SLOTS \<and> in_use (ctl_slots st ! i)) \<and>
     (\<forall>i < PROCFS_CTL_SLOTS. in_use (ctl_slots st ! i) \<longrightarrow> (\<exists>t. holds (pcs t) = Some i)) \<and>
     (\<forall>t u i. holds (pcs t) = Some i \<longrightarrow> holds (pcs u) = Some i \<longrightarrow> t = u) \<and>
     (\<forall>t i req. pc_req (pcs t) = Some (i, req) \<longrightarrow>
        slot_seq (ctl_slots st ! i) = req_seq req \<and> req_seq req \<noteq> 0))"

section \<open>Encoding lemmas\<close>

lemma length_u32_bytes [simp]: "length (u32_bytes w) = 4"
  by (simp add: u32_bytes_def)

lemma le_u32_bytes [simp]: "le_u32 (u32_bytes w @ rest) = w"
proof -
  have "unat w < 256 ^ 4" using unsigned_less [of w] by simp
  then show ?thesis by (simp add: le_u32_def u32_bytes_def le_nat_le_bytes)
qed

lemma length_encode_resp [simp]: "length (encode_resp r) = sizeof_ctl_resp"
  by (simp add: encode_resp_def sizeof_ctl_resp_def)

lemma decode_encode_resp:
  assumes "- (2 ^ 31) \<le> resp_error r" "resp_error r < 2 ^ 31"
  shows "decode_resp (encode_resp r) = r"
proof -
  have "le_int32 (int32_bytes (resp_error r) @ u32_bytes (resp_len r)) = resp_error r"
    using le_int32_bytes [OF assms] by (simp add: le_int32_def)
  then show ?thesis
    using le_u32_bytes [of "resp_len r" "[]"]
    by (simp add: decode_resp_def encode_resp_def del: le_u32_bytes) (simp add: le_u32_bytes)
qed

section \<open>Slot operations keep the table well formed\<close>

lemma slot_ok_complete: "slot_ok s \<Longrightarrow> plen \<le> PROCFS_CTL_MAXPAYLOAD \<Longrightarrow> slot_ok (slot_complete resp plen m s)"
  by (auto simp: slot_ok_def slot_complete_def mbuf_copydata_def)

lemma length_ctl_deliver [simp]: "length (ctl_deliver resp plen m ss) = length ss"
  by (induction resp plen m ss rule: ctl_deliver.induct) auto

lemma ctl_deliver_set:
  "s \<in> set (ctl_deliver resp plen m ss) \<Longrightarrow> s \<in> set ss \<or> (\<exists>s' \<in> set ss. s = slot_complete resp plen m s')"
  by (induction resp plen m ss rule: ctl_deliver.induct) (auto split: if_splits)

lemma ctl_deliver_nth:
  assumes "i < length ss"
  shows "ctl_deliver resp plen m ss ! i =
    (if in_use (ss ! i) \<and> \<not> slot_done (ss ! i) \<and> slot_seq (ss ! i) = resp_seq resp \<and>
        (\<forall>j < i. \<not> (in_use (ss ! j) \<and> \<not> slot_done (ss ! j) \<and> slot_seq (ss ! j) = resp_seq resp))
     then slot_complete resp plen m (ss ! i) else ss ! i)"
  using assms
proof (induction resp plen m ss arbitrary: i rule: ctl_deliver.induct)
  case (2 resp plen m s ss)
  show ?case
  proof (cases i)
    case (Suc k)
    with 2 show ?thesis
      by (auto simp: less_Suc_eq_0_disj nth_Cons' split: if_splits)
  qed simp
qed simp

lemma slot_complete_simps [simp]:
  "in_use (slot_complete resp plen m s) = in_use s"
  "slot_seq (slot_complete resp plen m s) = slot_seq s"
  "slot_done (slot_complete resp plen m s)"
  "slot_len (slot_complete resp plen m s) = plen"
  "slot_error (slot_complete resp plen m s) = resp_error resp"
  by (simp_all add: slot_complete_def)

lemma slot_disconnect_simps [simp]:
  "in_use (slot_disconnect s) = in_use s"
  "slot_seq (slot_disconnect s) = slot_seq s"
  "slot_ok (slot_disconnect s) = slot_ok s"
  by (simp_all add: slot_disconnect_def slot_ok_def)

text \<open>What the callbacks leave alone.\<close>

definition same_slots :: "ctl_state \<Rightarrow> ctl_state \<Rightarrow> bool" where
  "same_slots st st' \<longleftrightarrow> length (ctl_slots st') = length (ctl_slots st) \<and>
     (\<forall>i < length (ctl_slots st). in_use (ctl_slots st' ! i) = in_use (ctl_slots st ! i) \<and>
        slot_seq (ctl_slots st' ! i) = slot_seq (ctl_slots st ! i)) \<and>
     (table_ok st \<longrightarrow> table_ok st')"

lemma same_slots_connect: "same_slots st (snd (procfs_ctl_connect u st))"
  by (simp add: same_slots_def procfs_ctl_connect_def table_ok_def)

lemma same_slots_disconnect: "same_slots st (snd (procfs_ctl_disconnect st))"
  by (auto simp: same_slots_def procfs_ctl_disconnect_def table_ok_def)

lemma same_slots_deliver:
  "plen \<le> PROCFS_CTL_MAXPAYLOAD \<Longrightarrow>
     same_slots st (st\<lparr>ctl_slots := ctl_deliver resp plen m (ctl_slots st)\<rparr>)"
  by (auto simp: same_slots_def table_ok_def ctl_deliver_nth dest!: ctl_deliver_set intro: slot_ok_complete)

lemma same_slots_refl: "same_slots st st"
  by (simp add: same_slots_def)

lemma same_slots_send: "same_slots st (snd (procfs_ctl_send m st))"
  by (auto simp: procfs_ctl_send_def Let_def same_slots_refl split: option.splits intro!: same_slots_deliver)

lemma first_free_Some:
  "first_free ss = Some i \<Longrightarrow> i < length ss \<and> \<not> in_use (ss ! i) \<and> (\<forall>j < i. in_use (ss ! j))"
proof (induction ss arbitrary: i)
  case (Cons s ss)
  show ?case
  proof (cases "in_use s")
    case True
    with Cons.prems obtain k where "i = Suc k" "first_free ss = Some k" by auto
    with Cons.IH True show ?thesis by (auto simp: less_Suc_eq_0_disj)
  next
    case False
    with Cons.prems show ?thesis by auto
  qed
qed simp

lemma first_free_None: "first_free ss = None \<longleftrightarrow> (\<forall>s \<in> set ss. in_use s)"
  by (induction ss) auto

lemma next_seq_nonzero [simp]: "next_seq s \<noteq> 0"
  by (auto simp: next_seq_def)

lemma table_ok_update:
  "table_ok st \<Longrightarrow> slot_ok s \<Longrightarrow> table_ok (st\<lparr>ctl_slots := (ctl_slots st)[i := s]\<rparr>)"
  by (auto simp: table_ok_def dest!: subsetD [OF set_update_subset_insert])

lemma slot_ok_nth: "table_ok st \<Longrightarrow> i < PROCFS_CTL_SLOTS \<Longrightarrow> slot_ok (ctl_slots st ! i)"
  by (simp add: table_ok_def)

section \<open>Invariant of the system\<close>

lemma pc_req_holds: "pc_req p = Some (i, r) \<Longrightarrow> holds p = Some i"
  by (cases p) auto

lemma ctl_invI:
  assumes "table_ok st"
    and "\<And>t i. holds (pcs t) = Some i \<Longrightarrow> i < PROCFS_CTL_SLOTS \<and> in_use (ctl_slots st ! i)"
    and "\<And>i. i < PROCFS_CTL_SLOTS \<Longrightarrow> in_use (ctl_slots st ! i) \<Longrightarrow> \<exists>t. holds (pcs t) = Some i"
    and "\<And>t u i. holds (pcs t) = Some i \<Longrightarrow> holds (pcs u) = Some i \<Longrightarrow> t = u"
    and "\<And>t i req. pc_req (pcs t) = Some (i, req) \<Longrightarrow>
      slot_seq (ctl_slots st ! i) = req_seq req \<and> req_seq req \<noteq> 0"
  shows "ctl_inv (st, pcs)"
  unfolding ctl_inv_def using assms by blast

lemma ctl_invD:
  assumes "ctl_inv (st, pcs)"
  shows "table_ok st"
    and "\<And>t i. holds (pcs t) = Some i \<Longrightarrow> i < PROCFS_CTL_SLOTS \<and> in_use (ctl_slots st ! i)"
    and "\<And>i. i < PROCFS_CTL_SLOTS \<Longrightarrow> in_use (ctl_slots st ! i) \<Longrightarrow> \<exists>t. holds (pcs t) = Some i"
    and "\<And>t u i. holds (pcs t) = Some i \<Longrightarrow> holds (pcs u) = Some i \<Longrightarrow> t = u"
    and "\<And>t i req. pc_req (pcs t) = Some (i, req) \<Longrightarrow>
      slot_seq (ctl_slots st ! i) = req_seq req \<and> req_seq req \<noteq> 0"
  using assms unfolding ctl_inv_def by blast+

lemma ctl_inv_callback:
  assumes inv: "ctl_inv (st, pcs)" and same: "same_slots st st'"
  shows "ctl_inv (st', pcs)"
proof -
  note D = ctl_invD [OF inv]
  have len: "length (ctl_slots st) = PROCFS_CTL_SLOTS" using D(1) by (simp add: table_ok_def)
  have eq: "in_use (ctl_slots st' ! i) = in_use (ctl_slots st ! i)"
    "slot_seq (ctl_slots st' ! i) = slot_seq (ctl_slots st ! i)" if "i < PROCFS_CTL_SLOTS" for i
    using same that len by (simp_all add: same_slots_def)
  show ?thesis
  proof (rule ctl_invI)
    show "table_ok st'" using same D(1) by (simp add: same_slots_def)
    show "i < PROCFS_CTL_SLOTS \<and> in_use (ctl_slots st' ! i)" if "holds (pcs t) = Some i" for t i
      using D(2) [OF that] eq by simp
    show "\<exists>t. holds (pcs t) = Some i" if "i < PROCFS_CTL_SLOTS" "in_use (ctl_slots st' ! i)" for i
      using D(3) that eq by simp
    show "t = u" if "holds (pcs t) = Some i" "holds (pcs u) = Some i" for t u i
      using D(4) that by blast
    show "slot_seq (ctl_slots st' ! i) = req_seq req \<and> req_seq req \<noteq> 0"
      if "pc_req (pcs t) = Some (i, req)" for t i req
      using D(5) [OF that] D(2) [OF pc_req_holds [OF that]] eq by simp
  qed
qed

text \<open>A step that moves one thread and neither takes nor gives back a slot.\<close>

lemma ctl_inv_move:
  assumes inv: "ctl_inv (st, pcs)" and same: "holds q = holds (pcs t)"
    and req: "\<And>i r. pc_req q = Some (i, r) \<Longrightarrow> pc_req (pcs t) = Some (i, r)"
  shows "ctl_inv (st, pcs(t := q))"
proof -
  note D = ctl_invD [OF inv]
  have h: "holds ((pcs(t := q)) u) = holds (pcs u)" for u using same by simp
  show ?thesis
  proof (rule ctl_invI)
    show "slot_seq (ctl_slots st ! i) = req_seq r \<and> req_seq r \<noteq> 0"
      if "pc_req ((pcs(t := q)) u) = Some (i, r)" for u i r
      using that req D(5) by (cases "u = t") auto
  qed (use D h in \<open>blast+ | simp\<close>)+
qed

lemma ctl_claim_Inr:
  "ctl_claim st = Inr (i, seq, st') \<longleftrightarrow> first_free (ctl_slots st) = Some i \<and> seq = next_seq (ctl_seq st) \<and>
     st' = st\<lparr>ctl_seq := seq, ctl_slots := (ctl_slots st)[i := slot_claim seq (ctl_slots st ! i)]\<rparr>"
  by (auto simp: ctl_claim_def Let_def split: option.splits)

lemma ctl_inv_claim:
  assumes inv: "ctl_inv (st, pcs)" and free: "holds (pcs t) = None"
    and claim: "ctl_claim st = Inr (i, seq, st')"
    and q: "pc_req q = Some (i, r)" "req_seq r = seq"
  shows "ctl_inv (st', pcs(t := q))"
proof -
  note D = ctl_invD [OF inv]
  have len: "length (ctl_slots st) = PROCFS_CTL_SLOTS" using D(1) by (simp add: table_ok_def)
  from claim have ff: "first_free (ctl_slots st) = Some i" and seq: "seq = next_seq (ctl_seq st)"
    and st': "st' = st\<lparr>ctl_seq := seq, ctl_slots := (ctl_slots st)[i := slot_claim seq (ctl_slots st ! i)]\<rparr>"
    by (auto simp: ctl_claim_Inr)
  from first_free_Some [OF ff] len have i: "i < PROCFS_CTL_SLOTS" "\<not> in_use (ctl_slots st ! i)" by auto
  have nth: "ctl_slots st' ! j = (if j = i then slot_claim seq (ctl_slots st ! i) else ctl_slots st ! j)" for j
    using i len by (simp add: st')
  have new: "in_use (ctl_slots st' ! i)" "slot_seq (ctl_slots st' ! i) = seq" using nth [of i]
    by (simp_all add: slot_claim_def)
  have fresh: "holds (pcs u) \<noteq> Some i" for u using D(2) i(2) by blast
  have hq: "holds q = Some i" using pc_req_holds [OF q(1)] .
  show ?thesis
  proof (rule ctl_invI)
    have "slot_ok (slot_claim seq (ctl_slots st ! i))"
      using slot_ok_nth [OF D(1) i(1)] by (simp add: slot_ok_def slot_claim_def)
    then show "table_ok st'" using D(1) table_ok_update [OF D(1)] by (simp add: st' table_ok_def)
    show "j < PROCFS_CTL_SLOTS \<and> in_use (ctl_slots st' ! j)" if "holds ((pcs(t := q)) u) = Some j" for u j
      using that hq D(2) [of u j] new i nth [of j] by (cases "u = t") (auto split: if_splits)
    show "\<exists>u. holds ((pcs(t := q)) u) = Some j" if "j < PROCFS_CTL_SLOTS" "in_use (ctl_slots st' ! j)" for j
    proof (cases "j = i")
      case True
      then show ?thesis using hq by (intro exI [of _ t]) simp
    next
      case False
      with that nth [of j] D(3) obtain u where "holds (pcs u) = Some j" by auto
      then show ?thesis using free by (intro exI [of _ u]) auto
    qed
    show "u = v" if "holds ((pcs(t := q)) u) = Some j" "holds ((pcs(t := q)) v) = Some j" for u v j
      using that hq fresh D(4) by (auto split: if_splits)
    show "slot_seq (ctl_slots st' ! j) = req_seq r' \<and> req_seq r' \<noteq> 0"
      if "pc_req ((pcs(t := q)) u) = Some (j, r')" for u j r'
    proof (cases "u = t")
      case True
      then show ?thesis using that q new seq by auto
    next
      case False
      with that have p: "pc_req (pcs u) = Some (j, r')" by simp
      then have "j \<noteq> i" using pc_req_holds [OF p] fresh by auto
      then show ?thesis using D(5) [OF p] nth [of j] by simp
    qed
  qed
qed

lemma ctl_inv_release:
  assumes inv: "ctl_inv (st, pcs)" and hold: "holds (pcs t) = Some i"
    and q: "holds q = None" "pc_req q = None"
  shows "ctl_inv (ctl_release i st, pcs(t := q))"
proof -
  note D = ctl_invD [OF inv]
  have len: "length (ctl_slots st) = PROCFS_CTL_SLOTS" using D(1) by (simp add: table_ok_def)
  have i: "i < PROCFS_CTL_SLOTS" using D(2) [OF hold] by simp
  have nth: "ctl_slots (ctl_release i st) ! j =
      (if j = i then (ctl_slots st ! i)\<lparr>in_use := False\<rparr> else ctl_slots st ! j)" for j
    using i len by (simp add: ctl_release_def)
  have other: "j \<noteq> i" if "holds (pcs u) = Some j" "u \<noteq> t" for u j
    using D(4) [OF _ hold, of u] that by auto
  show ?thesis
  proof (rule ctl_invI)
    have "slot_ok ((ctl_slots st ! i)\<lparr>in_use := False\<rparr>)"
      using slot_ok_nth [OF D(1) i] by (simp add: slot_ok_def)
    then show "table_ok (ctl_release i st)"
      unfolding ctl_release_def by (rule table_ok_update [OF D(1)])
    show "j < PROCFS_CTL_SLOTS \<and> in_use (ctl_slots (ctl_release i st) ! j)"
      if "holds ((pcs(t := q)) u) = Some j" for u j
      using that q D(2) [of u j] other [of u j] nth [of j] by (auto split: if_splits)
    show "\<exists>u. holds ((pcs(t := q)) u) = Some j"
      if "j < PROCFS_CTL_SLOTS" "in_use (ctl_slots (ctl_release i st) ! j)" for j
    proof -
      from that nth [of j] have "j \<noteq> i" "in_use (ctl_slots st ! j)" by (auto split: if_splits)
      with that D(3) obtain u where u: "holds (pcs u) = Some j" by blast
      with hold \<open>j \<noteq> i\<close> show ?thesis by (intro exI [of _ u]) auto
    qed
    show "u = v" if "holds ((pcs(t := q)) u) = Some j" "holds ((pcs(t := q)) v) = Some j" for u v j
      using that q D(4) by (auto split: if_splits)
    show "slot_seq (ctl_slots (ctl_release i st) ! j) = req_seq r \<and> req_seq r \<noteq> 0"
      if "pc_req ((pcs(t := q)) u) = Some (j, r)" for u j r
      using that q D(5) [of u j r] other [of u j] pc_req_holds [of "pcs u" j r] nth [of j]
      by (auto split: if_splits)
  qed
qed

lemma ctl_inv_step: "ctl_step s s' \<Longrightarrow> ctl_inv s \<Longrightarrow> ctl_inv s'"
proof (induction rule: ctl_step.induct)
  case (Claim pcs t c st i seq st')
  then show ?case by (intro ctl_inv_claim) (auto simp: mk_req_def)
next
  case (Release pcs t i r st)
  then show ?case by (intro ctl_inv_release) auto
qed (auto intro: ctl_inv_move ctl_inv_callback same_slots_connect same_slots_disconnect same_slots_send)

lemma ctl_reachable_inv: "ctl_reachable s \<Longrightarrow> ctl_inv s"
proof (induction rule: ctl_reachable.induct)
  case Init
  show ?case
    by (rule ctl_invI)
      (auto simp: table_ok_def slot_ok_def ctl_initial_def slot_initial_def)
next
  case (Step s s')
  then show ?case by (blast intro: ctl_inv_step)
qed

section \<open>Sequence numbers\<close>

abbreviation seq_cycle :: nat where "seq_cycle \<equiv> 2 ^ 32 - 1"

lemma unat_next_seq: "s \<noteq> 0 \<Longrightarrow> unat (next_seq s) - 1 = (unat s - 1 + 1) mod seq_cycle"
proof -
  assume "s \<noteq> 0"
  then have pos: "0 < unat s" by (simp add: unat_gt_0)
  have lt: "unat s < 2 ^ 32" using unsigned_less [of s] by simp
  show ?thesis
  proof (cases "s + 1 = 0")
    case True
    then have "s = - 1" by (simp add: eq_neg_iff_add_eq_0)
    then show ?thesis by (simp add: next_seq_def unsigned_minus_1_eq_mask mask_eq_exp_minus_1)
  next
    case False
    then have "unat (s + 1) = unat s + 1" by (simp add: unatSuc add.commute)
    moreover have "unat s \<noteq> seq_cycle"
    proof
      assume "unat s = seq_cycle"
      then have "unat (s + 1) = 2 ^ 32" using calculation by simp
      then show False using unsigned_less [of "s + 1", where ?'a = nat] by simp
    qed
    ultimately show ?thesis using False pos lt by (simp add: next_seq_def)
  qed
qed

lemma next_seq_iterate:
  "s \<noteq> 0 \<Longrightarrow> (next_seq ^^ k) s \<noteq> 0 \<and> unat ((next_seq ^^ k) s) - 1 = (unat s - 1 + k) mod seq_cycle"
proof (induction k)
  case 0
  have "unat s < 2 ^ 32" using unsigned_less [of s] by simp
  moreover have "0 < unat s" using 0 by (simp add: unat_gt_0)
  ultimately have "unat s - 1 < seq_cycle" by simp
  with 0 show ?case by simp
next
  case (Suc k)
  then have "(next_seq ^^ k) s \<noteq> 0"
    and "unat ((next_seq ^^ k) s) - 1 = (unat s - 1 + k) mod seq_cycle" by auto
  then show ?case using unat_next_seq [of "(next_seq ^^ k) s"] by (simp add: mod_simps)
qed

section \<open>Delivery of a reply\<close>

lemma take_min_append: "take (min (length xs) n) (xs @ ys) = take n xs"
  by (simp add: min_def)

lemma ctl_result_len: "ctl_result s cap = Inr d \<Longrightarrow> length d \<le> cap"
  by (auto simp: ctl_result_def split: if_splits)

lemma ctl_result_payload: "slot_ok s \<Longrightarrow> ctl_result s cap = Inr d \<Longrightarrow> length d \<le> PROCFS_CTL_MAXPAYLOAD"
  by (auto simp: ctl_result_def slot_ok_def split: if_splits)

text \<open>The reply of a daemon that answers with \<open>payload\<close>.\<close>

definition reply :: "u32 \<Rightarrow> int \<Rightarrow> bytes \<Rightarrow> bytes" where
  "reply seq err payload = encode_resp \<lparr>resp_magic = PROCFS_CTL_MAGIC, resp_seq = seq,
     resp_error = err, resp_len = of_nat (length payload)\<rparr> @ payload"

lemma send_reply:
  assumes "length payload \<le> PROCFS_CTL_MAXPAYLOAD" and "- (2 ^ 31) \<le> err" "err < 2 ^ 31"
  shows "procfs_ctl_send (reply seq err payload) st =
    (0, st\<lparr>ctl_slots := ctl_deliver \<lparr>resp_magic = PROCFS_CTL_MAGIC, resp_seq = seq,
       resp_error = err, resp_len = of_nat (length payload)\<rparr> (length payload)
       (reply seq err payload) (ctl_slots st)\<rparr>)"
proof -
  let ?r = "\<lparr>resp_magic = PROCFS_CTL_MAGIC, resp_seq = seq, resp_error = err,
    resp_len = of_nat (length payload) :: u32\<rparr>"
  have "mbuf_copydata (reply seq err payload) 0 sizeof_ctl_resp = Some (encode_resp ?r)"
    by (simp add: mbuf_copydata_def reply_def)
  moreover have "decode_resp (encode_resp ?r) = ?r"
    using assms by (intro decode_encode_resp) simp_all
  moreover have "unat (of_nat (length payload) :: u32) = length payload"
    using assms(1) by (simp add: unat_of_nat take_bit_nat_eq_self PROCFS_CTL_MAXPAYLOAD_def)
  ultimately show ?thesis
    using assms(1) by (simp add: procfs_ctl_send_def reply_def min_def Let_def)
qed

text \<open>The slot completed by a reply yields the reply's payload, cut to the caller's capacity.\<close>

lemma result_of_reply:
  assumes "slot_ok s" and "length payload \<le> PROCFS_CTL_MAXPAYLOAD"
  shows "ctl_result (slot_complete r (length payload) (reply seq err payload) s) cap =
    (if resp_error r = 0 then Inr (take cap payload) else Inl (resp_error r))"
proof -
  let ?s = "slot_complete r (length payload) (reply seq err payload) s"
  have "\<exists>rest. slot_buf ?s = payload @ rest"
    using assms by (auto simp: slot_complete_def mbuf_copydata_def reply_def slot_ok_def)
  then have "take (min (length payload) cap) (slot_buf ?s) = take cap payload"
    using take_min_append by metis
  then show ?thesis by (simp add: ctl_result_def)
qed

text \<open>The first slot waiting for the sequence number is the one a fresh claim has just taken.\<close>

definition seq_fresh :: "ctl_state \<Rightarrow> u32 \<Rightarrow> bool" where
  "seq_fresh st seq \<longleftrightarrow> (\<forall>s \<in> set (ctl_slots st). in_use s \<longrightarrow> \<not> slot_done s \<longrightarrow> slot_seq s \<noteq> seq)"

lemma deliver_to_claim:
  assumes "first_free (ctl_slots st) = Some i" and "seq_fresh st seq" and "resp_seq r = seq"
  shows "ctl_deliver r plen m ((ctl_slots st)[i := slot_claim seq (ctl_slots st ! i)]) ! i =
    slot_complete r plen m (slot_claim seq (ctl_slots st ! i))"
proof -
  have i: "i < length (ctl_slots st)" using first_free_Some [OF assms(1)] by simp
  have "\<not> (in_use (ctl_slots st ! j) \<and> \<not> slot_done (ctl_slots st ! j) \<and> slot_seq (ctl_slots st ! j) = seq)"
    if "j < i" for j
    using assms(2) nth_mem [of j "ctl_slots st"] that i by (auto simp: seq_fresh_def)
  then show ?thesis
    using i assms(3) by (subst ctl_deliver_nth) (auto simp: slot_claim_def)
qed

lemma request_answered:
  assumes "ctl_connected st" "ctl_ref st" "table_ok st"
    and "first_free (ctl_slots st) = Some i" and "seq_fresh st (next_seq (ctl_seq st))"
    and req: "req = mk_req (next_seq (ctl_seq st)) type pid arg name"
    and "\<And>u. env_enqueue E u req = 0"
    and wait: "\<And>st. env_wait E req st = snd (procfs_ctl_send (reply (req_seq req) err payload) st)"
    and len: "length payload \<le> PROCFS_CTL_MAXPAYLOAD"
    and err: "- (2 ^ 31) \<le> err" "err < 2 ^ 31"
  shows "fst (procfs_ctl_request_impl E type pid arg name cap st) =
    (if err = 0 then Inr (take cap payload) else Inl err)"
proof -
  let ?seq = "next_seq (ctl_seq st)"
  let ?st1 = "st\<lparr>ctl_seq := ?seq, ctl_slots := (ctl_slots st)[i := slot_claim ?seq (ctl_slots st ! i)]\<rparr>"
  have claim: "ctl_claim st = Inr (i, ?seq, ?st1)" using assms(4) by (simp add: ctl_claim_Inr)
  have seq: "req_seq req = ?seq" by (simp add: req mk_req_def)
  have "slot_ok (ctl_slots st ! i)"
    using assms(3) first_free_Some [OF assms(4)] by (simp add: table_ok_def)
  then have "slot_ok (slot_claim ?seq (ctl_slots st ! i))" by (simp add: slot_ok_def slot_claim_def)
  moreover have "env_wait E req ?st1 = ?st1\<lparr>ctl_slots := ctl_deliver
      \<lparr>resp_magic = PROCFS_CTL_MAGIC, resp_seq = ?seq, resp_error = err,
       resp_len = of_nat (length payload)\<rparr> (length payload)
       (reply ?seq err payload) (ctl_slots ?st1)\<rparr>"
    by (simp add: wait seq send_reply [OF len err])
  ultimately show ?thesis
    using assms(1,2) claim deliver_to_claim [OF assms(4,5)] result_of_reply [OF _ len]
    by (simp add: procfs_ctl_request_impl_def assms(7) Let_def flip: req)
qed

section \<open>The bridge as its clients see it\<close>

locale ctl_bridge =
  fixes request :: ctl_oracle
  assumes request_len: "request ty pid arg nm cap = Inr d \<Longrightarrow> length d \<le> cap"
begin

lemma blob_short_chunk:
  assumes "request ty 0 off [] PROCFS_CTL_MAXPAYLOAD = Inr d"
  shows "length d = PROCFS_CTL_MAXPAYLOAD \<or> request_blob_loop request ty off sb = Some (0, sb @ d)"
  using request_len [OF assms] assms by (subst request_blob_loop.simps) auto

lemma cpu_clusters_length: "length (snd (procfs_cpu_clusters request n)) = n"
  by (simp add: procfs_cpu_clusters_def Let_def split: sum.splits)

end

interpretation kctl: ctl_bridge "\<lambda>ty pid arg nm cap. fst (procfs_ctl_request_impl E ty pid arg nm cap st)"
  for E st
proof
  fix ty pid arg nm cap d
  assume "fst (procfs_ctl_request_impl E ty pid arg nm cap st) = Inr d"
  then show "length d \<le> cap"
    by (auto simp: procfs_ctl_request_impl_def Let_def split: if_splits sum.splits dest: ctl_result_len)
qed

section \<open>Leaving a request\<close>

text \<open>A thread inside a request can always run it to the end by its own steps.\<close>

definition can_return :: "nat \<Rightarrow> ctl_sys \<Rightarrow> bool" where
  "can_return t s \<longleftrightarrow> (case s of (st, pcs) \<Rightarrow>
     \<exists>st' r. ctl_step\<^sup>*\<^sup>* (st, pcs) (st', pcs(t := Returned r)))"

lemma can_return_done: "ctl_step (st, pcs) (st', pcs(t := Returned r)) \<Longrightarrow> can_return t (st, pcs)"
  by (auto simp: can_return_def)

lemma can_return_step:
  "ctl_step (st, pcs) (st', pcs(t := q)) \<Longrightarrow> can_return t (st', pcs(t := q)) \<Longrightarrow> can_return t (st, pcs)"
  by (auto simp: can_return_def intro: converse_rtranclp_into_rtranclp)

lemma can_return_releasing: "pcs t = Releasing i x \<Longrightarrow> can_return t (st, pcs)"
  by (rule can_return_done [OF ctl_step.Release])

lemma can_return_waiting: "pcs t = Waiting i q c \<Longrightarrow> can_return t (st, pcs)"
  by (rule can_return_step [OF ctl_step.Wake]) (auto intro: can_return_releasing)

lemma can_return_claimed: "pcs t = Claimed i q c \<Longrightarrow> can_return t (st, pcs)"
  by (rule can_return_step [OF ctl_step.Enqueue]) (auto intro: can_return_waiting)

lemma can_return_checked:
  assumes "pcs t = Checked c"
  shows "can_return t (st, pcs)"
proof (cases "ctl_claim st")
  case (Inl e)
  with assms show ?thesis by (intro can_return_done [OF ctl_step.Busy])
next
  case (Inr x)
  then obtain i seq st1 where claim: "ctl_claim st = Inr (i, seq, st1)" by (cases x) auto
  show ?thesis
    by (rule can_return_step [OF ctl_step.Claim [of pcs t, OF assms claim]]) (auto intro: can_return_claimed)
qed

lemma can_return_entry:
  assumes "pcs t = Entry c"
  shows "can_return t (st, pcs)"
proof (cases "ctl_connected st \<and> ctl_ref st")
  case True
  then show ?thesis
    by (intro can_return_step [OF ctl_step.Connected [of pcs t, OF assms]]) (auto intro: can_return_checked)
next
  case False
  with assms show ?thesis by (intro can_return_done [OF ctl_step.NotConnected]) auto
qed

lemma request_finishes: "pcs t \<noteq> Idle \<Longrightarrow> can_return t (st, pcs)"
proof (cases "pcs t")
  case (Returned r)
  then have "pcs(t := Returned r) = pcs" by auto
  then have "ctl_step\<^sup>*\<^sup>* (st, pcs) (st, pcs(t := Returned r))" by simp
  then show ?thesis unfolding can_return_def by blast
qed (auto intro: can_return_entry can_return_checked can_return_claimed can_return_waiting
    can_return_releasing)

section \<open>Properties\<close>

text \<open>
  C2: in every reachable state of the bridge a slot belongs to at most one thread, a slot marked
  in use belongs to some thread (none is ever leaked), and the slot of a thread that waits for
  its answer still carries the sequence number the thread sent, which is not 0.
\<close>

theorem ctl_slots_exclusive:
  assumes "ctl_reachable (st, pcs)"
  shows "(\<forall>t u i. holds (pcs t) = Some i \<longrightarrow> holds (pcs u) = Some i \<longrightarrow> t = u) \<and>
    (\<forall>i < PROCFS_CTL_SLOTS. in_use (ctl_slots st ! i) = (\<exists>t. holds (pcs t) = Some i)) \<and>
    (\<forall>t i req cap. pcs t = Waiting i req cap \<longrightarrow>
       slot_seq (ctl_slots st ! i) = req_seq req \<and> req_seq req \<noteq> 0)"
proof -
  note D = ctl_invD [OF ctl_reachable_inv [OF assms]]
  have "slot_seq (ctl_slots st ! i) = req_seq req \<and> req_seq req \<noteq> 0"
    if "pcs t = Waiting i req cap" for t i req cap
    using D(5) [of t i req] that by simp
  then show ?thesis using D(2,3,4) by blast
qed

definition demo_call :: ctl_call where
  "demo_call = \<lparr>call_type = 1, call_pid = 1, call_arg = 0, call_name = [], call_cap = 96\<rparr>"

lemma demo_reachable:
  "ctl_reachable (snd (procfs_ctl_connect 1 (ctl_initial\<lparr>ctl_ref := True\<rparr>)),
     (\<lambda>_. Idle)(0 := Checked demo_call))"
proof -
  have "ctl_reachable (snd (procfs_ctl_connect 1 (ctl_initial\<lparr>ctl_ref := True\<rparr>)), \<lambda>_. Idle)"
    by (rule ctl_reachable.Step [OF ctl_reachable.Init ctl_step.Connect])
  from ctl_reachable.Step [OF this ctl_step.Call [of "\<lambda>_. Idle" 0 _ demo_call]]
  have "ctl_reachable (snd (procfs_ctl_connect 1 (ctl_initial\<lparr>ctl_ref := True\<rparr>)), (\<lambda>_. Idle)(0 := Entry demo_call))"
    by simp
  from ctl_reachable.Step [OF this ctl_step.Connected [of _ 0 demo_call]]
  show ?thesis by (simp add: procfs_ctl_connect_def)
qed

lemma demo_claimed:
  "\<exists>st i req cap. ctl_reachable (st, (\<lambda>_. Idle)(0 := Claimed i req cap))"
proof -
  let ?st = "snd (procfs_ctl_connect 1 (ctl_initial\<lparr>ctl_ref := True\<rparr>))"
  have "first_free (ctl_slots ?st) = Some 0"
    by (simp add: procfs_ctl_connect_def ctl_initial_def PROCFS_CTL_SLOTS_def slot_initial_def
        numeral_eq_Suc)
  then obtain st' where "ctl_claim ?st = Inr (0, next_seq (ctl_seq ?st), st')"
    by (simp add: ctl_claim_Inr)
  from ctl_reachable.Step [OF demo_reachable ctl_step.Claim [OF _ this, of _ 0 demo_call]]
  show ?thesis by auto
qed

theorem ctl_slots_exclusive_witness:
  "\<exists>st i req cap. ctl_reachable (st, (\<lambda>_. Idle)(0 := Waiting i req cap)) \<and>
     slot_seq (ctl_slots st ! i) = req_seq req"
proof -
  obtain st i req cap where r: "ctl_reachable (st, (\<lambda>_. Idle)(0 := Claimed i req cap))"
    using demo_claimed by blast
  have "ctl_reachable (st, (\<lambda>_. Idle)(0 := Waiting i req cap))"
    using ctl_reachable.Step [OF r ctl_step.Enqueue [of _ 0 i req cap]] by simp
  moreover from ctl_slots_exclusive [OF this] have "slot_seq (ctl_slots st ! i) = req_seq req"
    by (elim conjE allE [of _ 0] allE [of _ i] allE [of _ req] allE [of _ cap]) simp
  ultimately show ?thesis by blast
qed


definition demo_state :: ctl_state where
  "demo_state = ctl_initial\<lparr>ctl_ref := True, ctl_connected := True,
     ctl_slots := (ctl_slots ctl_initial)[2 := slot_claim 7 slot_initial]\<rparr>"


text \<open>
  C16: sequence numbers do not repeat for \<open>2 ^ 32 - 1\<close> requests: a number comes back only after
  every other nonzero number has been used, and 0 never comes up.
\<close>

theorem next_seq_no_repeat:
  assumes "s \<noteq> 0" and "0 < k" and "k < 2 ^ 32 - 1"
  shows "(next_seq ^^ k) s \<noteq> s \<and> (next_seq ^^ k) s \<noteq> 0"
proof -
  note it = next_seq_iterate [OF assms(1), of k]
  have "unat s < 2 ^ 32" using unsigned_less [of s, where ?'a = nat] by simp
  moreover have "0 < unat s" using assms(1) by (simp add: unat_gt_0)
  ultimately have lt: "unat s - 1 < seq_cycle" by simp
  have "(unat s - 1 + k) mod seq_cycle \<noteq> unat s - 1"
  proof (cases "unat s - 1 + k < seq_cycle")
    case True
    then show ?thesis using assms(2) by simp
  next
    case False
    then have "(unat s - 1 + k) mod seq_cycle = unat s - 1 + k - seq_cycle"
      using lt assms(3) by (simp add: mod_if)
    moreover have "unat s - 1 + k - seq_cycle \<noteq> unat s - 1" using False assms(2,3) by linarith
    ultimately show ?thesis by simp
  qed
  then show ?thesis using it by auto
qed

theorem next_seq_no_repeat_witness: "(next_seq ^^ 2) (- 1) \<noteq> (- 1 :: u32)"
  using next_seq_no_repeat [of "- 1" 2] by simp



end
