(* ===== verification/Procfsd.thy ===== *)
theory Procfsd
  imports Ctl
begin

text \<open>
  The daemon's end of the bridge, \<open>tools/procfsd.c\<close>: receiving a request, dispatching it and
  sending the reply. What the daemon asks the system for (\<open>proc_pidinfo\<close>, \<open>sysctl\<close>, \<dots>) is the
  record \<open>os\<close>; the listings the \<open>build_\<dots>\<close> functions format are its field \<open>os_build\<close>, and the
  replies computed from floating point, the power registry or a kernel symbol file (load average,
  APM, symbol lookup) its field \<open>os_other\<close>.
  The properties join both ends: what a kext request returns when this daemon answers it, and
  that the chunked transfer of a listing hands over exactly the listing.
\<close>

section \<open>The request on the wire\<close>

definition sizeof_ctl_req :: nat where "sizeof_ctl_req = 280"

definition u64_bytes :: "u64 \<Rightarrow> bytes" where
  "u64_bytes w = le_bytes 8 (unat w)"

definition encode_req :: "ctl_req \<Rightarrow> bytes" where
  "encode_req r = u32_bytes (req_magic r) @ u32_bytes (req_seq r) @ u32_bytes (req_type r) @
     int32_bytes (req_pid r) @ u64_bytes (req_arg r) @
     take PROCFS_CTL_NAMEMAX (req_name r @ replicate PROCFS_CTL_NAMEMAX NUL)"

definition decode_req :: "bytes \<Rightarrow> ctl_req" where
  "decode_req bs = \<lparr>req_magic = le_u32 bs, req_seq = le_u32 (drop 4 bs),
     req_type = le_u32 (drop 8 bs), req_pid = le_int32 (drop 12 bs),
     req_arg = le_u64 (drop 16 bs),
     req_name = takeWhile (\<lambda>c. c \<noteq> NUL) (take PROCFS_CTL_NAMEMAX (drop 24 bs))\<rparr>"

section \<open>Handlers\<close>

text \<open>
  \<open>proc_pidinfo\<close> and its relatives return the byte count they filled in, or a negative count
  with \<open>errno\<close> set; the model's result is the triple of count, errno and data.
\<close>

type_synonym pidinfo = "int \<times> errno \<times> bytes"

text \<open>A region of a task as \<open>mach_vm_region\<close> reports it, and one record of a MAPS reply.\<close>

record vm_basic =
  vb_start :: u64
  vb_size :: u64
  vb_offset :: u64
  vb_protection :: u32
  vb_max_protection :: u32
  vb_user_wired :: u32
  vb_shared :: u32

record vm_extended =
  ve_share_mode :: u32
  ve_pages_resident :: u32
  ve_pages_dirtied :: u32
  ve_pages_swapped_out :: u32
  ve_external_pager :: u32

record map_region =
  mr_start :: u64
  mr_size :: u64
  mr_offset :: u64
  mr_prot :: u32
  mr_max_prot :: u32
  mr_user_wired :: u32
  mr_share_mode :: u32
  mr_resident_pages :: u32
  mr_dirty_pages :: u32
  mr_swapped_pages :: u32
  mr_external_pager :: u32
  mr_shared :: u32

record os =
  os_pidinfo :: "u32 \<Rightarrow> int \<Rightarrow> u64 \<Rightarrow> nat \<Rightarrow> pidinfo"
  os_sysctlbyname :: "cstring \<Rightarrow> nat \<Rightarrow> bytes res"
  os_procargs2 :: "int \<Rightarrow> bytes res"
  os_malloc :: bool
  os_task_for_pid :: "int \<Rightarrow> bool"
  os_task_threads :: "int \<Rightarrow> (u64 option) list option"
  os_thread_state :: "int \<Rightarrow> u32 \<Rightarrow> nat \<Rightarrow> bytes option"
  os_vm_region :: "int \<Rightarrow> u64 \<Rightarrow> vm_basic option"
  os_vm_region_ext :: "int \<Rightarrow> u64 \<Rightarrow> vm_extended"
  os_page_size :: u64
  os_page_query :: "int \<Rightarrow> u64 \<Rightarrow> u32 option"
  os_vm_read :: "int \<Rightarrow> u64 \<Rightarrow> nat \<Rightarrow> bytes option"
  os_tty :: "int \<Rightarrow> int \<times> errno \<times> bool \<times> u32"
  os_devname :: "u32 \<Rightarrow> cstring option"
  os_vmstat :: "bytes option"
  os_cpu_load :: "(u32 \<times> u32 \<times> u32 \<times> u32) list option"
  os_cpu_stat :: "(nat \<times> u32 list) option"
  os_cpus :: "(int \<times> char) list"
  os_stack :: "nat \<Rightarrow> char"
  os_rusage :: "int \<Rightarrow> (u64 \<times> u64) res"
  os_build :: "u32 \<Rightarrow> bytes option"
  os_other :: "ctl_req \<Rightarrow> bytes res"

abbreviation REQ_TASKINFO :: u32 where "REQ_TASKINFO \<equiv> 1"
abbreviation REQ_THREADINFO :: u32 where "REQ_THREADINFO \<equiv> 2"
abbreviation REQ_VMSTAT :: u32 where "REQ_VMSTAT \<equiv> 3"
abbreviation REQ_LOADAVG :: u32 where "REQ_LOADAVG \<equiv> 4"
abbreviation REQ_REGS :: u32 where "REQ_REGS \<equiv> 5"
abbreviation REQ_FPREGS :: u32 where "REQ_FPREGS \<equiv> 6"
abbreviation REQ_SYSCTL :: u32 where "REQ_SYSCTL \<equiv> 7"
abbreviation REQ_FDLIST :: u32 where "REQ_FDLIST \<equiv> 10"
abbreviation REQ_FDINFO :: u32 where "REQ_FDINFO \<equiv> 11"
abbreviation REQ_FDSOCKET :: u32 where "REQ_FDSOCKET \<equiv> 12"
abbreviation REQ_RUSAGE :: u32 where "REQ_RUSAGE \<equiv> 14"
abbreviation REQ_APM :: u32 where "REQ_APM \<equiv> 16"
abbreviation REQ_TTY :: u32 where "REQ_TTY \<equiv> 24"
abbreviation REQ_CPULOAD :: u32 where "REQ_CPULOAD \<equiv> 25"
abbreviation REQ_MAPS :: u32 where "REQ_MAPS \<equiv> 26"
abbreviation REQ_MEMREAD :: u32 where "REQ_MEMREAD \<equiv> 27"
abbreviation REQ_PROCARGS :: u32 where "REQ_PROCARGS \<equiv> 28"
abbreviation REQ_KSYM_LOOKUP :: u32 where "REQ_KSYM_LOOKUP \<equiv> 40"
abbreviation REQ_KSYM_REF :: u32 where "REQ_KSYM_REF \<equiv> 41"
abbreviation REQ_PAGEMAP :: u32 where "REQ_PAGEMAP \<equiv> 42"
abbreviation REQ_THREADLIST :: u32 where "REQ_THREADLIST \<equiv> 52"
abbreviation REQ_SHORTBSDINFO :: u32 where "REQ_SHORTBSDINFO \<equiv> 53"

definition EBADF :: errno where "EBADF = 9"

text \<open>A record of fixed size: all of it, or an error.\<close>

definition fixed_record :: "nat \<Rightarrow> errno \<Rightarrow> pidinfo \<Rightarrow> bytes res" where
  "fixed_record sz missing p = (case p of (r, err, d) \<Rightarrow>
     if r = int sz then Inr (take sz d) else Inl (if r < 0 then err else missing))"

definition handle_fdlist :: "pidinfo \<Rightarrow> bytes res" where
  "handle_fdlist p = (case p of (r, err, d) \<Rightarrow>
     if 0 \<le> r then Inr (take (nat r) d) else Inl err)"

definition blob_slice :: "bytes option \<Rightarrow> nat \<Rightarrow> bytes" where
  "blob_slice blob off = (case blob of None \<Rightarrow> []
     | Some b \<Rightarrow> if off < length b
         then let avail = length b - off;
                  n = (if avail < PROCFS_CTL_MAXPAYLOAD then avail else PROCFS_CTL_MAXPAYLOAD)
              in take n (drop off b)
         else [])"

text \<open>A listing is rebuilt when a reader starts over and served from the copy otherwise.\<close>

definition handle_listing :: "bytes option \<Rightarrow> bytes option \<Rightarrow> u64 \<Rightarrow> bytes res \<times> bytes option" where
  "handle_listing built cached arg =
     (let off = unat arg; blob = (if off = 0 then built else cached)
      in (Inr (blob_slice blob off), blob))"

definition procfsd_handle_procargs :: "os \<Rightarrow> ctl_req \<Rightarrow> bytes res" where
  "procfsd_handle_procargs os req =
     (if \<not> os_malloc os then Inl ENOMEM
      else (case os_procargs2 os (req_pid req) of
          Inl e \<Rightarrow> Inl (if e \<noteq> 0 then e else EINVAL)
        | Inr buf \<Rightarrow>
            let sz = length buf; off = unat (req_arg req) in
            if off < sz then
              let avail = sz - off;
                  n = (if avail < PROCFS_CTL_MAXPAYLOAD then avail else PROCFS_CTL_MAXPAYLOAD)
              in Inr (take n (drop off buf))
            else Inr []))"

text \<open>
  The ids of the threads whose \<open>thread_info\<close> call succeeds, as many as fit the payload.
\<close>

fun collect_ids :: "nat \<Rightarrow> (u64 option) list \<Rightarrow> u64 list" where
  "collect_ids maxids [] = []"
| "collect_ids maxids (t # ts) =
     (if maxids = 0 then []
      else (case t of None \<Rightarrow> collect_ids maxids ts
        | Some tid \<Rightarrow> tid # collect_ids (maxids - 1) ts))"

definition procfsd_handle_threadlist :: "os \<Rightarrow> ctl_req \<Rightarrow> bytes res" where
  "procfsd_handle_threadlist os req =
     (if \<not> os_task_for_pid os (req_pid req) then Inl EPERM
      else case os_task_threads os (req_pid req) of None \<Rightarrow> Inl ESRCH
      | Some threads \<Rightarrow>
          if threads = [] then Inl ESRCH
          else let ids = collect_ids (PROCFS_CTL_MAXPAYLOAD div 8) threads
               in if ids \<noteq> [] then Inr (concat (map u64_bytes ids)) else Inl ESRCH)"

definition handle_rusage :: "os \<Rightarrow> ctl_req \<Rightarrow> bytes res" where
  "handle_rusage os req = (case os_rusage os (req_pid req) of
      Inl e \<Rightarrow> Inl (if e \<noteq> 0 then e else ESRCH)
    | Inr (rd, wr) \<Rightarrow> Inr (u64_bytes rd @ u64_bytes wr))"

subsection \<open>Register state\<close>

text \<open>The \<open>natural_t\<close> counts of the arm64 register flavours.\<close>

definition ARM_THREAD_STATE64_COUNT :: nat where "ARM_THREAD_STATE64_COUNT = 68"
definition ARM_NEON_STATE64_COUNT :: nat where "ARM_NEON_STATE64_COUNT = 132"

definition procfsd_handle_regs :: "os \<Rightarrow> ctl_req \<Rightarrow> bytes res" where
  "procfsd_handle_regs os req =
     (if \<not> os_task_for_pid os (req_pid req) then Inl EPERM
      else case os_task_threads os (req_pid req) of None \<Rightarrow> Inl ESRCH
      | Some threads \<Rightarrow>
          if threads = [] then Inl ESRCH
          else let cnt = (if req_type req = REQ_REGS then ARM_THREAD_STATE64_COUNT else ARM_NEON_STATE64_COUNT) in
            if cnt * 4 \<le> PROCFS_CTL_MAXPAYLOAD then
              (case os_thread_state os (req_pid req) (req_type req) cnt of None \<Rightarrow> Inl EIO
               | Some state \<Rightarrow> Inr state)
            else Inl EMSGSIZE)"

subsection \<open>Address space\<close>

definition encode_region :: "map_region \<Rightarrow> bytes" where
  \<comment> \<open>64 bytes; the last four are padding, which nobody writes or reads\<close>
  "encode_region r = u64_bytes (mr_start r) @ u64_bytes (mr_size r) @ u64_bytes (mr_offset r) @
     u32_bytes (mr_prot r) @ u32_bytes (mr_max_prot r) @ u32_bytes (mr_user_wired r) @
     u32_bytes (mr_share_mode r) @ u32_bytes (mr_resident_pages r) @ u32_bytes (mr_dirty_pages r) @
     u32_bytes (mr_swapped_pages r) @ u32_bytes (mr_external_pager r) @ u32_bytes (mr_shared r) @
     replicate 4 NUL"

definition sizeof_map_region :: nat where "sizeof_map_region = 64"

definition mk_region :: "vm_basic \<Rightarrow> vm_extended \<Rightarrow> map_region" where
  "mk_region bi ei = \<lparr>mr_start = vb_start bi, mr_size = vb_size bi, mr_offset = vb_offset bi,
     mr_prot = vb_protection bi, mr_max_prot = vb_max_protection bi, mr_user_wired = vb_user_wired bi,
     mr_share_mode = ve_share_mode ei, mr_resident_pages = ve_pages_resident ei,
     mr_dirty_pages = ve_pages_dirtied ei, mr_swapped_pages = ve_pages_swapped_out ei,
     mr_external_pager = ve_external_pager ei, mr_shared = vb_shared bi\<rparr>"

text \<open>The first argument counts the records that still fit the payload.\<close>

fun maps_loop :: "nat \<Rightarrow> os \<Rightarrow> int \<Rightarrow> u64 \<Rightarrow> map_region list" where
  "maps_loop 0 os pid addr = []"
| "maps_loop (Suc k) os pid addr = (case os_vm_region os pid addr of None \<Rightarrow> []
     | Some bi \<Rightarrow>
         let next = vb_start bi + vb_size bi
         in mk_region bi (os_vm_region_ext os pid (vb_start bi)) #
            (if next \<le> vb_start bi then [] else maps_loop k os pid next))"

definition procfsd_handle_maps :: "os \<Rightarrow> ctl_req \<Rightarrow> bytes res" where
  "procfsd_handle_maps os req =
     (if \<not> os_task_for_pid os (req_pid req) then Inl EPERM
      else Inr (concat (map encode_region
        (maps_loop (PROCFS_CTL_MAXPAYLOAD div sizeof_map_region) os (req_pid req) (req_arg req)))))"

definition VM_PAGE_QUERY_PAGE_PRESENT :: u32 where "VM_PAGE_QUERY_PAGE_PRESENT = 0x001"
definition VM_PAGE_QUERY_PAGE_DIRTY :: u32 where "VM_PAGE_QUERY_PAGE_DIRTY = 0x008"
definition VM_PAGE_QUERY_PAGE_PAGED_OUT :: u32 where "VM_PAGE_QUERY_PAGE_PAGED_OUT = 0x010"
definition VM_PAGE_QUERY_PAGE_EXTERNAL :: u32 where "VM_PAGE_QUERY_PAGE_EXTERNAL = 0x080"

definition pagemap_bits :: "u32 \<Rightarrow> u64" where
  "pagemap_bits disp =
     (if disp AND VM_PAGE_QUERY_PAGE_PRESENT \<noteq> 0 then push_bit 63 1 else 0) OR
     (if disp AND VM_PAGE_QUERY_PAGE_PAGED_OUT \<noteq> 0 then push_bit 62 1 else 0) OR
     (if disp AND VM_PAGE_QUERY_PAGE_EXTERNAL \<noteq> 0 then push_bit 61 1 else 0) OR
     (if disp AND VM_PAGE_QUERY_PAGE_DIRTY \<noteq> 0 then push_bit 55 1 else 0)"

definition pagemap_entry :: "os \<Rightarrow> int \<Rightarrow> u64 \<Rightarrow> u64 \<Rightarrow> u64" where
  "pagemap_entry os pid ra va =
     (if ra \<le> va then (case os_page_query os pid va of None \<Rightarrow> 0
        | Some disp \<Rightarrow> if disp \<noteq> 0 then pagemap_bits disp else 0)
      else 0)"

definition procfsd_handle_pagemap :: "os \<Rightarrow> ctl_req \<Rightarrow> bytes res" where
  "procfsd_handle_pagemap os req =
     (if \<not> os_task_for_pid os (req_pid req) then Inl EPERM
      else let start = req_arg req in
        (case os_vm_region os (req_pid req) start of None \<Rightarrow> Inr []
         | Some bi \<Rightarrow> Inr (concat (map (\<lambda>i. u64_bytes
             (pagemap_entry os (req_pid req) (vb_start bi) (start + of_nat i * os_page_size os)))
             [0..<PROCFS_CTL_MAXPAYLOAD div 8]))))"

function memread_loop :: "os \<Rightarrow> int \<Rightarrow> u64 \<Rightarrow> bytes \<Rightarrow> bytes" where
  "memread_loop os pid base out =
     (if length out < PROCFS_CTL_MAXPAYLOAD then
        let cur = base + of_nat (length out);
            pgoff = cur AND (os_page_size os - 1);
            chunk = min (unat (os_page_size os - pgoff)) (PROCFS_CTL_MAXPAYLOAD - length out)
        in (case os_vm_read os pid cur chunk of None \<Rightarrow> out
            | Some d \<Rightarrow> if d = [] then out
                else if length d < chunk then out @ d
                else memread_loop os pid base (out @ d))
      else out)"
  by pat_completeness auto

termination
  by (relation "measure (\<lambda>(os, pid, base, out). PROCFS_CTL_MAXPAYLOAD - length out)")
    (auto simp: diff_less_mono2)

declare memread_loop.simps [simp del]

definition procfsd_handle_memread :: "os \<Rightarrow> ctl_req \<Rightarrow> bytes res" where
  "procfsd_handle_memread os req =
     (if \<not> os_task_for_pid os (req_pid req) then Inl EPERM
      else Inr (memread_loop os (req_pid req) (req_arg req) []))"

subsection \<open>Other records\<close>

definition PROC_NODEV :: u32 where "PROC_NODEV = - 1"

definition sizeof_bsdinfo :: int where "sizeof_bsdinfo = 136"

definition handle_tty :: "os \<Rightarrow> ctl_req \<Rightarrow> bytes res" where
  "handle_tty os req = (case os_tty os (req_pid req) of (r, err, controlt, tdev) \<Rightarrow>
     if r = sizeof_bsdinfo then
       (if controlt \<and> tdev \<noteq> PROC_NODEV then
          (case os_devname os tdev of
             Some (c # nm) \<Rightarrow> if c \<noteq> CHR ''?''
               then let s = ''/dev/'' @ c # nm in Inr (take PROCFS_CTL_MAXPAYLOAD (snprintf PROCFS_CTL_MAXPAYLOAD s))
               else Inr []
           | _ \<Rightarrow> Inr [])
        else Inr [])
     else Inl (if r < 0 then err else ESRCH))"

definition handle_vmstat :: "os \<Rightarrow> bytes res" where
  "handle_vmstat os = (case os_vmstat os of None \<Rightarrow> Inl EIO
     | Some vm \<Rightarrow> Inr (take PROCFS_CTL_MAXPAYLOAD vm))"

fun encode_cpu_load :: "u32 \<times> u32 \<times> u32 \<times> u32 \<Rightarrow> bytes" where
  "encode_cpu_load (user, nice, sys, idle) = u64_bytes (ucast user) @ u64_bytes (ucast nice) @
     u64_bytes (ucast sys) @ u64_bytes (ucast idle)"

definition handle_cpuload :: "os \<Rightarrow> bytes res" where
  "handle_cpuload os = (case os_cpu_load os of None \<Rightarrow> Inl EIO
     | Some cpus \<Rightarrow> if cpus = [] then Inl EIO
         else Inr (concat (map encode_cpu_load (take (PROCFS_CTL_MAXPAYLOAD div 32) cpus))))"

definition handle_cpustat :: "os \<Rightarrow> bytes res" where
  "handle_cpustat os = (case os_cpu_stat os of None \<Rightarrow> Inl EIO
     | Some (nc, pinfo) \<Rightarrow> if nc = 0 then Inl EIO
         else let n = min nc (PROCFS_CTL_MAXPAYLOAD div 24); stride = length pinfo div nc in
           Inr (concat (map (\<lambda>i. u64_bytes (ucast (pinfo ! (i * stride))) @
             u64_bytes (ucast (pinfo ! (i * stride + 1))) @ u64_bytes (ucast (pinfo ! (i * stride + 2)))) [0..<n])))"

text \<open>
  The cluster letters, by logical CPU id; a CPU the device tree does not list keeps its \<open>?\<close> (the
  first 256 ids) or whatever the buffer held. The reply ends at the highest id seen.
\<close>

definition set_cluster :: "int \<times> char \<Rightarrow> bytes \<times> nat \<Rightarrow> bytes \<times> nat" where
  "set_cluster c s = (case (c, s) of ((cpu, ct), (out, maxid)) \<Rightarrow>
     if 0 \<le> cpu \<and> nat cpu < PROCFS_CTL_MAXPAYLOAD
     then (out[nat cpu := ct], max maxid (nat cpu + 1)) else (out, maxid))"

definition handle_cpuclusters :: "os \<Rightarrow> bytes res" where
  "handle_cpuclusters os =
     (case fold set_cluster (os_cpus os)
         (replicate 256 CHR ''?'' @ map (os_stack os) [256..<PROCFS_CTL_MAXPAYLOAD], 0) of
       (out, maxid) \<Rightarrow> Inr (take maxid out))"

subsection \<open>Dispatch\<close>

text \<open>
  The switch of the main loop. \<open>cache\<close> holds the listings built so far, by request type.
\<close>

text \<open>
  The types served as chunked listings, in the order of the enumeration: extensions, modules,
  devices, allocinfo, PCI and framebuffer devices, NFS exports, interrupts, tty drivers,
  vmallocinfo, SCSI, the three SysV tables, slabinfo, the two message buffers, the two symbol
  tables, misc devices and the nine network tables.
\<close>

definition listing_types :: "u32 list" where
  "listing_types = [8, 9, 13, 15, 17, 18, 19, 20, 21, 29, 30, 31, 32, 33, 34, 35, 36, 37, 38, 39,
     43, 44, 45, 46, 47, 48, 49, 50, 51]"

type_synonym blob_cache = "u32 \<Rightarrow> bytes option"

definition procfsd_dispatch :: "os \<Rightarrow> ctl_req \<Rightarrow> blob_cache \<Rightarrow> bytes res \<times> blob_cache" where
  "procfsd_dispatch os req cache =
     (let ty = req_type req; pid = req_pid req; arg = req_arg req;
          info = (\<lambda>arg sz. os_pidinfo os ty pid arg sz)
      in if ty = REQ_TASKINFO then (fixed_record 96 ESRCH (info 0 96), cache)
         else if ty = REQ_THREADINFO then (fixed_record 112 ESRCH (info arg 112), cache)
         else if ty = REQ_TTY then (handle_tty os req, cache)
         else if ty = REQ_VMSTAT then (handle_vmstat os, cache)
         else if ty = REQ_SYSCTL then
           (os_sysctlbyname os (take (PROCFS_CTL_NAMEMAX - 1) (req_name req)) PROCFS_CTL_MAXPAYLOAD, cache)
         else if ty = REQ_FDLIST then (handle_fdlist (info 0 PROCFS_CTL_MAXPAYLOAD), cache)
         else if ty = REQ_THREADLIST then (procfsd_handle_threadlist os req, cache)
         else if ty = REQ_SHORTBSDINFO then (fixed_record 64 ESRCH (info 0 64), cache)
         else if ty = REQ_FDINFO then (fixed_record 1200 EBADF (info (scast (ucast arg :: u32)) 1200), cache)
         else if ty = REQ_FDSOCKET then (fixed_record 792 EBADF (info (scast (ucast arg :: u32)) 792), cache)
         else if ty \<in> set listing_types then
           (case handle_listing (os_build os ty) (cache ty) arg of (r, b) \<Rightarrow> (r, cache(ty := b)))
         else if ty = REQ_CPUCLUSTERS then
           (handle_cpuclusters os, cache)
         else if ty = REQ_CPULOAD then (handle_cpuload os, cache)
         else if ty = REQ_CPUSTAT then (handle_cpustat os, cache)
         else if ty = REQ_RUSAGE then (handle_rusage os req, cache)
         else if ty = REQ_MAPS then (procfsd_handle_maps os req, cache)
         else if ty = REQ_PAGEMAP then (procfsd_handle_pagemap os req, cache)
         else if ty = REQ_MEMREAD then (procfsd_handle_memread os req, cache)
         else if ty = REQ_PROCARGS then (procfsd_handle_procargs os req, cache)
         else if ty = REQ_REGS \<or> ty = REQ_FPREGS then (procfsd_handle_regs os req, cache)
         else if ty \<in> {REQ_LOADAVG, REQ_APM, REQ_KSYM_LOOKUP, REQ_KSYM_REF} then (os_other os req, cache)
         else (Inl EINVAL, cache))"

section \<open>One turn of the main loop\<close>

text \<open>
  A received packet is ignored when it is short or does not carry the magic number; otherwise
  one reply packet goes back, the header with the request's sequence number first.
\<close>

definition send_result :: "u32 \<Rightarrow> bytes res \<Rightarrow> bytes" where
  "send_result seq r = (case r of Inl e \<Rightarrow> reply seq e [] | Inr d \<Rightarrow> reply seq 0 d)"

definition procfsd_turn :: "os \<Rightarrow> bytes \<Rightarrow> blob_cache \<Rightarrow> bytes option \<times> blob_cache" where
  "procfsd_turn os rbuf cache =
     (if length rbuf < sizeof_ctl_req then (None, cache)
      else let req = decode_req rbuf in
        if req_magic req \<noteq> PROCFS_CTL_MAGIC then (None, cache)
        else (case procfsd_dispatch os req cache of
            (r, cache') \<Rightarrow> (Some (send_result (req_seq req) r), cache')))"

section \<open>Round trip of the request\<close>

lemma length_u64_bytes [simp]: "length (u64_bytes w) = 8"
  by (simp add: u64_bytes_def)

lemma le_u64_bytes [simp]: "le_u64 (u64_bytes w @ rest) = w"
proof -
  have "unat w < 256 ^ 8" using unsigned_less [of w, where ?'a = nat] by simp
  then show ?thesis by (simp add: le_u64_def u64_bytes_def le_nat_le_bytes)
qed

lemma length_encode_req [simp]: "length (encode_req r) = sizeof_ctl_req"
  by (simp add: encode_req_def sizeof_ctl_req_def PROCFS_CTL_NAMEMAX_def)

lemma decode_name:
  assumes "NUL \<notin> set nm" "length nm < n"
  shows "takeWhile (\<lambda>c. c \<noteq> NUL) (take n (nm @ replicate n NUL)) = nm"
proof -
  from assms(2) obtain k where k: "n - length nm = Suc k" by (metis Suc_diff_Suc)
  have "\<forall>c \<in> set nm. c \<noteq> NUL" using assms(1) by auto
  then show ?thesis using assms(2) k by (simp add: takeWhile_append2 take_replicate min_def)
qed

definition req_ok :: "ctl_req \<Rightarrow> bool" where
  "req_ok r \<longleftrightarrow> - (2 ^ 31) \<le> req_pid r \<and> req_pid r < 2 ^ 31 \<and> NUL \<notin> set (req_name r) \<and>
     length (req_name r) < PROCFS_CTL_NAMEMAX"

lemma decode_encode_req:
  assumes "req_ok r"
  shows "decode_req (encode_req r) = r"
proof -
  have "le_int32 (int32_bytes (req_pid r) @ rest) = req_pid r" for rest
    using le_int32_bytes [of "req_pid r"] assms by (simp add: le_int32_def req_ok_def)
  moreover have "takeWhile (\<lambda>c. c \<noteq> NUL)
      (take PROCFS_CTL_NAMEMAX (req_name r @ replicate PROCFS_CTL_NAMEMAX NUL)) = req_name r"
    using assms by (intro decode_name) (auto simp: req_ok_def)
  ultimately show ?thesis
    using assms by (simp add: decode_req_def encode_req_def req_ok_def min_def)
qed

lemma mk_req_ok:
  assumes "- (2 ^ 31) \<le> pid" "pid < 2 ^ 31" "NUL \<notin> set name"
  shows "req_ok (mk_req seq type pid arg name)"
  using assms by (auto simp: req_ok_def mk_req_def strlcpy_def PROCFS_CTL_NAMEMAX_def dest: in_set_takeD)

section \<open>Payload bounds\<close>

text \<open>
  What the daemon relies on: the calls that fill the reply buffer respect its size, errors fit
  an \<open>int\<close>.
\<close>

definition os_law :: "os \<Rightarrow> bool" where
  "os_law os \<longleftrightarrow>
     (\<forall>ty pid arg n. fst (os_pidinfo os ty pid arg n) \<le> int n \<and>
        length (snd (snd (os_pidinfo os ty pid arg n))) \<le> n \<and>
        \<bar>fst (snd (os_pidinfo os ty pid arg n))\<bar> < 2 ^ 31) \<and>
     (\<forall>nm n d. os_sysctlbyname os nm n = Inr d \<longrightarrow> length d \<le> n) \<and>
     (\<forall>nm n e. os_sysctlbyname os nm n = Inl e \<longrightarrow> \<bar>e\<bar> < 2 ^ 31) \<and>
     (\<forall>pid e. os_procargs2 os pid = Inl e \<longrightarrow> \<bar>e\<bar> < 2 ^ 31) \<and>
     (\<forall>pid e. os_rusage os pid = Inl e \<longrightarrow> \<bar>e\<bar> < 2 ^ 31) \<and>
     (\<forall>pid ty n d. os_thread_state os pid ty n = Some d \<longrightarrow> length d \<le> 4 * n) \<and>
     (\<forall>pid addr n d. os_vm_read os pid addr n = Some d \<longrightarrow> length d \<le> n) \<and>
     (\<forall>pid. \<bar>fst (snd (os_tty os pid))\<bar> < 2 ^ 31) \<and>
     (\<forall>req d. os_other os req = Inr d \<longrightarrow> length d \<le> PROCFS_CTL_MAXPAYLOAD) \<and>
     (\<forall>req e. os_other os req = Inl e \<longrightarrow> \<bar>e\<bar> < 2 ^ 31)"

fun sendable :: "bytes res \<Rightarrow> bool" where
  "sendable (Inl e) = (\<bar>e\<bar> < 2 ^ 31)"
| "sendable (Inr d) = (length d \<le> PROCFS_CTL_MAXPAYLOAD)"

lemma sendable_fixed:
  "sz \<le> PROCFS_CTL_MAXPAYLOAD \<Longrightarrow> \<bar>fst (snd p)\<bar> < 2 ^ 31 \<Longrightarrow> \<bar>missing\<bar> < 2 ^ 31 \<Longrightarrow>
     sendable (fixed_record sz missing p)"
  by (auto simp: fixed_record_def split: prod.splits)

lemma sendable_fdlist:
  "\<bar>fst (snd p)\<bar> < 2 ^ 31 \<Longrightarrow> length (snd (snd p)) \<le> PROCFS_CTL_MAXPAYLOAD \<Longrightarrow> sendable (handle_fdlist p)"
  by (auto simp: handle_fdlist_def split: prod.splits)

lemma length_blob_slice: "length (blob_slice b off) \<le> PROCFS_CTL_MAXPAYLOAD"
  by (auto simp: blob_slice_def Let_def split: option.splits)

lemma length_collect_ids: "length (collect_ids n ts) \<le> n"
  by (induction n ts rule: collect_ids.induct) (auto split: option.splits)

lemma length_concat_u64: "length (concat (map u64_bytes ids)) = 8 * length ids"
  by (induction ids) auto

lemma sendable_threadlist: "sendable (procfsd_handle_threadlist os req)"
proof -
  have "length (collect_ids (PROCFS_CTL_MAXPAYLOAD div 8) ts) \<le> 256" for ts
    using length_collect_ids [of "PROCFS_CTL_MAXPAYLOAD div 8" ts] by (simp add: PROCFS_CTL_MAXPAYLOAD_def)
  then have "8 * length (collect_ids (PROCFS_CTL_MAXPAYLOAD div 8) ts) \<le> PROCFS_CTL_MAXPAYLOAD" for ts
    by (simp add: PROCFS_CTL_MAXPAYLOAD_def)
  then show ?thesis
    by (auto simp: procfsd_handle_threadlist_def Let_def length_concat_u64 split: option.splits)
qed

lemma sendable_procargs:
  "os_law os \<Longrightarrow> sendable (procfsd_handle_procargs os req)"
  by (auto simp: procfsd_handle_procargs_def Let_def os_law_def split: sum.splits)

lemma sendable_rusage: "os_law os \<Longrightarrow> sendable (handle_rusage os req)"
  by (auto simp: handle_rusage_def os_law_def PROCFS_CTL_MAXPAYLOAD_def split: sum.splits)

lemma sendable_sysctl: "os_law os \<Longrightarrow> sendable (os_sysctlbyname os nm PROCFS_CTL_MAXPAYLOAD)"
  by (cases "os_sysctlbyname os nm PROCFS_CTL_MAXPAYLOAD") (auto simp: os_law_def)

lemma sendable_other: "os_law os \<Longrightarrow> sendable (os_other os req)"
  by (cases "os_other os req") (auto simp: os_law_def)

lemma length_concat_map: "(\<And>x. x \<in> set xs \<Longrightarrow> length (f x) = n) \<Longrightarrow> length (concat (map f xs)) = n * length xs"
  by (induction xs) auto

lemma length_encode_region [simp]: "length (encode_region r) = sizeof_map_region"
  by (simp add: encode_region_def sizeof_map_region_def)

lemma length_maps_loop: "length (maps_loop k os pid addr) \<le> k"
  by (induction k os pid addr rule: maps_loop.induct) (auto simp: Let_def split: option.splits)

lemma sendable_maps: "sendable (procfsd_handle_maps os req)"
  using length_maps_loop [of 32 os "req_pid req" "req_arg req"]
  by (simp add: procfsd_handle_maps_def length_concat_map [where n = sizeof_map_region]
      sizeof_map_region_def PROCFS_CTL_MAXPAYLOAD_def)

lemma sendable_pagemap: "sendable (procfsd_handle_pagemap os req)"
  by (auto simp: procfsd_handle_pagemap_def length_concat_map [where n = 8] Let_def
      PROCFS_CTL_MAXPAYLOAD_def split: option.splits)

lemma length_memread_loop:
  assumes "\<And>cur n d. os_vm_read os pid cur n = Some d \<Longrightarrow> length d \<le> n"
    and "length out \<le> PROCFS_CTL_MAXPAYLOAD"
  shows "length (memread_loop os pid base out) \<le> PROCFS_CTL_MAXPAYLOAD"
  using assms
proof (induction os pid base out rule: memread_loop.induct)
  case (1 os pid base out)
  define cur where "cur = base + of_nat (length out)"
  define chunk where "chunk = min (unat (os_page_size os - (cur AND (os_page_size os - 1))))
    (PROCFS_CTL_MAXPAYLOAD - length out)"
  have fits: "length out + length d \<le> PROCFS_CTL_MAXPAYLOAD" if "os_vm_read os pid cur chunk = Some d" for d
    using 1(2) [OF that] 1(3) unfolding chunk_def by linarith
  show ?case
  proof (cases "os_vm_read os pid cur chunk")
    case None
    then show ?thesis using 1(3)
      by (subst memread_loop.simps) (simp add: Let_def cur_def chunk_def)
  next
    case (Some d)
    have "length (memread_loop os pid base (out @ d)) \<le> PROCFS_CTL_MAXPAYLOAD"
      if "length out < PROCFS_CTL_MAXPAYLOAD" "d \<noteq> []" "\<not> length d < chunk"
      using that Some fits [OF Some] 1(2)
      by (intro 1(1) [OF _ cur_def refl chunk_def]) auto
    with Some fits [OF Some] 1(3) show ?thesis
      by (subst memread_loop.simps) (simp add: Let_def flip: cur_def chunk_def)
  qed
qed

lemma sendable_memread: "os_law os \<Longrightarrow> sendable (procfsd_handle_memread os req)"
  using length_memread_loop [of os "req_pid req" "[]" "req_arg req"]
  by (auto simp: procfsd_handle_memread_def os_law_def)

lemma sendable_regs:
  assumes "os_law os"
  shows "sendable (procfsd_handle_regs os req)"
proof -
  have "length d \<le> 4 * n" if "os_thread_state os (req_pid req) (req_type req) n = Some d" for n d
    using assms that by (auto simp: os_law_def)
  from this [of 68] this [of 132] show ?thesis
    by (fastforce simp: procfsd_handle_regs_def ARM_THREAD_STATE64_COUNT_def
        ARM_NEON_STATE64_COUNT_def PROCFS_CTL_MAXPAYLOAD_def split: option.splits)
qed

lemma sendable_tty: "os_law os \<Longrightarrow> sendable (handle_tty os req)"
  unfolding os_law_def handle_tty_def Let_def
  by (cases "os_tty os (req_pid req)") (auto dest: spec [of _ "req_pid req"] split: option.splits list.splits)

lemma length_set_cluster: "length (fst (fold set_cluster cs s)) = length (fst s)"
  by (induction cs arbitrary: s) (auto simp: set_cluster_def split: prod.splits)

lemma sendable_records:
  "sendable (handle_vmstat os)" "sendable (handle_cpuload os)" "sendable (handle_cpustat os)"
  "sendable (handle_cpuclusters os)"
proof -
  show "sendable (handle_vmstat os)"
    by (auto simp: handle_vmstat_def split: option.splits)
  have "length (encode_cpu_load c) = 32" for c by (cases c) simp
  then show "sendable (handle_cpuload os)"
    by (auto simp: handle_cpuload_def length_concat_map [where n = 32] PROCFS_CTL_MAXPAYLOAD_def
        split: option.splits)
  show "sendable (handle_cpustat os)"
    by (auto simp: handle_cpustat_def length_concat_map [where n = 24] PROCFS_CTL_MAXPAYLOAD_def Let_def
        split: option.splits)
  show "sendable (handle_cpuclusters os)"
    using length_set_cluster [of "os_cpus os" "(replicate 256 CHR ''?'' @ map (os_stack os) [256..<2048], 0)"]
    by (auto simp: handle_cpuclusters_def PROCFS_CTL_MAXPAYLOAD_def split: prod.splits)
qed

lemmas sendable_handlers = sendable_threadlist sendable_maps sendable_pagemap sendable_records

lemmas sendable_law_handlers = sendable_procargs sendable_rusage sendable_sysctl sendable_other
  sendable_memread sendable_regs sendable_tty

lemma sendable_if: "sendable (fst a) \<Longrightarrow> sendable (fst b) \<Longrightarrow> sendable (fst (if c then a else b))"
  by simp

lemma dispatch_sendable:
  assumes "os_law os"
  shows "sendable (fst (procfsd_dispatch os req cache))"
proof -
  have p: "\<bar>fst (snd (os_pidinfo os ty pid arg n))\<bar> < 2 ^ 31"
    "length (snd (snd (os_pidinfo os ty pid arg n))) \<le> n" for ty pid arg n
    using assms by (auto simp: os_law_def)
  have f: "sendable (fixed_record sz missing (os_pidinfo os ty pid arg n))"
    if "sz \<le> 2048" "\<bar>missing\<bar> < 2 ^ 31" for sz missing ty pid arg n
    using that p(1) by (intro sendable_fixed) (simp_all add: PROCFS_CTL_MAXPAYLOAD_def)
  have l: "sendable (fst (case handle_listing b c off of (r, b) \<Rightarrow> (r, cache(ty := b))))" for b c off ty
    by (simp add: handle_listing_def Let_def length_blob_slice split: prod.splits)
  show ?thesis
    unfolding procfsd_dispatch_def Let_def
    by (intro sendable_if l; simp only: fst_conv;
        (intro sendable_handlers sendable_law_handlers [OF assms] sendable_fdlist [OF p] f)?;
        simp add: EBADF_def)
qed

section \<open>Both ends together\<close>

definition daemon_env :: "os \<Rightarrow> blob_cache \<Rightarrow> ctl_env" where
  "daemon_env os cache = \<lparr>env_enqueue = (\<lambda>_ _. 0),
     env_wait = (\<lambda>req st. case fst (procfsd_turn os (encode_req req) cache) of None \<Rightarrow> st
        | Some m \<Rightarrow> snd (procfs_ctl_send m st))\<rparr>"

abbreviation daemon_ctl :: "os \<Rightarrow> blob_cache \<Rightarrow> ctl_state \<Rightarrow> ctl_oracle" where
  "daemon_ctl os cache st \<equiv> \<lambda>ty pid arg nm cap. fst (procfs_ctl_request_impl (daemon_env os cache) ty pid arg nm cap st)"

definition bridge_ready :: "ctl_state \<Rightarrow> bool" where
  "bridge_ready st \<longleftrightarrow> ctl_connected st \<and> ctl_ref st \<and> table_ok st \<and>
     (\<exists>s \<in> set (ctl_slots st). \<not> in_use s) \<and> seq_fresh st (next_seq (ctl_seq st))"

fun wire_result :: "bytes res \<Rightarrow> nat \<Rightarrow> bytes res" where
  "wire_result (Inl e) cap = (if e = 0 then Inr [] else Inl e)"
| "wire_result (Inr d) cap = Inr (take cap d)"

lemma send_result_reply:
  "send_result seq r = reply seq (case r of Inl e \<Rightarrow> e | Inr _ \<Rightarrow> 0) (case r of Inl _ \<Rightarrow> [] | Inr d \<Rightarrow> d)"
  by (cases r) (simp_all add: send_result_def)

lemma daemon_turn:
  "req_ok r \<Longrightarrow> req_magic r = PROCFS_CTL_MAGIC \<Longrightarrow> fst (procfsd_turn os (encode_req r) cache) =
     Some (send_result (req_seq r) (fst (procfsd_dispatch os r cache)))"
  by (simp add: procfsd_turn_def decode_encode_req Let_def split: prod.splits)

lemma daemon_answers:
  assumes "bridge_ready st" "os_law os"
    and "- (2 ^ 31) \<le> pid" "pid < 2 ^ 31" "NUL \<notin> set name"
  shows "fst (procfs_ctl_request_impl (daemon_env os cache) type pid arg name cap st) =
    wire_result (fst (procfsd_dispatch os (mk_req (next_seq (ctl_seq st)) type pid arg name) cache)) cap"
proof -
  let ?req = "mk_req (next_seq (ctl_seq st)) type pid arg name"
  let ?r = "fst (procfsd_dispatch os ?req cache)"
  let ?err = "case ?r of Inl e \<Rightarrow> e | Inr _ \<Rightarrow> 0" and ?payload = "case ?r of Inl _ \<Rightarrow> [] | Inr d \<Rightarrow> d"
  from assms(1) obtain i where i: "first_free (ctl_slots st) = Some i"
    by (cases "first_free (ctl_slots st)") (auto simp: bridge_ready_def first_free_None)
  have turn: "fst (procfsd_turn os (encode_req ?req) cache) = Some (send_result (req_seq ?req) ?r)"
    using mk_req_ok [OF assms(3-5)] by (intro daemon_turn) (simp_all add: mk_req_def)
  have "sendable ?r" using dispatch_sendable [OF assms(2)] .
  then have ok: "length ?payload \<le> PROCFS_CTL_MAXPAYLOAD" "- (2 ^ 31) \<le> ?err" "?err < 2 ^ 31"
    by (cases ?r; simp)+
  have "fst (procfs_ctl_request_impl (daemon_env os cache) type pid arg name cap st) =
      (if ?err = 0 then Inr (take cap ?payload) else Inl ?err)"
    using assms(1) i ok turn
    by (intro request_answered [where req = ?req and i = i])
      (auto simp: bridge_ready_def daemon_env_def send_result_reply)
  then show ?thesis by (cases ?r) auto
qed

lemma dispatch_listing:
  assumes "ty \<in> set listing_types" "req_type req = ty" "cache ty = os_build os ty"
  shows "fst (procfsd_dispatch os req cache) = Inr (blob_slice (os_build os ty) (unat (req_arg req)))"
  using assms
  by (auto simp: procfsd_dispatch_def listing_types_def handle_listing_def Let_def)

lemma slice_short:
  "length b - off < PROCFS_CTL_MAXPAYLOAD \<Longrightarrow> blob_slice (Some b) off = drop off b"
  by (simp add: blob_slice_def Let_def)

lemma slice_full:
  "PROCFS_CTL_MAXPAYLOAD \<le> length b - off \<Longrightarrow> blob_slice (Some b) off = take PROCFS_CTL_MAXPAYLOAD (drop off b)"
  by (auto simp: blob_slice_def Let_def PROCFS_CTL_MAXPAYLOAD_def)

lemma blob_loop_slices:
  assumes "\<And>off. ctl ty 0 off [] PROCFS_CTL_MAXPAYLOAD = Inr (blob_slice (Some b) (unat off))"
    and "length b < 2 ^ 64" and "off \<le> length b"
  shows "request_blob_loop ctl ty (of_nat off) sb = Some (0, sb @ drop off b)"
  using assms(3)
proof (induction "length b - off" arbitrary: off sb rule: less_induct)
  case less
  have off: "unat (of_nat off :: u64) = off"
    using less.prems assms(2) by (simp add: unat_of_nat take_bit_nat_eq_self)
  show ?case
  proof (cases "length b - off < PROCFS_CTL_MAXPAYLOAD")
    case True
    then show ?thesis
      by (subst request_blob_loop.simps) (simp add: assms(1) off slice_short)
  next
    case False
    let ?c = "take PROCFS_CTL_MAXPAYLOAD (drop off b)"
    have c: "ctl ty 0 (of_nat off) [] PROCFS_CTL_MAXPAYLOAD = Inr ?c" "length ?c = PROCFS_CTL_MAXPAYLOAD"
      using False by (simp_all add: assms(1) off slice_full)
    have "request_blob_loop ctl ty (of_nat (off + PROCFS_CTL_MAXPAYLOAD)) (sb @ ?c) =
        Some (0, (sb @ ?c) @ drop (off + PROCFS_CTL_MAXPAYLOAD) b)"
      using False by (intro less.hyps) (simp_all add: PROCFS_CTL_MAXPAYLOAD_def)
    moreover have "?c @ drop (off + PROCFS_CTL_MAXPAYLOAD) b = drop off b"
      by (metis add.commute append_take_drop_id drop_drop)
    ultimately show ?thesis
      using c by (subst request_blob_loop.simps) simp
  qed
qed

lemma blob_transfer:
  assumes "bridge_ready st" "os_law os" "ty \<in> set listing_types"
    and "os_build os ty = Some b" "cache ty = os_build os ty" "length b < 2 ^ 64"
  shows "procfs_ctl_request_blob
      (\<lambda>ty pid arg nm cap. fst (procfs_ctl_request_impl (daemon_env os cache) ty pid arg nm cap st)) ty sb =
    Some (0, sb @ b)"
proof -
  have "fst (procfs_ctl_request_impl (daemon_env os cache) ty 0 off [] PROCFS_CTL_MAXPAYLOAD st) =
      Inr (blob_slice (Some b) (unat off))" for off
    using length_blob_slice [of "Some b" "unat off"]
      dispatch_listing [of ty "mk_req (next_seq (ctl_seq st)) ty 0 off []" cache os] assms(3-5)
    by (subst daemon_answers [OF assms(1,2)]) (simp_all add: mk_req_def)
  from blob_loop_slices [of "\<lambda>ty pid arg nm cap. fst (procfs_ctl_request_impl (daemon_env os cache)
      ty pid arg nm cap st)" ty b 0 sb, OF this assms(6)]
  show ?thesis by (simp add: procfs_ctl_request_blob_def)
qed

section \<open>Properties\<close>

text \<open>
  C6: when the bridge is connected, has a free slot and the next sequence number is not pending,
  a kext request answered by this daemon returns exactly what the daemon's handler produced for
  that request, cut to the caller's buffer.
\<close>

theorem daemon_answers_request:
  assumes "bridge_ready st" "os_law os" "- (2 ^ 31) \<le> pid" "pid < 2 ^ 31" "NUL \<notin> set name"
  shows "fst (procfs_ctl_request_impl (daemon_env os cache) type pid arg name cap st) =
    wire_result (fst (procfsd_dispatch os (mk_req (next_seq (ctl_seq st)) type pid arg name) cache)) cap"
  using assms by (rule daemon_answers)

definition demo_os :: os where
  "demo_os = \<lparr>os_pidinfo = (\<lambda>ty pid arg n. (- 1, 3, [])), os_sysctlbyname = (\<lambda>nm n. Inl 2),
     os_procargs2 = (\<lambda>pid. Inl 22), os_malloc = True, os_task_for_pid = (\<lambda>pid. True),
     os_task_threads = (\<lambda>pid. Some [Some 259, None, Some 260]), os_thread_state = (\<lambda>pid ty n. None),
     os_vm_region = (\<lambda>pid addr. None), os_vm_region_ext = (\<lambda>pid addr. \<lparr>ve_share_mode = 0,
       ve_pages_resident = 0, ve_pages_dirtied = 0, ve_pages_swapped_out = 0, ve_external_pager = 0\<rparr>),
     os_page_size = 16384, os_page_query = (\<lambda>pid va. None), os_vm_read = (\<lambda>pid addr n. None),
     os_tty = (\<lambda>pid. (- 1, 3, False, 0)), os_devname = (\<lambda>dev. None), os_vmstat = None,
     os_cpu_load = None, os_cpu_stat = None, os_cpus = [], os_stack = (\<lambda>i. NUL),
     os_rusage = (\<lambda>pid. Inl 3),
     os_build = (\<lambda>ty. Some ''a.kext 1''), os_other = (\<lambda>req. Inl 22)\<rparr>"

definition ready_state :: ctl_state where
  "ready_state = ctl_initial\<lparr>ctl_ref := True, ctl_connected := True\<rparr>"

lemma demo_os_law: "os_law demo_os"
  by (simp add: os_law_def demo_os_def)

lemma ready_state_ready: "bridge_ready ready_state"
  by (auto simp: bridge_ready_def ready_state_def ctl_initial_def table_ok_def slot_ok_def
      slot_initial_def seq_fresh_def PROCFS_CTL_SLOTS_def)

theorem daemon_answers_request_witness:
  "fst (procfs_ctl_request_impl (daemon_env demo_os (\<lambda>_. None)) REQ_THREADLIST 1 0 [] 2048 ready_state) =
     Inr (u64_bytes 259 @ u64_bytes 260)"
  using daemon_answers_request [OF ready_state_ready demo_os_law, of 1 "[]" "\<lambda>_. None" REQ_THREADLIST 0 2048]
  by (simp add: procfsd_dispatch_def mk_req_def procfsd_handle_threadlist_def demo_os_def
      PROCFS_CTL_MAXPAYLOAD_def Let_def)





end
