(* ===== verification/Subr.thy ===== *)
theory Subr
  imports NodeTable Procfsd
begin

text \<open>
  The helpers of \<open>kext/procfs_subr.c\<close>: vnode types, file ids, the number parser of the name
  lookup, the process list with its access check, the thread and descriptor lists obtained from
  the daemon, the walk over a process's uthreads, and \<open>procfs_copy_data\<close>, through which nearly
  every file of the file system answers a read.

  The process table is the argument \<open>proc_find\<close>; a process is the record \<open>kproc\<close> of what the
  kext reads of it.
\<close>

section \<open>Node types\<close>

datatype vtype = VREG | VDIR | VLNK

definition procfs_allocvp :: "pfstype \<Rightarrow> vtype" where
  "procfs_allocvp t = (
     if t \<in> {PFSroot, PFSproc, PFSthread, PFSdir, PFSdirthis, PFSdirparent, PFSfd, PFSsysctl} then VDIR
     else if t \<in> {PFSprocnamedir, PFScurproc, PFSproclink} then VLNK
     else VREG)"

definition pidless_types :: "pfstype list" where
  "pidless_types =
    [PFSroot, PFScurproc, PFSdir, PFScpuinfo, PFSversion, PFSmeminfo, PFSmtab, PFSstat, PFSvmstat,
     PFSuptime, PFSswaps, PFSfilesystems, PFSsysctl, PFSextensions, PFSmodules, PFSdiskstats,
     PFSdevices, PFSnetdev, PFSallocinfo, PFSapm, PFSbootconfig, PFSbuddyinfo, PFSpcidevices,
     PFSdma, PFSrtc, PFSexecdomains, PFSfb, PFSnfsexports, PFSinterrupts, PFSirq, PFStty,
     PFSioports, PFSiomem, PFSsoftirqs, PFSkcmdline, PFSide, PFSvmallocinfo, PFSisapnp, PFSscsi,
     PFSsysvipc, PFSpagetypeinfo, PFSslabinfo, PFSlocks, PFSkcore, PFSkmsg, PFSlastkmsg, PFSksyms,
     PFSmisc]"

definition procfs_node_type_has_pid :: "pfstype \<Rightarrow> bool" where
  "procfs_node_type_has_pid t \<longleftrightarrow> t \<notin> set pidless_types"

section \<open>Processes and access\<close>

record cred =
  cr_uid :: u32
  cr_gid :: u32

text \<open>
  A vnode a process refers to is a number; \<open>kp_limit\<close> is the table of resource limits, \<^const>\<open>None\<close>
  when the pointer to it is NULL or not mapped.
\<close>

record kproc =
  kp_pid :: int
  kp_ppid :: int
  kp_pgrpid :: int
  kp_sessionid :: int
  kp_uid :: u32
  kp_ruid :: u32
  kp_gid :: u32
  kp_rgid :: u32
  kp_svuid :: u32
  kp_svgid :: u32
  kp_stat :: int
  kp_flag :: u32
  kp_name :: cstring
  kp_start :: "int \<times> int"
  kp_textvp :: "nat option"
  kp_cdir :: "nat option"
  kp_rdir :: "nat option"
  kp_limit :: "(u64 \<times> u64) list option"

type_synonym proc_table = "int \<Rightarrow> kproc option"

definition procfs_get_process_info :: "proc_table \<Rightarrow> pfssnode list \<Rightarrow> pfsnode \<Rightarrow> (int \<times> kproc option) res" where
  "procfs_get_process_info proc_find h pnp =
     (let snode = h ! node_structure_node pnp;
          pid = procfsnode_to_pid pnp;
          p = (if pid = PRNODE_NO_PID then None else proc_find pid)
      in if p = None \<and> procfs_node_type_has_pid (psn_node_type snode) then Inl ENOENT
         else Inr (pid, p))"

definition procfs_check_can_access_process :: "cred \<Rightarrow> kproc \<Rightarrow> errno" where
  "procfs_check_can_access_process creds p =
     (let error = (if cr_uid creds = kp_uid p \<or> cr_uid creds = kp_ruid p then 0 else EACCES)
      in if error \<noteq> 0 \<and> (cr_gid creds = kp_gid p \<or> cr_gid creds = kp_rgid p) then 0 else error)"

definition procfs_check_can_access_proc_pid :: "proc_table \<Rightarrow> cred \<Rightarrow> int \<Rightarrow> errno" where
  "procfs_check_can_access_proc_pid proc_find creds pid =
     (case proc_find pid of Some p \<Rightarrow> procfs_check_can_access_process creds p | None \<Rightarrow> ESRCH)"

definition procfs_issuser :: "cred \<Rightarrow> errno" where
  "procfs_issuser creds = (if cr_uid creds = 0 then 0 else EPERM)"

definition PROCFS_MAX_PID :: nat where "PROCFS_MAX_PID = 99999"
definition PROCFS_MAX_PROCS :: nat where "PROCFS_MAX_PROCS = 1024"

definition proc_visible :: "proc_table \<Rightarrow> cred option \<Rightarrow> nat \<Rightarrow> bool" where
  "proc_visible proc_find creds pid = (case proc_find (int pid) of None \<Rightarrow> False
     | Some p \<Rightarrow> (case creds of None \<Rightarrow> True | Some c \<Rightarrow> procfs_check_can_access_process c p = 0))"

function get_pids_loop :: "proc_table \<Rightarrow> cred option \<Rightarrow> nat \<Rightarrow> nat \<Rightarrow> int list" where
  "get_pids_loop proc_find creds pid count =
     (if pid \<le> PROCFS_MAX_PID \<and> count < PROCFS_MAX_PROCS then
        (if proc_visible proc_find creds pid
         then int pid # get_pids_loop proc_find creds (pid + 1) (count + 1)
         else get_pids_loop proc_find creds (pid + 1) count)
      else [])"
  by pat_completeness auto

termination
  by (relation "measure (\<lambda>(f, c, pid, n). Suc PROCFS_MAX_PID - pid)") auto

declare get_pids_loop.simps [simp del]

text \<open>The flag says whether the allocation of the array succeeds.\<close>

definition procfs_get_pids :: "bool \<Rightarrow> proc_table \<Rightarrow> cred option \<Rightarrow> int list option" where
  "procfs_get_pids alloc proc_find creds =
     (if alloc then Some (get_pids_loop proc_find creds 0 0) else None)"

definition pid_list :: "int list option \<Rightarrow> int list" where
  "pid_list pids = (case pids of None \<Rightarrow> [] | Some ps \<Rightarrow> ps)"

definition procfs_get_process_count :: "bool \<Rightarrow> proc_table \<Rightarrow> cred \<Rightarrow> nat" where
  "procfs_get_process_count alloc proc_find creds =
     length (pid_list (procfs_get_pids alloc proc_find
       (if procfs_issuser creds = 0 then None else Some creds)))"

section \<open>File ids and numbers\<close>

text \<open>
  \<open>pid << 8\<close> is computed in \<open>int\<close> and sign-extended into the 64-bit id.
\<close>

definition procfs_get_fileid :: "int \<Rightarrow> u64 \<Rightarrow> pfsbaseid \<Rightarrow> u64" where
  "procfs_get_fileid pid objectid base_id =
     (let id = ucast base_id :: u64;
          id = (if pid \<noteq> PRNODE_NO_PID then id OR of_int (int32 (pid * 2 ^ 8)) else id)
      in id OR push_bit 24 objectid)"

definition procfs_get_node_fileid :: "pfssnode list \<Rightarrow> pfsnode \<Rightarrow> u64" where
  "procfs_get_node_fileid h pnp = procfs_get_fileid (nodeid_pid (node_id pnp))
     (nodeid_objectid (node_id pnp)) (psn_base_node_id (h ! node_structure_node pnp))"

text \<open>
  The accumulator is a 32-bit \<open>int\<close>, whose wrap-around is written out. The second component is
  the rest of the string from the first character that is no digit.
\<close>

fun atoi_loop :: "int \<Rightarrow> cstring \<Rightarrow> int \<times> cstring" where
  "atoi_loop value [] = (value, [])"
| "atoi_loop value (c # cs) =
     (if c \<noteq> NUL \<and> is_digit c then atoi_loop (int32 (value * 10 + int (digit_val c))) cs
      else (value, c # cs))"

definition procfs_atoi :: "cstring \<Rightarrow> int \<times> cstring" where
  "procfs_atoi p = (case atoi_loop 0 p of (value, endp) \<Rightarrow>
     (if length endp = length p then - 1 else value, endp))"

section \<open>Thread and descriptor lists\<close>

definition u64s :: "bytes \<Rightarrow> u64 list" where
  "u64s bs = map (\<lambda>i. le_u64 (drop (8 * i) bs)) [0..<length bs div 8]"

text \<open>The two flags are the outcomes of the two allocations.\<close>

definition procfs_get_thread_ids_for_task :: "bool \<Rightarrow> bool \<Rightarrow> ctl_oracle \<Rightarrow> kproc option \<Rightarrow> u64 list res" where
  "procfs_get_thread_ids_for_task alloc1 alloc2 ctl p = (case p of None \<Rightarrow> Inl EINVAL
     | Some p \<Rightarrow>
         if alloc1 then
           (case ctl REQ_THREADLIST (kp_pid p) 0 [] PROCFS_CTL_MAXPAYLOAD of
              Inr d \<Rightarrow> if 8 \<le> length d
                then (if alloc2 then Inr (u64s d) else Inl ENOMEM)
                else Inl ENOTSUP
            | Inl derror \<Rightarrow> Inl (if derror = EPERM then EPERM else ENOTSUP))
         else Inl ENOTSUP)"

definition procfs_get_task_thread_count :: "bool \<Rightarrow> bool \<Rightarrow> ctl_oracle \<Rightarrow> kproc option \<Rightarrow> nat" where
  "procfs_get_task_thread_count alloc1 alloc2 ctl p =
     (case procfs_get_thread_ids_for_task alloc1 alloc2 ctl p of Inl _ \<Rightarrow> 0 | Inr ids \<Rightarrow> length ids)"

record proc_fdinfo =
  proc_fd :: int
  proc_fdtype :: u32

definition fdinfos :: "bytes \<Rightarrow> proc_fdinfo list" where
  "fdinfos bs = map (\<lambda>i. \<lparr>proc_fd = le_int32 (drop (8 * i) bs), proc_fdtype = le_u32 (drop (8 * i + 4) bs)\<rparr>)
     [0..<length bs div 8]"

definition procfs_get_fd_list :: "bool \<Rightarrow> ctl_oracle \<Rightarrow> kproc option \<Rightarrow> proc_fdinfo list res" where
  "procfs_get_fd_list alloc ctl p = (case p of None \<Rightarrow> Inl EINVAL
     | Some p \<Rightarrow>
         if alloc then
           (case ctl REQ_FDLIST (kp_pid p) 0 [] PROCFS_CTL_MAXPAYLOAD of
              Inl error \<Rightarrow> Inl error
            | Inr d \<Rightarrow> Inr (fdinfos d))
         else Inl ENOMEM)"

section \<open>The uthread walk\<close>

text \<open>
  A process's \<open>p_uthlist\<close> is the list of the addresses of its uthreads; \<open>mapped\<close> says whether
  \<open>pmap_find_phys\<close> finds a page behind a kernel address.
\<close>

definition PROCFS_THREAD_SIZE_MAX :: u64 where "PROCFS_THREAD_SIZE_MAX = 262144"
definition PROCFS_MAX_THREADS :: nat where "PROCFS_MAX_THREADS = 100000"
definition PROCFS_KPTR_MIN :: u64 where "PROCFS_KPTR_MIN = 0xfffffe0000000000"

definition procfs_kptr_ok :: "(u64 \<Rightarrow> bool) \<Rightarrow> u64 \<Rightarrow> bool" where
  "procfs_kptr_ok mapped va \<longleftrightarrow> \<not> va < PROCFS_KPTR_MIN \<and> mapped va"

fun best_uthread :: "(u64 \<Rightarrow> bool) \<Rightarrow> u64 \<Rightarrow> u64 option \<Rightarrow> u64 list \<Rightarrow> u64 option" where
  "best_uthread mapped th best [] = best"
| "best_uthread mapped th best (u # us) =
     (if \<not> procfs_kptr_ok mapped u then best
      else best_uthread mapped th
        (if th < u \<and> u - th < PROCFS_THREAD_SIZE_MAX \<and> (case best of None \<Rightarrow> True | Some b \<Rightarrow> u < b)
         then Some u else best) us)"

definition procfs_thread_size_init :: "(u64 \<Rightarrow> bool) \<Rightarrow> u64 \<Rightarrow> u64 list option \<Rightarrow> u64 option \<Rightarrow> u64 option" where
  "procfs_thread_size_init mapped th cp_uthlist known =
     (case known of Some sz \<Rightarrow> Some sz
      | None \<Rightarrow> (case cp_uthlist of None \<Rightarrow> None
          | Some us \<Rightarrow> if th = 0 then None
              else map_option (\<lambda>b. b - th) (best_uthread mapped th None (take PROCFS_MAX_THREADS us))))"

definition procfs_get_representative_thread :: "(u64 \<Rightarrow> bool) \<Rightarrow> u64 option \<Rightarrow> u64 list option \<Rightarrow> u64 option" where
  "procfs_get_representative_thread mapped known uthlist =
     (case (known, uthlist) of
        (Some sz, Some (uth # _)) \<Rightarrow>
          if \<not> procfs_kptr_ok mapped uth then None
          else let thread = uth - sz in if procfs_kptr_ok mapped thread then Some thread else None
      | _ \<Rightarrow> None)"

fun thread_ptrs_loop :: "(u64 \<Rightarrow> bool) \<Rightarrow> u64 \<Rightarrow> nat \<Rightarrow> nat \<Rightarrow> u64 list \<Rightarrow> u64 list" where
  "thread_ptrs_loop mapped sz mx n [] = []"
| "thread_ptrs_loop mapped sz mx n (u # us) =
     (if n < mx \<and> n < PROCFS_MAX_THREADS \<and> procfs_kptr_ok mapped u then
        (if procfs_kptr_ok mapped (u - sz)
         then (u - sz) # thread_ptrs_loop mapped sz mx (n + 1) us
         else thread_ptrs_loop mapped sz mx n us)
      else [])"

definition procfs_get_thread_ptrs :: "(u64 \<Rightarrow> bool) \<Rightarrow> u64 option \<Rightarrow> u64 list option \<Rightarrow> nat \<Rightarrow> u64 list" where
  "procfs_get_thread_ptrs mapped known uthlist mx =
     (case (known, uthlist) of (Some sz, Some us) \<Rightarrow> thread_ptrs_loop mapped sz mx 0 us | _ \<Rightarrow> [])"

section \<open>Copying out\<close>

text \<open>
  \<open>kio\<close> is what a copy to the user needs of the kernel: \<open>uiomove\<close> and the memory that follows
  the buffer, which a copy may only reach by mistake. \<open>data_len -= start_offset\<close> subtracts a
  64-bit offset and stores the difference in an \<open>int\<close>. \<open>copy_null\<close> is the call with a NULL buffer.
\<close>

record kio =
  kio_move :: uiomove_out
  kio_beyond :: bytes

definition procfs_copy_data :: "kio \<Rightarrow> bytes option \<Rightarrow> int \<Rightarrow> uio \<Rightarrow> errno \<times> uio" where
  "procfs_copy_data K data len u =
     (let start_offset = uio_offset u;
          data_len = int32 (len - start_offset)
      in case data of
          Some d \<Rightarrow> if 0 \<le> data_len
            then kio_move K (drop (nat start_offset) (d @ kio_beyond K)) data_len u
            else (EIO, u)
        | None \<Rightarrow> if 0 \<le> data_len then (EFAULT, u) else (ENOTSUP, u))"

definition copy_out :: "kio \<Rightarrow> bytes \<Rightarrow> uio \<Rightarrow> errno \<times> uio" where
  \<comment> \<open>the usual call: the whole of a buffer\<close>
  "copy_out K d u = procfs_copy_data K (Some d) (int (length d)) u"

section \<open>Lemmas\<close>

lemma digits_value_mono: "v \<le> digits_value v s"
proof (induction s arbitrary: v)
  case (Cons c s)
  have "v \<le> v * 10 + digit_val c" by simp
  also have "\<dots> \<le> digits_value (v * 10 + digit_val c) s" by (rule Cons.IH)
  finally show ?case by (simp add: digits_value_def)
qed (simp add: digits_value_def)

lemma atoi_loop_digits:
  assumes "\<And>c. c \<in> set s \<Longrightarrow> is_digit c" "digits_value v s < 2 ^ 31"
  shows "atoi_loop (int v) (s @ rest) = atoi_loop (int (digits_value v s)) rest"
  using assms
proof (induction s arbitrary: v)
  case Nil
  then show ?case by (simp add: digits_value_def)
next
  case (Cons c s)
  let ?w = "v * 10 + digit_val c"
  have dv: "digits_value v (c # s) = digits_value ?w s" by (simp add: digits_value_def)
  then have w: "?w < 2 ^ 31" using Cons.prems(2) digits_value_mono [of ?w s] by linarith
  have "int32 (int v * 10 + int (digit_val c)) = int ?w"
    using w by (subst int32_id) auto
  moreover have "c \<noteq> NUL" "is_digit c" using Cons.prems(1) [of c] by auto
  ultimately show ?case using Cons.IH [of ?w] Cons.prems dv by simp
qed

lemma atoi_loop_stop: "\<not> (rest \<noteq> [] \<and> is_digit (hd rest)) \<Longrightarrow> atoi_loop v rest = (v, rest)"
  by (cases rest) auto

lemma get_pids_loop_eq:
  "get_pids_loop f creds pid count =
     map int (take (PROCFS_MAX_PROCS - count) (filter (proc_visible f creds) [pid..<Suc PROCFS_MAX_PID]))"
proof (induction f creds pid count rule: get_pids_loop.induct)
  case (1 f creds pid count)
  show ?case
  proof (cases "pid \<le> PROCFS_MAX_PID \<and> count < PROCFS_MAX_PROCS")
    case True
    then have "PROCFS_MAX_PROCS - count = Suc (PROCFS_MAX_PROCS - (count + 1))" by (simp add: Suc_diff_Suc)
    moreover have "[pid..<Suc PROCFS_MAX_PID] = pid # [pid + 1..<Suc PROCFS_MAX_PID]"
      using True by (simp add: upt_rec)
    ultimately show ?thesis using True 1 by (subst get_pids_loop.simps) simp
  next
    case False
    then show ?thesis by (subst get_pids_loop.simps) auto
  qed
qed

lemma copy_out_range:
  assumes "0 \<le> uio_offset u" "uio_offset u < 2 ^ 31" "length d < 2 ^ 31"
  shows "copy_out K d u = (if uio_offset u \<le> int (length d)
    then kio_move K (drop (nat (uio_offset u)) (d @ kio_beyond K)) (int (length d) - uio_offset u) u else (EIO, u))"
proof -
  have "int32 (int (length d) - uio_offset u) = int (length d) - uio_offset u"
    using assms by (intro int32_id) auto
  then show ?thesis by (simp add: copy_out_def procfs_copy_data_def Let_def)
qed

lemma copy_out_suffix:
  assumes mv: "uiomove_out_law (kio_move K)" "uiomove_out_nofault (kio_move K)"
    and "0 \<le> uio_offset u" "uio_offset u \<le> int (length d)" "length d < 2 ^ 31"
  shows "copy_out K d u = (0, uio_push (take (nat (uio_resid u)) (drop (nat (uio_offset u)) d)) u)"
proof -
  let ?o = "nat (uio_offset u)"
  have o: "?o \<le> length d" using assms by linarith
  have "take (move_len (int (length d) - uio_offset u) u) (drop ?o (d @ kio_beyond K)) =
      take (nat (uio_resid u)) (drop ?o d)"
  proof (cases "int (length d) - uio_offset u \<le> uio_resid u")
    case True
    then have "move_len (int (length d) - uio_offset u) u = length d - ?o"
      using assms(3) by (simp add: move_len_def min_def nat_diff_distrib')
    moreover have "length (drop ?o d) \<le> nat (uio_resid u)" using True assms(3) by simp
    ultimately show ?thesis using o by simp
  next
    case False
    then have "move_len (int (length d) - uio_offset u) u = nat (uio_resid u)"
      by (simp add: move_len_def min_def)
    moreover have "nat (uio_resid u) \<le> length d - ?o" using False assms(3) by linarith
    ultimately show ?thesis using o by simp
  qed
  then show ?thesis
    using assms uiomove_outD [OF mv] by (simp add: copy_out_range)
qed

lemma u64s_Cons: "u64s (u64_bytes x @ bs) = x # u64s bs"
proof -
  have "[0..<Suc n] = 0 # map Suc [0..<n]" for n by (simp add: upt_conv_Cons map_Suc_upt del: upt_Suc)
  moreover have "(8 + length bs) div 8 = Suc (length bs div 8)" by simp
  ultimately show ?thesis by (simp add: u64s_def comp_def del: upt_Suc)
qed

lemma u64s_concat: "u64s (concat (map u64_bytes ids)) = ids"
  by (induction ids) (simp_all add: u64s_Cons, simp add: u64s_def)

text \<open>A reader that asks for \<open>ns ! 0\<close>, \<open>ns ! 1\<close>, \<dots> bytes in turn.\<close>

fun read_seq :: "kio \<Rightarrow> bytes \<Rightarrow> nat list \<Rightarrow> uio \<Rightarrow> errno \<times> uio" where
  "read_seq K d [] u = (0, u)"
| "read_seq K d (n # ns) u = (case copy_out K d (u\<lparr>uio_resid := int n\<rparr>) of (e, u') \<Rightarrow>
     if e \<noteq> 0 then (e, u') else read_seq K d ns u')"

lemma read_seq_prefix:
  assumes mv: "uiomove_out_law (kio_move K)" "uiomove_out_nofault (kio_move K)" and "length d < 2 ^ 31"
    and "uio_offset u = int i" "i \<le> length d" "uio_user u = take i d"
  shows "fst (read_seq K d ns u) = 0 \<and> uio_user (snd (read_seq K d ns u)) = take (i + sum_list ns) d"
  using assms(4-6)
proof (induction ns arbitrary: u i)
  case (Cons n ns)
  let ?u = "u\<lparr>uio_resid := int n\<rparr>" and ?i = "min (i + n) (length d)"
  let ?v = "uio_push (take n (drop i d)) ?u"
  have "copy_out K d ?u = (0, ?v)"
    using copy_out_suffix [OF mv, of ?u d] Cons.prems assms(3) by simp
  moreover have "uio_offset ?v = int ?i" using Cons.prems by auto
  moreover have "uio_user ?v = take ?i d"
    using Cons.prems by (simp add: take_add [symmetric] min_def)
  moreover have "take (?i + sum_list ns) d = take (i + sum_list (n # ns)) d"
    by (simp add: min_def add.assoc)
  ultimately show ?case using Cons.IH [of ?v ?i] by simp
qed simp

lemma bit_bound:
  assumes "unat (w :: u64) < 2 ^ k" "k \<le> n"
  shows "\<not> bit w n"
proof -
  have "take_bit k (unat w) = unat w" using assms(1) by (simp add: take_bit_nat_eq_self)
  then have "bit (unat w) n \<longleftrightarrow> n < k \<and> bit (unat w) n" by (metis bit_take_bit_iff)
  then show ?thesis using assms(2) by (simp add: bit_unsigned_iff)
qed

text \<open>The three fields of a file id, when they fit.\<close>

lemma bit_fileid:
  assumes "0 \<le> pid" "pid < 2 ^ 16" "unat base < 2 ^ 8" "n < 64"
  shows "bit (procfs_get_fileid pid obj base) n \<longleftrightarrow>
    (if n < 8 then bit (ucast base :: u64) n else if n < 24 then bit (of_int pid :: u64) (n - 8)
     else bit obj (n - 24))"
proof -
  have "int32 (pid * 2 ^ 8) = pid * 2 ^ 8" using assms(1,2) by (intro int32_id) auto
  then have p: "of_int (int32 (pid * 2 ^ 8)) = push_bit 8 (of_int pid :: u64)"
    by (simp add: push_bit_eq_mult)
  have np: "pid \<noteq> PRNODE_NO_PID" using assms(1) by (simp add: PRNODE_NO_PID_def)
  have "unat (ucast base :: u64) < 2 ^ 8"
    using assms(3) by (simp add: unsigned_ucast_eq take_bit_nat_eq_self)
  then have b: "\<not> bit (ucast base :: u64) m" if "8 \<le> m" for m using bit_bound that by blast
  have "unat (of_int pid :: u64) = nat pid"
    using assms(1,2) by (simp add: unat_eq_nat_uint uint_word_of_int_eq take_bit_int_eq_self)
  then have "unat (of_int pid :: u64) < 2 ^ 16" using assms(1,2) by (simp add: nat_less_iff)
  then have q: "\<not> bit (of_int pid :: u64) m" if "16 \<le> m" for m using bit_bound that by blast
  show ?thesis
    using np p b [of n] q [of "n - 8"] assms(4)
    by (auto simp: procfs_get_fileid_def Let_def bit_or_iff bit_push_bit_iff)
qed

text \<open>Parsing a printed number gives it back, with the rest of the string as the end pointer.\<close>

lemma atoi_dec:
  assumes "n < 2 ^ 31" "\<not> (rest \<noteq> [] \<and> is_digit (hd rest))"
  shows "procfs_atoi (dec n @ rest) = (int n, rest)"
proof -
  have "atoi_loop (int 0) (dec n @ rest) = atoi_loop (int n) rest"
    using atoi_loop_digits [of "dec n" 0 rest] dec_digits assms(1) by (simp add: digits_value_dec)
  then show ?thesis using atoi_loop_stop [OF assms(2)] by (simp add: procfs_atoi_def)
qed

section \<open>Properties\<close>

text \<open>
  C20: a file read through \<open>procfs_copy_data\<close> in pieces of any sizes delivers exactly its
  contents: no read fails, the pieces put together are the prefix of the data of the total length
  asked for, and nothing of the memory behind the buffer gets out.
\<close>

theorem copy_data_sequential:
  assumes "uiomove_out_law (kio_move K)" "uiomove_out_nofault (kio_move K)" "length d < 2 ^ 31"
    and "uio_offset u = 0" "uio_user u = []"
  shows "fst (read_seq K d ns u) = 0 \<and> uio_user (snd (read_seq K d ns u)) = take (sum_list ns) d"
  using read_seq_prefix [OF assms(1-3), of u 0 ns] assms(4,5) by simp

theorem copy_data_sequential_witness:
  "uio_user (snd (read_seq \<lparr>kio_move = mv_out, kio_beyond = ''secret''\<rparr> ''hello'' [2, 0, 9, 9]
     \<lparr>uio_rw = UIO_READ, uio_offset = 0, uio_resid = 0, uio_user = []\<rparr>)) = ''hello''"
  using copy_data_sequential [of "\<lparr>kio_move = mv_out, kio_beyond = ''secret''\<rparr>" "''hello''"
      "\<lparr>uio_rw = UIO_READ, uio_offset = 0, uio_resid = 0, uio_user = []\<rparr>" "[2, 0, 9, 9]"] by simp

text \<open>
  The \<open>int\<close> in which the remaining length is kept wraps: at offset \<open>2 ^ 32\<close> the test sees the
  full length again and the copy starts 4 GiB behind the buffer.
\<close>

lemma copy_data_out_of_bounds:
  assumes "length d < 2 ^ 31" "uio_offset u = 2 ^ 32"
  shows "copy_out K d u = kio_move K (drop (2 ^ 32 - length d) (kio_beyond K)) (int (length d)) u"
proof -
  have "(of_int (int (length d) - 2 ^ 32) :: u32) = of_int (int (length d))" by simp
  then have "int32 (int (length d) - 2 ^ 32) = int32 (int (length d))" by (simp only: int32_def)
  also have "\<dots> = int (length d)" using assms(1) by (intro int32_id) auto
  finally show ?thesis using assms by (simp add: copy_out_def procfs_copy_data_def Let_def)
qed


text \<open>
  C22: file ids are unique as long as the fields fit their places: for base ids below 256, process
  ids below 65536 and object ids below \<open>2 ^ 40\<close> two nodes with the same file id have the same
  process, object and structure node.
\<close>

theorem fileid_injective:
  assumes "procfs_get_fileid pid obj base = procfs_get_fileid pid' obj' base'"
    and "0 \<le> pid" "pid < 2 ^ 16" "unat base < 2 ^ 8" "unat obj < 2 ^ 40"
    and "0 \<le> pid'" "pid' < 2 ^ 16" "unat base' < 2 ^ 8" "unat obj' < 2 ^ 40"
  shows "pid = pid' \<and> obj = obj' \<and> base = base'"
proof -
  have eq: "(if n < 8 then bit (ucast base :: u64) n else if n < 24 then bit (of_int pid :: u64) (n - 8)
      else bit obj (n - 24)) = (if n < 8 then bit (ucast base' :: u64) n
      else if n < 24 then bit (of_int pid' :: u64) (n - 8) else bit obj' (n - 24))" if "n < 64" for n
    using bit_fileid [OF assms(2,3,4) that, of obj] bit_fileid [OF assms(6,7,8) that, of obj'] assms(1) by simp
  have b: "bit base n = bit base' n" for n
  proof (cases "n < 8")
    case True
    then show ?thesis using eq [of n] by (simp add: bit_ucast_iff)
  next
    case False
    have "take_bit 8 (unat base) = unat base" "take_bit 8 (unat base') = unat base'"
      using assms(4,8) by (simp_all add: take_bit_nat_eq_self)
    then have "\<not> bit (unat base) n" "\<not> bit (unat base') n" using False by (metis bit_take_bit_iff)+
    then show ?thesis by (simp add: bit_unsigned_iff)
  qed
  have p: "bit (of_int pid :: u64) n = bit (of_int pid' :: u64) n" for n
  proof (cases "n < 16")
    case True
    then show ?thesis using eq [of "n + 8"] by simp
  next
    case False
    have "unat (of_int q :: u64) < 2 ^ 16" if "0 \<le> q" "q < 2 ^ 16" for q
    proof -
      have "unat (of_int q :: u64) = nat q"
        using that by (simp add: unat_eq_nat_uint uint_word_of_int_eq take_bit_int_eq_self)
      then show ?thesis using that by (simp add: nat_less_iff)
    qed
    then show ?thesis using bit_bound [of _ 16 n] False assms(2,3,6,7) by simp
  qed
  have o: "bit obj n = bit obj' n" for n
    using eq [of "n + 24"] bit_bound [OF assms(5), of n] bit_bound [OF assms(9), of n] by (cases "n < 40") auto
  have "(of_int pid :: u64) = of_int pid'" using p by (intro bit_eqI) simp
  then have "pid mod 2 ^ 64 = pid' mod 2 ^ 64"
    by (simp add: word_of_int_eq_iff take_bit_eq_mod)
  then have "pid = pid'" using assms(2,3,6,7) by simp
  moreover have "base = base'" using b by (intro bit_eqI) simp
  moreover have "obj = obj'" using o by (intro bit_eqI) simp
  ultimately show ?thesis by simp
qed

theorem fileid_injective_witness:
  "procfs_get_fileid 1 0 116 \<noteq> procfs_get_fileid 257 0 116"
  using fileid_injective [of 1 0 116 257 0 116] by auto


definition demo_proc :: kproc where
  "demo_proc = \<lparr>kp_pid = 1, kp_ppid = 0, kp_pgrpid = 1, kp_sessionid = 1, kp_uid = 0, kp_ruid = 0, kp_gid = 0,
     kp_rgid = 0, kp_svuid = 0, kp_svgid = 0, kp_stat = 3, kp_flag = 0, kp_name = ''launchd'', kp_start = (0, 0), kp_textvp = Some 1,
     kp_cdir = Some 2, kp_rdir = None, kp_limit = None\<rparr>"


end
