(* ===== verification/Version.thy ===== *)
theory Version
  imports Subr
begin

text \<open>
  The version spoof of \<open>kext/procfs_linux.c\<close>: the table of Linux releases, the comparison of
  dotted versions, the gating of the two symbol-table nodes, and \<open>/proc/version\<close>.
\<close>

section \<open>The release table\<close>

definition procfs_linux_versions :: "cstring option list" where
  "procfs_linux_versions = [None, Some ''6.12.0'', Some ''6.6.0'', Some ''6.1.0'', Some ''5.15.0'',
     Some ''5.10.0'', Some ''2.5.47'']"

definition procfs_spoofed_release :: "int \<Rightarrow> cstring option" where
  "procfs_spoofed_release v =
     (if 0 < v \<and> v < int (length procfs_linux_versions) then procfs_linux_versions ! nat v else None)"

text \<open>
  \<open>procfs_vercmp\<close> does not advance over a character that is neither a digit nor a dot; such a
  string makes the loop run forever, which is \<^const>\<open>None\<close> here.
\<close>

definition skip_dot :: "cstring \<Rightarrow> cstring" where
  "skip_dot a = (case a of c # cs \<Rightarrow> if c = CHR ''.'' then cs else a | [] \<Rightarrow> [])"

partial_function (option) procfs_vercmp :: "cstring \<Rightarrow> cstring \<Rightarrow> int option" where
  "procfs_vercmp a b =
     (if a = [] \<and> b = [] then Some 0
      else let (na, a1) = atoi_loop 0 a; (nb, b1) = atoi_loop 0 b
           in if na \<noteq> nb then Some (int32 (na - nb)) else procfs_vercmp (skip_dot a1) (skip_dot b1))"

definition procfs_node_version_hidden :: "int \<Rightarrow> cstring \<Rightarrow> bool option" where
  "procfs_node_version_hidden v name = (case procfs_spoofed_release v of None \<Rightarrow> Some False
     | Some rel \<Rightarrow>
         let is_ksyms = (name = ''ksyms''); is_kallsyms = (name = ''kallsyms'') in
         if \<not> is_ksyms \<and> \<not> is_kallsyms then Some False
         else (case procfs_vercmp rel ''2.5.47'' of None \<Rightarrow> None
           | Some r \<Rightarrow> Some (if r \<le> 0 then is_kallsyms else is_ksyms)))"

definition procfs_build_linux_version :: "int \<Rightarrow> cstring" where
  \<comment> \<open>the formatted string; its length is what \<open>snprintf\<close> returns\<close>
  "procfs_build_linux_version v = (case procfs_spoofed_release v of None \<Rightarrow> []
     | Some rel \<Rightarrow> ''Linux version '' @ rel @ '' (builder@linux-build-env) '' @
         ''(gcc version 10.3.0 (Ubuntu 10.3.0-1ubuntu1)) '' @
         ''#1 SMP PREEMPT_DYNAMIC Sat Dec 14 12:00:00 UTC 2024'' @ [NEWLINE])"

section \<open>/proc/version\<close>

definition LBFSZ :: nat where "LBFSZ = 8 * 1024"

text \<open>A formatted buffer of \<open>sz\<close> bytes, of which \<open>length s\<close> are said to be valid.\<close>

definition copy_snprintf :: "kio \<Rightarrow> nat \<Rightarrow> string \<Rightarrow> uio \<Rightarrow> errno \<times> uio" where
  "copy_snprintf K sz s u = procfs_copy_data K
     (Some (snprintf sz s @ replicate (sz - length (snprintf sz s)) NUL)) (int (length s)) u"

text \<open>
  Without a spoof the kernel's version string is copied from the start of the buffer, whatever
  the offset; only its length is reduced by the offset within the page.
\<close>

definition procfs_doversion :: "kio \<Rightarrow> int \<Rightarrow> int \<Rightarrow> cstring \<Rightarrow> uio \<Rightarrow> errno \<times> uio" where
  "procfs_doversion K page_size v version u =
     (let vb = procfs_build_linux_version v in
      if 0 < length vb then copy_snprintf K LBFSZ vb u
      else let off = uio_offset u; pgno = off - off mod page_size; pgoff = off - pgno;
               text = version @ [NEWLINE];
               len = int (length text);
               xlen = int32 (len - pgoff)
           in kio_move K (snprintf LBFSZ text @ [NUL]) xlen u)"

section \<open>Comparison of dotted versions\<close>

text \<open>The reference: the components as numbers, a missing component counting as 0.\<close>

fun dotted :: "nat list \<Rightarrow> cstring" where
  "dotted [] = []"
| "dotted [n] = dec n"
| "dotted (n # m # ns) = dec n @ CHR ''.'' # dotted (m # ns)"

fun vdiff :: "nat list \<Rightarrow> nat list \<Rightarrow> int" where
  "vdiff [] [] = 0"
| "vdiff (x # xs) [] = (if x \<noteq> 0 then int x else vdiff xs [])"
| "vdiff [] (y # ys) = (if y \<noteq> 0 then - int y else vdiff [] ys)"
| "vdiff (x # xs) (y # ys) = (if x \<noteq> y then int x - int y else vdiff xs ys)"

lemma atoi_dotted:
  assumes "n < 2 ^ 31"
  shows "\<exists>r. atoi_loop 0 (dotted (n # ns)) = (int n, r) \<and> skip_dot r = dotted ns"
proof (cases ns)
  case Nil
  have "atoi_loop (int 0) (dec n @ []) = (int n, [])"
    using assms dec_digits by (subst atoi_loop_digits) (auto simp: digits_value_dec)
  with Nil show ?thesis by (simp add: skip_dot_def)
next
  case (Cons m ms)
  let ?r = "CHR ''.'' # dotted (m # ms)"
  have "atoi_loop (int 0) (dec n @ ?r) = (int n, ?r)"
    using assms dec_digits by (subst atoi_loop_digits) (auto simp: digits_value_dec is_digit_def)
  with Cons show ?thesis by (simp add: skip_dot_def)
qed

lemma atoi_Nil: "atoi_loop 0 (dotted []) = (0, []) \<and> skip_dot [] = dotted []"
  by (simp add: skip_dot_def)

lemma dotted_Nil_iff [simp]: "dotted xs = [] \<longleftrightarrow> xs = []"
  by (cases xs rule: dotted.cases) auto

lemma vercmp_turn:
  assumes "atoi_loop 0 (dotted xs) = (na, a1)" "atoi_loop 0 (dotted ys) = (nb, b1)" "xs \<noteq> [] \<or> ys \<noteq> []"
  shows "procfs_vercmp (dotted xs) (dotted ys) =
    (if na \<noteq> nb then Some (int32 (na - nb)) else procfs_vercmp (skip_dot a1) (skip_dot b1))"
  using assms by (subst procfs_vercmp.simps) auto

lemma vercmp_vdiff:
  assumes "\<forall>x \<in> set xs. x < 2 ^ 31" "\<forall>y \<in> set ys. y < 2 ^ 31"
  shows "procfs_vercmp (dotted xs) (dotted ys) = Some (vdiff xs ys)"
  using assms
proof (induction xs ys rule: vdiff.induct)
  case 1
  show ?case by (subst procfs_vercmp.simps) simp
next
  case (2 x xs)
  then have "x < 2 ^ 31" by simp
  from atoi_dotted [OF this] obtain r where r: "atoi_loop 0 (dotted (x # xs)) = (int x, r)" "skip_dot r = dotted xs"
    by blast
  have "int32 (int x) = int x" using 2 by (intro int32_id) auto
  moreover have "procfs_vercmp (dotted (x # xs)) (dotted []) =
      (if int x \<noteq> 0 then Some (int32 (int x - 0)) else procfs_vercmp (skip_dot r) (skip_dot []))"
    using atoi_Nil by (intro vercmp_turn [OF r(1)]) auto
  ultimately show ?case using 2 r(2) atoi_Nil by (simp del: dotted.simps)
next
  case (3 y ys)
  then have "y < 2 ^ 31" by simp
  from atoi_dotted [OF this] obtain r where r: "atoi_loop 0 (dotted (y # ys)) = (int y, r)" "skip_dot r = dotted ys"
    by blast
  have "int32 (- int y) = - int y" using 3 by (intro int32_id) auto
  moreover have "procfs_vercmp (dotted []) (dotted (y # ys)) =
      (if 0 \<noteq> int y then Some (int32 (0 - int y)) else procfs_vercmp (skip_dot []) (skip_dot r))"
    using atoi_Nil by (intro vercmp_turn [OF _ r(1)]) auto
  ultimately show ?case using 3 r(2) atoi_Nil by (simp del: dotted.simps)
next
  case (4 x xs y ys)
  then have "x < 2 ^ 31" "y < 2 ^ 31" by simp_all
  from atoi_dotted [OF this(1)] atoi_dotted [OF this(2)] obtain r s where
    r: "atoi_loop 0 (dotted (x # xs)) = (int x, r)" "skip_dot r = dotted xs" and
    s: "atoi_loop 0 (dotted (y # ys)) = (int y, s)" "skip_dot s = dotted ys" by blast
  have "int32 (int x - int y) = int x - int y" using 4 by (intro int32_id) auto
  then show ?case using vercmp_turn [OF r(1) s(1)] 4 r(2) s(2) by (simp del: dotted.simps)
qed

lemma copy_snprintf_fits:
  assumes "length s < sz"
  shows "copy_snprintf K sz s u =
    copy_out (K\<lparr>kio_beyond := replicate (sz - length s) NUL @ kio_beyond K\<rparr>) s u"
proof -
  have "snprintf sz s = s" using assms by (simp add: snprintf_def)
  then show ?thesis by (simp add: copy_snprintf_def copy_out_def procfs_copy_data_def Let_def)
qed

text \<open>Which node a spoofed release did not have.\<close>

definition version_gate :: "int \<Rightarrow> cstring \<Rightarrow> bool" where
  "version_gate v name \<longleftrightarrow> (if v \<in> {1..5} then name = ''ksyms'' else if v = 6 then name = ''kallsyms'' else False)"

lemma version_hidden_gate: "procfs_node_version_hidden v name = Some (version_gate v name)"
proof -
  have d: "''6.12.0'' = dotted [6, 12, 0]" "''6.6.0'' = dotted [6, 6, 0]" "''6.1.0'' = dotted [6, 1, 0]"
    "''5.15.0'' = dotted [5, 15, 0]" "''5.10.0'' = dotted [5, 10, 0]" "''2.5.47'' = dotted [2, 5, 47]"
    by code_simp+
  have c: "procfs_vercmp (dotted [a, b, c]) (dotted [2, 5, 47]) = Some (vdiff [a, b, c] [2, 5, 47])"
    if "a < 100" "b < 100" "c < 100" for a b c
    using that by (intro vercmp_vdiff) auto
  consider "v \<le> 0" | "v = 1" | "v = 2" | "v = 3" | "v = 4" | "v = 5" | "v = 6" | "6 < v" by linarith
  then show ?thesis
    by cases (auto simp: procfs_node_version_hidden_def procfs_spoofed_release_def procfs_linux_versions_def
        Let_def d c version_gate_def simp del: dotted.simps)
qed

section \<open>Properties\<close>

text \<open>
  C25: \<open>procfs_vercmp\<close> ends on dotted decimal versions and orders them component by component:
  its result is the difference of the first components that differ, a missing component counting
  as 0, and 0 when there is none.
\<close>

theorem vercmp_dotted:
  assumes "list_all (\<lambda>x. x < 2 ^ 31) xs" "list_all (\<lambda>y. y < 2 ^ 31) ys"
  shows "procfs_vercmp (dotted xs) (dotted ys) = Some (vdiff xs ys)"
  using vercmp_vdiff assms by (simp add: list_all_iff)

theorem vercmp_dotted_witness: "procfs_vercmp (dotted [6, 12, 0]) (dotted [6, 6]) = Some 6"
  using vercmp_dotted [of "[6, 12, 0]" "[6, 6]"] by simp

text \<open>
  The gating always decides, and shows what the release had: natively both symbol tables,
  under the 2.5.47 spoof \<open>ksyms\<close> only, under the newer ones \<open>kallsyms\<close> only; no other name is
  ever hidden.
\<close>

lemma version_hidden_table:
  "procfs_node_version_hidden v name =
     Some (if v \<in> {1..5} then name = ''ksyms'' else if v = 6 then name = ''kallsyms'' else False)"
  by (simp add: version_hidden_gate version_gate_def)

text \<open>
  Without a spoof, reading on from where the last read stopped delivers the beginning of the
  version string again.
\<close>

lemma native_version_restarts:
  assumes "uiomove_out_law (kio_move K)" "uiomove_out_nofault (kio_move K)" "procfs_spoofed_release v = None"
    and "0 \<le> uio_offset u" "uio_offset u < page_size" "0 \<le> uio_resid u"
    and "uio_offset u + uio_resid u \<le> int (length version)" "length version + 1 < LBFSZ"
  shows "procfs_doversion K page_size v version u = (0, uio_push (take (nat (uio_resid u)) version) u)"
proof -
  let ?len = "int (length version) + 1"
  have "int32 (?len - uio_offset u) = ?len - uio_offset u"
    using assms by (intro int32_id) (auto simp: LBFSZ_def)
  moreover have "snprintf LBFSZ (version @ [NEWLINE]) = version @ [NEWLINE]"
    using assms(8) by (simp add: snprintf_def)
  moreover have "move_len (?len - uio_offset u) u = nat (uio_resid u)"
    using assms(7) by (simp add: move_len_def min_def)
  moreover have "uio_offset u mod page_size = uio_offset u" using assms(4,5) by simp
  moreover have "nat (uio_resid u) \<le> length version" using assms(4,7) by linarith
  ultimately show ?thesis
    using uiomove_outD [OF assms(1,2)] assms(3)
    by (simp add: procfs_doversion_def procfs_build_linux_version_def Let_def add.commute)
qed

end
