(* ===== verification/Sysctl.thy ===== *)
theory Sysctl
  imports Version
begin

text \<open>
  \<open>/proc/sys\<close>, \<open>kext/procfs_sysctl.c\<close>: a mirror of the kernel's sysctl tree with the synthetic
  directory \<open>kernel/random\<close> grafted in. An object id is the address of an oid, 0 for the root of
  the tree, or one of five sentinels for the synthetic nodes.

  The kernel's tree of oids is the argument \<open>mib\<close>. An oid whose type is \<open>CTLTYPE_NODE\<close> has its
  child list in \<open>oid_arg1\<close>, \<^const>\<open>None\<close> standing for NULL; dereferencing an object id is
  \<open>oid_at\<close>.
\<close>

section \<open>The oid tree\<close>

datatype oid = Oid (oid_addr: u64) (oid_name: "cstring option") (oid_kind: u32) (oid_number: int)
  (oid_fmt: "cstring option") (oid_arg1: "oid list option")

definition CTLTYPE :: u32 where "CTLTYPE = 0xf"
definition CTLTYPE_NODE :: u32 where "CTLTYPE_NODE = 1"
definition CTLTYPE_INT :: u32 where "CTLTYPE_INT = 2"
definition CTLTYPE_STRING :: u32 where "CTLTYPE_STRING = 3"
definition CTLTYPE_QUAD :: u32 where "CTLTYPE_QUAD = 4"
definition CTLFLAG_MASKED :: u32 where "CTLFLAG_MASKED = 0x04000000"
definition OID_MUTABLE_ANCHOR :: int where "OID_MUTABLE_ANCHOR = - (2 ^ 31)"

definition oid_is_node :: "oid \<Rightarrow> bool" where
  "oid_is_node oid \<longleftrightarrow> oid_kind oid AND CTLTYPE = CTLTYPE_NODE"

fun all_oids :: "oid list \<Rightarrow> oid list" where
  "all_oids [] = []"
| "all_oids (Oid a n k i f None # os) = Oid a n k i f None # all_oids os"
| "all_oids (Oid a n k i f (Some cs) # os) = Oid a n k i f (Some cs) #
     (if k AND CTLTYPE = CTLTYPE_NODE then all_oids cs else []) @ all_oids os"

definition oid_at :: "oid list \<Rightarrow> u64 \<Rightarrow> oid option" where
  "oid_at mib objectid = List.find (\<lambda>oid. oid_addr oid = objectid) (all_oids mib)"

section \<open>Synthetic nodes\<close>

definition PROCFS_SYN_RANDOM :: u64 where "PROCFS_SYN_RANDOM = 1"
definition PROCFS_SYN_RANDOM_BOOT_ID :: u64 where "PROCFS_SYN_RANDOM_BOOT_ID = 2"
definition PROCFS_SYN_RANDOM_ENTROPY :: u64 where "PROCFS_SYN_RANDOM_ENTROPY = 3"
definition PROCFS_SYN_RANDOM_POOLSIZE :: u64 where "PROCFS_SYN_RANDOM_POOLSIZE = 4"
definition PROCFS_SYN_RANDOM_UUID :: u64 where "PROCFS_SYN_RANDOM_UUID = 5"
definition PROCFS_SYN_MAX :: u64 where "PROCFS_SYN_MAX = 6"
definition PROCFS_RANDOM_POOLSIZE_BITS :: int where "PROCFS_RANDOM_POOLSIZE_BITS = 256"

lemmas syn_defs = PROCFS_SYN_RANDOM_def PROCFS_SYN_RANDOM_BOOT_ID_def PROCFS_SYN_RANDOM_ENTROPY_def
  PROCFS_SYN_RANDOM_POOLSIZE_def PROCFS_SYN_RANDOM_UUID_def PROCFS_SYN_MAX_def

definition PROCFS_SYN_IS :: "u64 \<Rightarrow> bool" where
  "PROCFS_SYN_IS objectid \<longleftrightarrow> PROCFS_SYN_RANDOM \<le> objectid \<and> objectid < PROCFS_SYN_MAX"

definition procfs_random_leaves :: "(cstring \<times> u64) list" where
  "procfs_random_leaves = [(''boot_id'', PROCFS_SYN_RANDOM_BOOT_ID),
     (''entropy_avail'', PROCFS_SYN_RANDOM_ENTROPY), (''poolsize'', PROCFS_SYN_RANDOM_POOLSIZE),
     (''uuid'', PROCFS_SYN_RANDOM_UUID)]"

definition procfs_sysctl_kern_objectid :: "oid list \<Rightarrow> u64" where
  "procfs_sysctl_kern_objectid mib =
     (case List.find (\<lambda>oid. oid_name oid = Some ''kern'') mib of Some oid \<Rightarrow> oid_addr oid | None \<Rightarrow> 0)"

section \<open>Lookup and enumeration\<close>

definition procfs_sysctl_children :: "oid list \<Rightarrow> u64 \<Rightarrow> oid list option" where
  "procfs_sysctl_children mib objectid =
     (if objectid = 0 then Some mib
      else (case oid_at mib objectid of None \<Rightarrow> None
        | Some oid \<Rightarrow> if \<not> oid_is_node oid then None else oid_arg1 oid))"

definition procfs_sysctl_hidden :: "oid \<Rightarrow> bool" where
  "procfs_sysctl_hidden oid \<longleftrightarrow> oid_name oid = None \<or> oid_kind oid AND CTLFLAG_MASKED \<noteq> 0 \<or>
     oid_number oid = OID_MUTABLE_ANCHOR"

definition procfs_sysctl_is_node :: "oid list \<Rightarrow> u64 \<Rightarrow> bool" where
  "procfs_sysctl_is_node mib objectid =
     (if objectid = 0 then True
      else if PROCFS_SYN_IS objectid then objectid = PROCFS_SYN_RANDOM
      else (case oid_at mib objectid of None \<Rightarrow> False | Some oid \<Rightarrow> oid_is_node oid))"

definition procfs_sysctl_find :: "oid list \<Rightarrow> u64 \<Rightarrow> cstring \<Rightarrow> u64 option" where
  "procfs_sysctl_find mib dir_objectid name0 =
     (let name = (if dir_objectid = 0 \<and> name0 = ''kernel'' then ''kern'' else name0) in
      if dir_objectid = PROCFS_SYN_RANDOM then map_of procfs_random_leaves name
      else (case procfs_sysctl_children mib dir_objectid of None \<Rightarrow> None
        | Some list \<Rightarrow>
            (case List.find (\<lambda>oid. \<not> procfs_sysctl_hidden oid \<and> oid_name oid = Some name) list of
               Some oid \<Rightarrow> Some (oid_addr oid)
             | None \<Rightarrow> if name = ''random'' \<and> dir_objectid = procfs_sysctl_kern_objectid mib
                 then Some PROCFS_SYN_RANDOM else None)))"

text \<open>The loop of \<open>child_at\<close>: \<open>Inl\<close> the number of visible children when the index is past them.\<close>

fun child_loop :: "nat \<Rightarrow> nat \<Rightarrow> oid list \<Rightarrow> nat + (cstring \<times> bool \<times> u64)" where
  "child_loop i index [] = Inl i"
| "child_loop i index (oid # os) =
     (if procfs_sysctl_hidden oid then child_loop i index os
      else if i = index then Inr (the (oid_name oid), oid_is_node oid, oid_addr oid)
      else child_loop (i + 1) index os)"

definition procfs_sysctl_child_at :: "oid list \<Rightarrow> u64 \<Rightarrow> nat \<Rightarrow> (cstring \<times> bool \<times> u64) option" where
  "procfs_sysctl_child_at mib dir_objectid index =
     (if dir_objectid = PROCFS_SYN_RANDOM then
        (if length procfs_random_leaves \<le> index then None
         else (case procfs_random_leaves ! index of (name, objectid) \<Rightarrow> Some (name, False, objectid)))
      else (case procfs_sysctl_children mib dir_objectid of None \<Rightarrow> None
        | Some list \<Rightarrow> (case child_loop 0 index list of Inr c \<Rightarrow> Some c
            | Inl i \<Rightarrow> if index = i \<and> dir_objectid = procfs_sysctl_kern_objectid mib
                then Some (''random'', True, PROCFS_SYN_RANDOM) else None)))"

section \<open>Names and parents\<close>

definition mib_path :: "cstring \<Rightarrow> cstring \<Rightarrow> cstring" where
  "mib_path prefix name = (if prefix \<noteq> [] then snprintf 256 (prefix @ CHR ''.'' # name) else strlcpy name 256)"

fun procfs_sysctl_build_name :: "oid list \<Rightarrow> cstring \<Rightarrow> u64 \<Rightarrow> nat \<Rightarrow> cstring option" where
  "procfs_sysctl_build_name [] prefix tgt outsz = None"
| "procfs_sysctl_build_name (Oid a None k i f arg1 # os) prefix tgt outsz =
     procfs_sysctl_build_name os prefix tgt outsz"
| "procfs_sysctl_build_name (Oid a (Some name) k i f None # os) prefix tgt outsz =
     (if a = tgt then Some (strlcpy (mib_path prefix name) outsz)
      else procfs_sysctl_build_name os prefix tgt outsz)"
| "procfs_sysctl_build_name (Oid a (Some name) k i f (Some cs) # os) prefix tgt outsz =
     (let path = mib_path prefix name in
      if a = tgt then Some (strlcpy path outsz)
      else if k AND CTLTYPE = CTLTYPE_NODE then
        (case procfs_sysctl_build_name cs path tgt outsz of Some n \<Rightarrow> Some n
         | None \<Rightarrow> procfs_sysctl_build_name os prefix tgt outsz)
      else procfs_sysctl_build_name os prefix tgt outsz)"

fun procfs_sysctl_find_parent :: "oid list \<Rightarrow> u64 \<Rightarrow> u64 \<Rightarrow> u64 option" where
  "procfs_sysctl_find_parent [] parent_id tgt = None"
| "procfs_sysctl_find_parent (Oid a n k i f None # os) parent_id tgt =
     (if a = tgt then Some parent_id else procfs_sysctl_find_parent os parent_id tgt)"
| "procfs_sysctl_find_parent (Oid a n k i f (Some cs) # os) parent_id tgt =
     (if a = tgt then Some parent_id
      else if k AND CTLTYPE = CTLTYPE_NODE then
        (case procfs_sysctl_find_parent cs a tgt of Some p \<Rightarrow> Some p
         | None \<Rightarrow> procfs_sysctl_find_parent os parent_id tgt)
      else procfs_sysctl_find_parent os parent_id tgt)"

definition procfs_sysctl_parent :: "oid list \<Rightarrow> u64 \<Rightarrow> u64 option" where
  "procfs_sysctl_parent mib objectid =
     (if objectid = 0 then None
      else if objectid = PROCFS_SYN_RANDOM then Some (procfs_sysctl_kern_objectid mib)
      else if PROCFS_SYN_IS objectid then Some PROCFS_SYN_RANDOM
      else procfs_sysctl_find_parent mib 0 objectid)"

section \<open>Reading\<close>

text \<open>
  What a read needs besides the tree: the bridge to the daemon, the kernel's own
  \<open>sysctlbyname\<close>, a fresh random UUID and the spoofed version.
\<close>

record sysctl_env =
  se_ctl :: ctl_oracle
  se_sysctlbyname :: "cstring \<Rightarrow> nat \<Rightarrow> bytes res"
  se_uuid :: cstring
  se_version :: int

definition raw_value :: "sysctl_env \<Rightarrow> cstring \<Rightarrow> nat \<Rightarrow> bool \<Rightarrow> bytes" where
  \<comment> \<open>the daemon's answer, or the kernel's; the flag asks for a non-empty answer of the daemon\<close>
  "raw_value E name cap nonempty = (case se_ctl E REQ_SYSCTL 0 0 name cap of
      Inr d \<Rightarrow> if nonempty \<and> d = [] then (case se_sysctlbyname E name cap of Inr r \<Rightarrow> r | Inl _ \<Rightarrow> []) else d
    | Inl _ \<Rightarrow> (case se_sysctlbyname E name cap of Inr r \<Rightarrow> r | Inl _ \<Rightarrow> []))"

definition trim_end :: "bytes \<Rightarrow> bytes" where
  "trim_end raw = rev (dropWhile (\<lambda>c. c = NUL \<or> c = NEWLINE) (rev raw))"

definition lower_char :: "char \<Rightarrow> char" where
  "lower_char c = (if 65 \<le> (of_char c :: nat) \<and> (of_char c :: nat) \<le> 90 then char_of ((of_char c :: nat) + 32) else c)"

definition cut_nul :: "bytes \<Rightarrow> cstring" where
  \<comment> \<open>what \<open>%.*s\<close> prints of a buffer\<close>
  "cut_nul raw = takeWhile (\<lambda>c. c \<noteq> NUL) raw"

definition procfs_random_boot_id :: "sysctl_env \<Rightarrow> string" where
  "procfs_random_boot_id E =
     (let raw = trim_end (raw_value E ''kern.bootsessionuuid'' 64 True)
      in if raw = [] then se_uuid E @ [NEWLINE]
         else cut_nul (map lower_char raw) @ [NEWLINE])"

definition procfs_sysctl_read_synthetic :: "kio \<Rightarrow> sysctl_env \<Rightarrow> u64 \<Rightarrow> uio \<Rightarrow> errno \<times> uio" where
  "procfs_sysctl_read_synthetic K E objectid u =
     (if objectid = PROCFS_SYN_RANDOM then (EISDIR, u)
      else if objectid = PROCFS_SYN_RANDOM_BOOT_ID then copy_snprintf K 64 (procfs_random_boot_id E) u
      else if objectid = PROCFS_SYN_RANDOM_UUID then copy_snprintf K 64 (se_uuid E @ [NEWLINE]) u
      else if objectid = PROCFS_SYN_RANDOM_ENTROPY \<or> objectid = PROCFS_SYN_RANDOM_POOLSIZE
        then copy_snprintf K 64 (dec_int PROCFS_RANDOM_POOLSIZE_BITS @ [NEWLINE]) u
      else (ENOENT, u))"

definition fmt_starts :: "cstring option \<Rightarrow> char \<Rightarrow> bool" where
  "fmt_starts fmt c = (case fmt of Some (a # b # _) \<Rightarrow> a = c \<and> b = CHR ''U'' | _ \<Rightarrow> False)"

definition format_value :: "oid \<Rightarrow> bytes \<Rightarrow> string option" where
  \<comment> \<open>the text of a value by the type of its oid; \<open>None\<close> for opaque ones\<close>
  "format_value oid raw =
     (let type = oid_kind oid AND CTLTYPE in
      if type = CTLTYPE_STRING then
        Some (cut_nul (if last raw = NUL then butlast raw else raw) @ [NEWLINE])
      else if type = CTLTYPE_INT then
        Some (if 4 \<le> length raw
          then (if fmt_starts (oid_fmt oid) CHR ''I'' then dec (unat (le_u32 raw)) else dec_int (le_int32 raw)) @ [NEWLINE]
          else [])
      else if type = CTLTYPE_QUAD then
        Some (if 8 \<le> length raw
          then (if fmt_starts (oid_fmt oid) CHR ''Q'' then dec (unat (le_u64 raw)) else dec_int (sint (le_u64 raw))) @ [NEWLINE]
          else [])
      else None)"

definition procfs_sysctl_value :: "kio \<Rightarrow> sysctl_env \<Rightarrow> oid list \<Rightarrow> u64 \<Rightarrow> cstring \<Rightarrow> uio \<Rightarrow> errno \<times> uio" where
  "procfs_sysctl_value K E mib objectid name u =
     (let raw = raw_value E name 1024 False in
      if raw = [] then copy_out K [] u
      else (case oid_at mib objectid of None \<Rightarrow> (ENOENT, u)
        | Some oid \<Rightarrow> (case format_value oid raw of None \<Rightarrow> copy_out K [] u
            | Some text \<Rightarrow> copy_snprintf K 1100 text u)))"

definition procfs_sysctl_read :: "kio \<Rightarrow> sysctl_env \<Rightarrow> oid list \<Rightarrow> u64 \<Rightarrow> uio \<Rightarrow> errno \<times> uio" where
  "procfs_sysctl_read K E mib objectid u =
     (if PROCFS_SYN_IS objectid then procfs_sysctl_read_synthetic K E objectid u
      else if procfs_sysctl_is_node mib objectid then (EISDIR, u)
      else (case procfs_sysctl_build_name mib [] objectid PROCFS_CTL_NAMEMAX of None \<Rightarrow> (ENOENT, u)
        | Some name \<Rightarrow>
          (case procfs_spoofed_release (se_version E) of
             Some rel \<Rightarrow>
               if name = ''kern.ostype'' then procfs_copy_data K (Some (''Linux'' @ [NEWLINE])) 6 u
               else if name = ''kern.osrelease'' then copy_snprintf K 512 (rel @ [NEWLINE]) u
               else if name = ''kern.version'' then copy_snprintf K 512 (procfs_build_linux_version (se_version E)) u
               else procfs_sysctl_value K E mib objectid name u
           | None \<Rightarrow> procfs_sysctl_value K E mib objectid name u)))"

section \<open>A directory as a list\<close>

text \<open>The reference: the entries of a directory in order.\<close>

definition oid_entry :: "oid \<Rightarrow> cstring \<times> bool \<times> u64" where
  "oid_entry oid = (the (oid_name oid), oid_is_node oid, oid_addr oid)"

definition sysctl_entries :: "oid list \<Rightarrow> u64 \<Rightarrow> (cstring \<times> bool \<times> u64) list" where
  "sysctl_entries mib dir =
     (if dir = PROCFS_SYN_RANDOM then map (\<lambda>(n, i). (n, False, i)) procfs_random_leaves
      else (case procfs_sysctl_children mib dir of None \<Rightarrow> []
        | Some list \<Rightarrow> map oid_entry (filter (\<lambda>oid. \<not> procfs_sysctl_hidden oid) list) @
            (if dir = procfs_sysctl_kern_objectid mib then [(''random'', True, PROCFS_SYN_RANDOM)] else [])))"

lemma child_loop_eq:
  "i \<le> index \<Longrightarrow> child_loop i index os =
     (let vs = map oid_entry (filter (\<lambda>oid. \<not> procfs_sysctl_hidden oid) os)
      in if index - i < length vs then Inr (vs ! (index - i)) else Inl (i + length vs))"
proof (induction os arbitrary: i)
  case (Cons oid os)
  show ?case
  proof (cases "procfs_sysctl_hidden oid \<or> i = index")
    case True
    then show ?thesis using Cons by (auto simp: oid_entry_def Let_def)
  next
    case False
    then have "index - i = Suc (index - (i + 1))" "i + 1 \<le> index" using Cons.prems by auto
    then show ?thesis using False Cons.IH [of "i + 1"] by (simp add: Let_def)
  qed
qed simp

lemma child_at_entries:
  "procfs_sysctl_child_at mib dir i =
     (if i < length (sysctl_entries mib dir) then Some (sysctl_entries mib dir ! i) else None)"
  by (auto simp: procfs_sysctl_child_at_def sysctl_entries_def child_loop_eq Let_def nth_append
      split: option.splits prod.splits)

lemma find_oid_entry:
  "map_option oid_addr (List.find (\<lambda>oid. \<not> procfs_sysctl_hidden oid \<and> oid_name oid = Some n) os) =
     map_option (\<lambda>e. snd (snd e)) (List.find (\<lambda>e. fst e = n)
       (map oid_entry (filter (\<lambda>oid. \<not> procfs_sysctl_hidden oid) os)))"
proof (induction os)
  case (Cons oid os)
  have "oid_name oid \<noteq> None" if "\<not> procfs_sysctl_hidden oid" using that by (simp add: procfs_sysctl_hidden_def)
  with Cons show ?case by (auto simp: oid_entry_def)
qed simp

lemma find_append: "List.find P (xs @ ys) = (case List.find P xs of Some x \<Rightarrow> Some x | None \<Rightarrow> List.find P ys)"
  by (induction xs) auto

lemma find_entries:
  assumes "\<not> (dir = 0 \<and> name = ''kernel'')"
  shows "procfs_sysctl_find mib dir name =
    map_option (\<lambda>e. snd (snd e)) (List.find (\<lambda>e. fst e = name) (sysctl_entries mib dir))"
proof (cases "dir = PROCFS_SYN_RANDOM")
  case True
  then show ?thesis
    by (simp add: procfs_sysctl_find_def sysctl_entries_def procfs_random_leaves_def syn_defs)
next
  case False
  show ?thesis
  proof (cases "procfs_sysctl_children mib dir")
    case None
    with False assms show ?thesis by (auto simp: procfs_sysctl_find_def sysctl_entries_def Let_def)
  next
    case (Some list)
    let ?f = "List.find (\<lambda>oid. \<not> procfs_sysctl_hidden oid \<and> oid_name oid = Some name) list"
    let ?g = "List.find (\<lambda>e. fst e = name) (map oid_entry (filter (\<lambda>oid. \<not> procfs_sysctl_hidden oid) list))"
    have "map_option oid_addr ?f = map_option (\<lambda>e. snd (snd e)) ?g" by (rule find_oid_entry)
    then consider "?f = None" "?g = None" | x e where "?f = Some x" "?g = Some e" "oid_addr x = snd (snd e)"
      by (cases ?f; cases ?g) auto
    then show ?thesis
      using False Some assms
      by cases (auto simp: procfs_sysctl_find_def sysctl_entries_def find_append Let_def)
  qed
qed

section \<open>Well-formed trees\<close>

text \<open>What the kernel guarantees: oids have distinct addresses, and they are no sentinels.\<close>

definition mib_ok :: "oid list \<Rightarrow> bool" where
  "mib_ok mib \<longleftrightarrow> distinct (map oid_addr (all_oids mib)) \<and>
     (\<forall>oid \<in> set (all_oids mib). PROCFS_SYN_MAX \<le> oid_addr oid)"

lemma oid_at_self: "mib_ok mib \<Longrightarrow> oid \<in> set (all_oids mib) \<Longrightarrow> oid_at mib (oid_addr oid) = Some oid"
  unfolding oid_at_def mib_ok_def by (rule find_unique) auto

lemma oid_at_in: "oid_at mib a = Some oid \<Longrightarrow> oid \<in> set (all_oids mib) \<and> oid_addr oid = a"
  unfolding oid_at_def by (auto dest: find_Some_iff_first)

lemma all_oids_top: "oid \<in> set os \<Longrightarrow> oid \<in> set (all_oids os)"
  by (induction os rule: all_oids.induct) auto

lemma all_oids_children:
  "oid \<in> set (all_oids os) \<Longrightarrow> oid_is_node oid \<Longrightarrow> oid_arg1 oid = Some cs \<Longrightarrow> c \<in> set cs \<Longrightarrow> c \<in> set (all_oids os)"
  by (induction os rule: all_oids.induct) (auto simp: oid_is_node_def all_oids_top split: if_splits)

lemma children_in_tree:
  assumes "procfs_sysctl_children mib dir = Some list" "c \<in> set list"
  shows "c \<in> set (all_oids mib)"
  using assms oid_at_in all_oids_children [of _ mib list c] all_oids_top [of c mib]
  by (fastforce simp: procfs_sysctl_children_def split: if_splits option.splits)

lemma real_oid:
  assumes "mib_ok mib" "oid \<in> set (all_oids mib)"
  shows "oid_addr oid \<noteq> 0" "\<not> PROCFS_SYN_IS (oid_addr oid)" "oid_addr oid \<noteq> PROCFS_SYN_RANDOM"
proof -
  have "PROCFS_SYN_MAX \<le> oid_addr oid" using assms by (simp add: mib_ok_def)
  then show "oid_addr oid \<noteq> 0" "\<not> PROCFS_SYN_IS (oid_addr oid)" "oid_addr oid \<noteq> PROCFS_SYN_RANDOM"
    by (auto simp: PROCFS_SYN_IS_def syn_defs word_le_nat_alt word_less_nat_alt)
qed

lemma entries_cases:
  assumes "(n, nd, i) \<in> set (sysctl_entries mib dir)"
  obtains (leaf) "dir = PROCFS_SYN_RANDOM" "(n, i) \<in> set procfs_random_leaves" "\<not> nd"
    | (oid) list oid where "procfs_sysctl_children mib dir = Some list" "oid \<in> set list" "i = oid_addr oid"
        "nd = oid_is_node oid" "oid_name oid = Some n" "dir \<noteq> PROCFS_SYN_RANDOM"
    | (random) "dir = procfs_sysctl_kern_objectid mib" "i = PROCFS_SYN_RANDOM" "nd" "n = ''random''"
proof (cases "dir = PROCFS_SYN_RANDOM")
  case True
  then show ?thesis using assms leaf by (auto simp: sysctl_entries_def)
next
  case False
  with assms obtain list where l: "procfs_sysctl_children mib dir = Some list"
    by (cases "procfs_sysctl_children mib dir") (auto simp: sysctl_entries_def)
  have e: "(n, nd, i) \<in> set (map oid_entry (filter (\<lambda>oid. \<not> procfs_sysctl_hidden oid) list)) \<or>
      dir = procfs_sysctl_kern_objectid mib \<and> (n, nd, i) = (''random'', True, PROCFS_SYN_RANDOM)"
    using assms False l by (auto simp: sysctl_entries_def split: if_splits)
  from e show ?thesis
  proof
    assume "(n, nd, i) \<in> set (map oid_entry (filter (\<lambda>oid. \<not> procfs_sysctl_hidden oid) list))"
    then obtain c where "c \<in> set list" "\<not> procfs_sysctl_hidden c" "(n, nd, i) = oid_entry c" by auto
    then show ?thesis using oid [OF l, of c] False by (auto simp: oid_entry_def procfs_sysctl_hidden_def)
  qed (use random in simp)
qed

lemma entry_is_node:
  assumes ok: "mib_ok mib" and e: "(n, nd, i) \<in> set (sysctl_entries mib dir)"
  shows "procfs_sysctl_is_node mib i = nd"
  using e
proof (cases rule: entries_cases)
  case leaf
  then show ?thesis
    by (auto simp: procfs_random_leaves_def procfs_sysctl_is_node_def PROCFS_SYN_IS_def syn_defs)
next
  case (oid list oid)
  from children_in_tree [OF oid(1,2)] have t: "oid \<in> set (all_oids mib)" .
  show ?thesis
    using oid_at_self [OF ok t] real_oid [OF ok t] oid by (simp add: procfs_sysctl_is_node_def)
next
  case random
  then show ?thesis by (simp add: procfs_sysctl_is_node_def PROCFS_SYN_IS_def syn_defs)
qed

section \<open>Parents\<close>

text \<open>The tree as a list of edges from directories to their children.\<close>

fun edges :: "u64 \<Rightarrow> oid list \<Rightarrow> (u64 \<times> u64) list" where
  "edges p [] = []"
| "edges p (Oid a n k i f None # os) = (p, a) # edges p os"
| "edges p (Oid a n k i f (Some cs) # os) = (p, a) #
     (if k AND CTLTYPE = CTLTYPE_NODE then edges a cs else []) @ edges p os"

lemma edges_addrs: "map snd (edges p os) = map oid_addr (all_oids os)"
  by (induction p os rule: edges.induct) auto

lemma find_parent_edges:
  "procfs_sysctl_find_parent os p t = map_option fst (List.find (\<lambda>e. snd e = t) (edges p os))"
  by (induction os p t rule: procfs_sysctl_find_parent.induct) (auto simp: find_append split: option.splits)

lemma edges_top: "c \<in> set os \<Longrightarrow> (p, oid_addr c) \<in> set (edges p os)"
  by (induction p os rule: edges.induct) auto

lemma edges_children:
  "oid \<in> set (all_oids os) \<Longrightarrow> oid_is_node oid \<Longrightarrow> oid_arg1 oid = Some cs \<Longrightarrow> c \<in> set cs \<Longrightarrow>
     (oid_addr oid, oid_addr c) \<in> set (edges p os)"
  by (induction p os rule: edges.induct) (auto simp: oid_is_node_def edges_top split: if_splits)

lemma child_edge:
  assumes "procfs_sysctl_children mib dir = Some list" "c \<in> set list"
  shows "(dir, oid_addr c) \<in> set (edges 0 mib)"
proof (cases "dir = 0")
  case True
  with assms show ?thesis by (simp add: procfs_sysctl_children_def edges_top)
next
  case False
  with assms obtain oid where "oid_at mib dir = Some oid" "oid_is_node oid" "oid_arg1 oid = Some list"
    by (auto simp: procfs_sysctl_children_def split: option.splits if_splits)
  with oid_at_in [of mib dir oid] assms(2) show ?thesis using edges_children [of oid mib list c 0] by auto
qed

lemma entry_parent:
  assumes ok: "mib_ok mib" and e: "(n, nd, i) \<in> set (sysctl_entries mib dir)"
  shows "procfs_sysctl_parent mib i = Some dir"
  using e
proof (cases rule: entries_cases)
  case leaf
  then show ?thesis
    by (auto simp: procfs_random_leaves_def procfs_sysctl_parent_def PROCFS_SYN_IS_def syn_defs)
next
  case (oid list oid)
  from children_in_tree [OF oid(1,2)] have t: "oid \<in> set (all_oids mib)" .
  have "distinct (map snd (edges 0 mib))" using ok by (simp add: edges_addrs mib_ok_def)
  from find_unique [OF this child_edge [OF oid(1,2)]]
  have "procfs_sysctl_find_parent mib 0 (oid_addr oid) = Some dir" by (simp add: find_parent_edges)
  then show ?thesis using real_oid [OF ok t] oid by (simp add: procfs_sysctl_parent_def)
next
  case random
  then show ?thesis by (simp add: procfs_sysctl_parent_def syn_defs)
qed

section \<open>Names\<close>

text \<open>All oids that can be named, with their dotted names, in the order of the search.\<close>

fun paths :: "cstring \<Rightarrow> oid list \<Rightarrow> (oid \<times> cstring) list" where
  "paths pre [] = []"
| "paths pre (Oid a None k i f arg1 # os) = paths pre os"
| "paths pre (Oid a (Some n) k i f None # os) = (Oid a (Some n) k i f None, mib_path pre n) # paths pre os"
| "paths pre (Oid a (Some n) k i f (Some cs) # os) = (Oid a (Some n) k i f (Some cs), mib_path pre n) #
     (if k AND CTLTYPE = CTLTYPE_NODE then paths (mib_path pre n) cs else []) @ paths pre os"

lemma build_name_paths:
  "procfs_sysctl_build_name os pre t sz =
     map_option (\<lambda>e. strlcpy (snd e) sz) (List.find (\<lambda>e. oid_addr (fst e) = t) (paths pre os))"
  by (induction os pre t sz rule: procfs_sysctl_build_name.induct)
    (auto simp: find_append Let_def split: option.splits)

lemma paths_in: "e \<in> set (paths pre os) \<Longrightarrow> fst e \<in> set (all_oids os)"
proof (induction pre os rule: paths.induct)
  case (2 pre a k i f arg1 os)
  then show ?case by (cases arg1) auto
qed (auto split: if_splits)

lemma paths_distinct:
  "distinct (map oid_addr (all_oids os)) \<Longrightarrow> distinct (map (\<lambda>e. oid_addr (fst e)) (paths pre os))"
proof (induction pre os rule: paths.induct)
  case (2 pre a k i f arg1 os)
  then show ?case by (cases arg1) auto
next
  case (3 pre a n k i f os)
  then show ?case by (auto dest!: paths_in)
next
  case (4 pre a n k i f cs os)
  then show ?case by (auto dest!: paths_in split: if_splits)
qed simp

lemma paths_top: "c \<in> set os \<Longrightarrow> oid_name c = Some n \<Longrightarrow> (c, mib_path pre n) \<in> set (paths pre os)"
  by (induction pre os rule: paths.induct) auto

lemma paths_children:
  "(oid, p) \<in> set (paths pre os) \<Longrightarrow> oid_is_node oid \<Longrightarrow> oid_arg1 oid = Some cs \<Longrightarrow> c \<in> set cs \<Longrightarrow>
     oid_name c = Some n \<Longrightarrow> (c, mib_path p n) \<in> set (paths pre os)"
  by (induction pre os rule: paths.induct) (auto simp: oid_is_node_def paths_top split: if_splits)

lemma length_mib_path: "length (mib_path p n) \<le> 255"
  by (auto simp: mib_path_def snprintf_def strlcpy_def)

lemma paths_length: "e \<in> set (paths pre os) \<Longrightarrow> length (snd e) \<le> 255"
  by (induction pre os rule: paths.induct) (auto simp: length_mib_path split: if_splits)

lemma build_name_entry:
  assumes "mib_ok mib" "e \<in> set (paths [] mib)"
  shows "procfs_sysctl_build_name mib [] (oid_addr (fst e)) 256 = Some (snd e)"
proof -
  have "distinct (map (\<lambda>e. oid_addr (fst e)) (paths [] mib))"
    using assms(1) by (intro paths_distinct) (simp add: mib_ok_def)
  from find_unique [OF this assms(2)] paths_length [OF assms(2)] show ?thesis
    by (simp add: build_name_paths strlcpy_def)
qed

lemma build_name_in:
  assumes "mib_ok mib" "procfs_sysctl_build_name mib [] a 256 = Some p"
  obtains oid where "(oid, p) \<in> set (paths [] mib)" "oid_addr oid = a"
proof -
  from assms(2) obtain e where e: "List.find (\<lambda>e. oid_addr (fst e) = a) (paths [] mib) = Some e"
    "p = strlcpy (snd e) 256" by (auto simp: build_name_paths)
  then have "e \<in> set (paths [] mib)" "oid_addr (fst e) = a" by (auto dest: find_Some_iff_first)
  with paths_length [OF this(1)] e(2) that [of "fst e"] show thesis by (simp add: strlcpy_def)
qed

section \<open>Properties\<close>

text \<open>
  C26: listing, lookup, node kinds and \<open>..\<close> of \<open>/proc/sys\<close> agree. An entry that \<open>readdir\<close> shows in
  a directory is found there under its name, as the same object and the same kind of node, and
  its parent is that directory; \<open>kernel/random\<close> and its leaves included.
\<close>

theorem sysctl_entry_agrees:
  assumes "mib_ok mib" "distinct (map fst (sysctl_entries mib dir))" "\<not> (dir = 0 \<and> n = ''kernel'')"
    and "procfs_sysctl_child_at mib dir i = Some (n, nd, objectid)"
  shows "procfs_sysctl_find mib dir n = Some objectid \<and> procfs_sysctl_is_node mib objectid = nd \<and>
    procfs_sysctl_parent mib objectid = Some dir"
proof -
  have e: "(n, nd, objectid) \<in> set (sysctl_entries mib dir)"
    using assms(4) by (auto simp: child_at_entries in_set_conv_nth split: if_splits)
  from find_unique [OF assms(2) e] have "procfs_sysctl_find mib dir n = Some objectid"
    by (simp add: find_entries [OF assms(3)])
  then show ?thesis using entry_is_node [OF assms(1) e] entry_parent [OF assms(1) e] by simp
qed

text \<open>A tree with \<open>kern.ostype\<close>, \<open>kern.maxproc\<close> and \<open>vm.loadavg\<close>, and an anchor.\<close>

definition demo_mib :: "oid list" where
  "demo_mib =
     [Oid 4096 (Some ''kern'') 1 1 None (Some
        [Oid 4160 (Some ''ostype'') 3 1 None None, Oid 4224 (Some ''maxproc'') 2 6 (Some ''I'') None,
         Oid 4288 (Some ''__anchor__'') 2 (- (2 ^ 31)) None None]),
      Oid 8192 (Some ''vm'') 1 2 None (Some [Oid 8256 (Some ''loadavg'') 5 2 None None])]"

lemma demo_mib_ok: "mib_ok demo_mib"
  by (simp add: mib_ok_def demo_mib_def syn_defs CTLTYPE_def CTLTYPE_NODE_def word_le_nat_alt)

lemma demo_entries:
  "sysctl_entries demo_mib 4096 =
     [(''ostype'', False, 4160), (''maxproc'', False, 4224), (''random'', True, PROCFS_SYN_RANDOM)]"
  by (simp add: sysctl_entries_def procfs_sysctl_children_def oid_at_def demo_mib_def oid_is_node_def
      procfs_sysctl_hidden_def procfs_sysctl_kern_objectid_def oid_entry_def CTLTYPE_def CTLTYPE_NODE_def
      CTLFLAG_MASKED_def OID_MUTABLE_ANCHOR_def syn_defs)

theorem sysctl_entry_agrees_witness:
  "procfs_sysctl_find demo_mib 4096 ''random'' = Some PROCFS_SYN_RANDOM \<and>
     procfs_sysctl_parent demo_mib PROCFS_SYN_RANDOM = Some 4096"
proof -
  have d: "distinct (map fst (sysctl_entries demo_mib 4096))" by (simp add: demo_entries)
  have c: "procfs_sysctl_child_at demo_mib 4096 2 = Some (''random'', True, PROCFS_SYN_RANDOM)"
    by (simp add: child_at_entries demo_entries)
  have "\<not> ((4096 :: u64) = 0 \<and> ''random'' = ''kernel'')" by simp
  from sysctl_entry_agrees [OF demo_mib_ok d this c] show ?thesis by blast
qed

text \<open>
  The MIB name that a read hands to \<open>sysctlbyname\<close> follows the path: the name of an oid is
  the name of its directory, a dot and its own name, cut to the 255 bytes of the buffer.
\<close>

lemma sysctl_name_of_child:
  assumes "mib_ok mib" "procfs_sysctl_children mib dir = Some list" "c \<in> set list" "oid_name c = Some n"
    and "dir \<noteq> 0" "procfs_sysctl_build_name mib [] dir 256 = Some p"
  shows "procfs_sysctl_build_name mib [] (oid_addr c) 256 = Some (mib_path p n)"
proof -
  from assms(2,5) obtain d where d: "oid_at mib dir = Some d" "oid_is_node d" "oid_arg1 d = Some list"
    by (auto simp: procfs_sysctl_children_def split: option.splits if_splits)
  from build_name_in [OF assms(1,6)] obtain oid where oid: "(oid, p) \<in> set (paths [] mib)" "oid_addr oid = dir" .
  have "oid \<in> set (all_oids mib)" using paths_in [OF oid(1)] by simp
  with oid(2) d(1) oid_at_self [OF assms(1), of oid] have "oid = d" by simp
  with paths_children [OF oid(1), of list c n] d assms(3,4) have "(c, mib_path p n) \<in> set (paths [] mib)" by simp
  from build_name_entry [OF assms(1) this] show ?thesis by simp
qed


definition demo_sysctl_env :: sysctl_env where
  "demo_sysctl_env = \<lparr>se_ctl = (\<lambda>ty pid arg nm cap. Inr (int32_bytes 4000)), se_sysctlbyname = (\<lambda>_ _. Inl EPERM),
     se_uuid = ''4b1d-0000'', se_version = 0\<rparr>"


end
