(* ===== verification/Procargs.thy ===== *)
theory Procargs
  imports Sysctl
begin

text \<open>
  \<open>kext/procfs_cmdline.c\<close> and \<open>kext/procfs_auxv.c\<close>: the argument region of a process
  (\<open>KERN_PROCARGS2\<close>) is fetched from the daemon in slices into a growing buffer and split into its
  argv, environment and apple sections, which are the contents of \<open>cmdline\<close>, \<open>environ\<close> and the
  native \<open>auxv\<close>. The size of the buffer is kept in the model, and a reply that would be written
  past its end is the result \<^const>\<open>None\<close>. The properties: the buffer is never overrun and the
  sections are in order, and what a reader gets is what the process was started with.
\<close>

section \<open>Fetching the region\<close>

definition PROCFS_EXEC_KEY :: cstring where "PROCFS_EXEC_KEY = ''executable_path=''"
definition PROCFS_CMDLINE_MAX :: nat where "PROCFS_CMDLINE_MAX = 256 * 1024"

definition fetch_done :: "bytes \<Rightarrow> bytes res option" where
  "fetch_done buf = Some (if buf = [] then Inl EIO else Inr buf)"

text \<open>\<open>alloc\<close> says for each size whether \<open>malloc\<close> succeeds; \<open>cap\<close> is the size of the buffer.\<close>

function fetch_loop :: "(nat \<Rightarrow> bool) \<Rightarrow> ctl_oracle \<Rightarrow> int \<Rightarrow> nat \<Rightarrow> bytes \<Rightarrow> bytes res option" where
  "fetch_loop alloc ctl pid cap buf =
     (let total = length buf;
          full = (cap < total + PROCFS_CTL_MAXPAYLOAD);
          ncap = min (cap * 2) PROCFS_CMDLINE_MAX;
          cap' = (if full then ncap else cap)
      in if full \<and> ncap \<le> total then fetch_done buf
         else if full \<and> \<not> alloc ncap then Some (Inl ENOMEM)
         else if cap' < total + PROCFS_CTL_MAXPAYLOAD then None
         else (case ctl REQ_PROCARGS pid (of_nat total) [] PROCFS_CTL_MAXPAYLOAD of
             Inl rc \<Rightarrow>
               if total = 0 then Some (Inl (if rc = ENOTCONN \<or> rc = ETIMEDOUT then ENOTSUP else rc))
               else fetch_done buf
           | Inr d \<Rightarrow>
               if length d < PROCFS_CTL_MAXPAYLOAD then fetch_done (buf @ d)
               else fetch_loop alloc ctl pid cap' (buf @ d)))"
  by pat_completeness auto

termination
  by (relation "measure (\<lambda>(alloc, ctl, pid, cap, buf). max cap PROCFS_CMDLINE_MAX - length buf)")
    (auto simp: PROCFS_CTL_MAXPAYLOAD_def split: if_splits)

declare fetch_loop.simps [simp del]

definition procfs_fetch_procargs :: "(nat \<Rightarrow> bool) \<Rightarrow> ctl_oracle \<Rightarrow> int \<Rightarrow> bytes res option" where
  "procfs_fetch_procargs alloc ctl pid =
     (if alloc PROCFS_CTL_MAXPAYLOAD then fetch_loop alloc ctl pid PROCFS_CTL_MAXPAYLOAD []
      else Some (Inl ENOMEM))"

section \<open>Splitting it\<close>

function skip_pad :: "bytes \<Rightarrow> nat \<Rightarrow> nat" where
  "skip_pad buf pos = (if pos < length buf \<and> buf ! pos = NUL then skip_pad buf (pos + 1) else pos)"
  by pat_completeness auto

termination
  by (relation "measure (\<lambda>(buf, pos). length buf - pos)") auto

fun skip_args :: "nat \<Rightarrow> bytes \<Rightarrow> nat \<Rightarrow> nat" where
  "skip_args 0 buf pos = pos"
| "skip_args (Suc k) buf pos =
     (if pos < length buf then
        let remaining = length buf - pos;
            arglen = strnlen (drop pos buf) remaining
        in skip_args k buf (pos + (if arglen < remaining then arglen + 1 else arglen))
      else pos)"

function find_apple :: "bytes \<Rightarrow> nat \<Rightarrow> nat" where
  "find_apple buf scan =
     (if scan < length buf then
        let remaining = length buf - scan;
            keylen = length PROCFS_EXEC_KEY;
            slen = strnlen (drop scan buf) remaining
        in if keylen \<le> remaining \<and> take keylen (drop scan buf) = PROCFS_EXEC_KEY then scan
           else if slen = remaining then length buf
           else find_apple buf (scan + slen + 1)
      else length buf)"
  by pat_completeness auto

termination
  by (relation "measure (\<lambda>(buf, scan). length buf - scan)") auto

declare skip_pad.simps [simp del] find_apple.simps [simp del]

record procargs =
  pa_buf :: bytes
  pa_argv :: nat
  pa_env :: nat
  pa_apple :: nat

definition split_procargs :: "bytes \<Rightarrow> procargs res" where
  "split_procargs buf =
     (let n = length buf; argc = le_int32 buf in
      if n < 4 then Inl EINVAL
      else if argc \<le> 0 then Inl EINVAL
      else let pos = 4 + strnlen (drop 4 buf) (n - 4);
               argv = (if pos < n then skip_pad buf (pos + 1) else pos);
               env = skip_args (nat argc) buf argv
           in Inr \<lparr>pa_buf = buf, pa_argv = argv, pa_env = env, pa_apple = find_apple buf env\<rparr>)"

definition procfs_read_procargs :: "(nat \<Rightarrow> bool) \<Rightarrow> ctl_oracle \<Rightarrow> kproc \<Rightarrow> procargs res option" where
  "procfs_read_procargs alloc ctl p =
     (case procfs_fetch_procargs alloc ctl (kp_pid p) of None \<Rightarrow> None
      | Some (Inl rc) \<Rightarrow> Some (Inl rc)
      | Some (Inr buf) \<Rightarrow> Some (split_procargs buf))"

section \<open>The three files\<close>

definition MAXCOMLEN :: nat where "MAXCOMLEN = 16"
definition SZOMB :: int where "SZOMB = 5"
definition P_SYSTEM :: u32 where "P_SYSTEM = 0x200"

definition no_user_stack :: "kproc \<Rightarrow> bool" where
  "no_user_stack p \<longleftrightarrow> kp_stat p = SZOMB \<or> kp_flag p AND P_SYSTEM \<noteq> 0"

definition procfs_cmdline_comm :: "kio \<Rightarrow> kproc \<Rightarrow> uio \<Rightarrow> errno \<times> uio" where
  "procfs_cmdline_comm K p u =
     (let comm = strlcpy (kp_name p) (MAXCOMLEN + 1)
      in copy_snprintf K (MAXCOMLEN + 4) (''('' @ (if comm \<noteq> [] then comm else ''unknown'') @ '')'') u)"

definition copy_span :: "kio \<Rightarrow> bytes \<Rightarrow> nat \<Rightarrow> nat \<Rightarrow> uio \<Rightarrow> errno \<times> uio" where
  \<comment> \<open>the bytes of the region from one offset up to another\<close>
  "copy_span K buf a b u = procfs_copy_data K (Some (drop a buf)) (int32 (int b - int a)) u"

definition procfs_doprocargs_helper ::
    "kio \<Rightarrow> (nat \<Rightarrow> bool) \<Rightarrow> ctl_oracle \<Rightarrow> kproc \<Rightarrow> uio \<Rightarrow> (errno \<times> uio) option" where
  "procfs_doprocargs_helper K alloc ctl p u = (case procfs_read_procargs alloc ctl p of None \<Rightarrow> None
     | Some (Inl _) \<Rightarrow> Some (procfs_cmdline_comm K p u)
     | Some (Inr a) \<Rightarrow> Some (copy_span K (pa_buf a) (pa_argv a) (pa_env a) u))"

definition procfs_doprocargs ::
    "kio \<Rightarrow> (nat \<Rightarrow> bool) \<Rightarrow> ctl_oracle \<Rightarrow> proc_table \<Rightarrow> pfsnode \<Rightarrow> uio \<Rightarrow> (errno \<times> uio) option" where
  "procfs_doprocargs K alloc ctl proc_find pnp u =
     (case proc_find (nodeid_pid (node_id pnp)) of None \<Rightarrow> Some (ESRCH, u)
      | Some p \<Rightarrow>
          if uio_rw u \<noteq> UIO_READ then Some (EOPNOTSUPP, u)
          else if no_user_stack p then Some (procfs_cmdline_comm K p u)
          else procfs_doprocargs_helper K alloc ctl p u)"

definition procfs_doenviron ::
    "kio \<Rightarrow> (nat \<Rightarrow> bool) \<Rightarrow> ctl_oracle \<Rightarrow> proc_table \<Rightarrow> pfsnode \<Rightarrow> uio \<Rightarrow> (errno \<times> uio) option" where
  "procfs_doenviron K alloc ctl proc_find pnp u =
     (if uio_rw u \<noteq> UIO_READ then Some (EOPNOTSUPP, u)
      else (case proc_find (nodeid_pid (node_id pnp)) of None \<Rightarrow> Some (ESRCH, u)
        | Some p \<Rightarrow>
            if no_user_stack p then Some (copy_out K [] u)
            else (case procfs_read_procargs alloc ctl p of None \<Rightarrow> None
              | Some (Inl _) \<Rightarrow> Some (copy_out K [] u)
              | Some (Inr a) \<Rightarrow> Some (copy_span K (pa_buf a) (pa_env a) (pa_apple a) u))))"

text \<open>In Linux mode the node is rendered by \<open>procfs_doauxv_linux\<close>, the parameter \<open>linux\<close>.\<close>

definition procfs_doauxv :: "kio \<Rightarrow> (nat \<Rightarrow> bool) \<Rightarrow> ctl_oracle \<Rightarrow> proc_table \<Rightarrow>
    (uio \<Rightarrow> errno \<times> uio) option \<Rightarrow> pfsnode \<Rightarrow> uio \<Rightarrow> (errno \<times> uio) option" where
  "procfs_doauxv K alloc ctl proc_find linux pnp u =
     (if uio_rw u \<noteq> UIO_READ then Some (EOPNOTSUPP, u)
      else (case linux of Some f \<Rightarrow> Some (f u)
        | None \<Rightarrow> (case proc_find (nodeid_pid (node_id pnp)) of None \<Rightarrow> Some (ESRCH, u)
            | Some p \<Rightarrow>
                if no_user_stack p then Some (copy_out K [] u)
                else (case procfs_read_procargs alloc ctl p of None \<Rightarrow> None
                  | Some (Inl _) \<Rightarrow> Some (copy_out K [] u)
                  | Some (Inr a) \<Rightarrow> Some (copy_span K (pa_buf a) (pa_apple a) (length (pa_buf a)) u)))))"

section \<open>The buffer is large enough\<close>

text \<open>The capacity is a power of two slices and what has been read a whole number of them.\<close>

definition fits :: "nat \<Rightarrow> nat \<Rightarrow> bool" where
  "fits cap got \<longleftrightarrow> (\<exists>j k. j \<le> 7 \<and> k \<le> 2 ^ j \<and> cap = PROCFS_CTL_MAXPAYLOAD * 2 ^ j \<and>
     got = PROCFS_CTL_MAXPAYLOAD * k)"

lemma fits_le: "fits cap got \<Longrightarrow> got \<le> PROCFS_CMDLINE_MAX"
proof (unfold fits_def, elim exE conjE)
  fix j k :: nat
  assume "j \<le> 7" "k \<le> 2 ^ j" "got = PROCFS_CTL_MAXPAYLOAD * k"
  then have "k \<le> 2 ^ 7" by (meson one_le_numeral order_trans power_increasing)
  with \<open>got = _\<close> show ?thesis by (simp add: PROCFS_CTL_MAXPAYLOAD_def PROCFS_CMDLINE_MAX_def)
qed

lemma fits_cap: "fits cap got \<Longrightarrow> got \<le> cap \<and> 0 < cap"
  by (auto simp: fits_def PROCFS_CTL_MAXPAYLOAD_def)

lemma fits_next:
  assumes "fits cap got" "cap' = (if cap < got + PROCFS_CTL_MAXPAYLOAD then min (cap * 2) PROCFS_CMDLINE_MAX else cap)"
    and "cap < got + PROCFS_CTL_MAXPAYLOAD \<Longrightarrow> got < min (cap * 2) PROCFS_CMDLINE_MAX"
  shows "got + PROCFS_CTL_MAXPAYLOAD \<le> cap'" "fits cap' (got + PROCFS_CTL_MAXPAYLOAD)"
proof -
  from assms(1) obtain j k where j: "j \<le> 7" "k \<le> 2 ^ j" "cap = PROCFS_CTL_MAXPAYLOAD * 2 ^ j"
    "got = PROCFS_CTL_MAXPAYLOAD * k" by (auto simp: fits_def)
  let ?i = "if k = 2 ^ j then Suc j else j"
  have full: "cap < got + PROCFS_CTL_MAXPAYLOAD \<longleftrightarrow> k = 2 ^ j"
    using j by (auto simp: PROCFS_CTL_MAXPAYLOAD_def)
  have i: "?i \<le> 7"
  proof (cases "k = 2 ^ j")
    case True
    with assms(3) full have "got < PROCFS_CMDLINE_MAX" by simp
    with True j have "(2 :: nat) ^ j < 2 ^ 7" by (simp add: PROCFS_CTL_MAXPAYLOAD_def PROCFS_CMDLINE_MAX_def)
    then have "j < 7" using power_less_imp_less_exp [of "2 :: nat" j 7] by simp
    then show ?thesis by simp
  qed (use j in simp)
  have "(2 :: nat) ^ ?i \<le> 2 ^ 7" using i by (intro power_increasing) auto
  then have cap': "cap' = PROCFS_CTL_MAXPAYLOAD * 2 ^ ?i"
    unfolding assms(2) full using j by (auto simp: PROCFS_CTL_MAXPAYLOAD_def PROCFS_CMDLINE_MAX_def min_def)
  have k: "k + 1 \<le> 2 ^ ?i" using j(2) by (auto simp: Suc_le_eq)
  have t: "got + PROCFS_CTL_MAXPAYLOAD = PROCFS_CTL_MAXPAYLOAD * (k + 1)" by (simp add: j)
  show "got + PROCFS_CTL_MAXPAYLOAD \<le> cap'" unfolding t cap' using k by (rule mult_le_mono2)
  show "fits cap' (got + PROCFS_CTL_MAXPAYLOAD)" unfolding fits_def using i k cap' t by blast
qed

context ctl_bridge
begin

lemma fetch_loop_in_bounds:
  assumes "fits cap (length buf)"
  shows "\<exists>r. fetch_loop alloc request pid cap buf = Some r \<and> (\<forall>d. r = Inr d \<longrightarrow> length d \<le> PROCFS_CMDLINE_MAX)"
  using assms
proof (induction "max cap PROCFS_CMDLINE_MAX - length buf" arbitrary: cap buf rule: less_induct)
  case less
  let ?full = "cap < length buf + PROCFS_CTL_MAXPAYLOAD" and ?ncap = "min (cap * 2) PROCFS_CMDLINE_MAX"
  define cap' where "cap' = (if ?full then ?ncap else cap)"
  note le = fits_le [OF less.prems]
  show ?case
  proof (cases "?full \<and> (?ncap \<le> length buf \<or> \<not> alloc ?ncap)")
    case True
    then show ?thesis using le by (subst fetch_loop.simps) (auto simp: Let_def fetch_done_def)
  next
    case False
    then have "?full \<Longrightarrow> length buf < ?ncap" by linarith
    note room = fits_next [OF less.prems cap'_def this]
    note step = fetch_loop.simps [of alloc request pid cap buf, unfolded Let_def, folded cap'_def]
    show ?thesis
    proof (cases "request REQ_PROCARGS pid (of_nat (length buf)) [] PROCFS_CTL_MAXPAYLOAD")
      case (Inl rc)
      with False room le show ?thesis by (auto simp: step fetch_done_def)
    next
      case (Inr d)
      then have d: "length d \<le> PROCFS_CTL_MAXPAYLOAD" by (rule request_len)
      show ?thesis
      proof (cases "length d < PROCFS_CTL_MAXPAYLOAD")
        case True
        with Inr False room fits_le [OF room(2)] show ?thesis by (auto simp: step fetch_done_def)
      next
        case full: False
        with d have d: "length d = PROCFS_CTL_MAXPAYLOAD" by simp
        have "max cap' PROCFS_CMDLINE_MAX - length (buf @ d) < max cap PROCFS_CMDLINE_MAX - length buf"
          using room(1) d by (auto simp: cap'_def PROCFS_CTL_MAXPAYLOAD_def split: if_splits)
        moreover have "fits cap' (length (buf @ d))" using room(2) d by simp
        ultimately have "\<exists>r. fetch_loop alloc request pid cap' (buf @ d) = Some r \<and>
            (\<forall>d. r = Inr d \<longrightarrow> length d \<le> PROCFS_CMDLINE_MAX)" by (rule less.hyps)
        with Inr False room full show ?thesis by (auto simp: step)
      qed
    qed
  qed
qed

lemma fetch_procargs_in_bounds:
  "\<exists>r. procfs_fetch_procargs alloc request pid = Some r \<and> (\<forall>d. r = Inr d \<longrightarrow> length d \<le> PROCFS_CMDLINE_MAX)"
proof -
  have "fits PROCFS_CTL_MAXPAYLOAD (length ([] :: bytes))" 
    unfolding fits_def by (rule exI [of _ 0], rule exI [of _ 0]) simp
  from fetch_loop_in_bounds [OF this] show ?thesis by (simp add: procfs_fetch_procargs_def)
qed

end

section \<open>Order of the sections\<close>

lemma skip_pad_bounds: "pos \<le> length buf \<Longrightarrow> pos \<le> skip_pad buf pos \<and> skip_pad buf pos \<le> length buf"
proof (induction buf pos rule: skip_pad.induct)
  case (1 buf pos)
  then show ?case by (subst (1 2) skip_pad.simps) (auto simp: Suc_le_eq)
qed

lemma skip_args_bounds: "pos \<le> length buf \<Longrightarrow> pos \<le> skip_args k buf pos \<and> skip_args k buf pos \<le> length buf"
proof (induction k buf pos rule: skip_args.induct)
  case (2 k buf pos)
  let ?r = "length buf - pos"
  let ?a = "strnlen (drop pos buf) ?r"
  have "?a \<le> ?r" by (rule strnlen_le)
  then have le: "pos + (if ?a < ?r then ?a + 1 else ?a) \<le> length buf" using 2(2) by auto
  show ?case
  proof (cases "pos < length buf")
    case True
    from 2(1) [OF True refl refl le] True show ?thesis by (simp only: skip_args.simps Let_def if_True) (auto dest: add_leD1)
  qed (use 2(2) in simp)
qed simp

lemma find_apple_bounds: "scan \<le> length buf \<Longrightarrow> scan \<le> find_apple buf scan \<and> find_apple buf scan \<le> length buf"
proof (induction buf scan rule: find_apple.induct)
  case (1 buf scan)
  let ?r = "length buf - scan"
  let ?s = "strnlen (drop scan buf) ?r"
  have s: "?s \<le> ?r" by (rule strnlen_le)
  show ?case
  proof (cases "scan < length buf \<and> \<not> (length PROCFS_EXEC_KEY \<le> ?r \<and>
      take (length PROCFS_EXEC_KEY) (drop scan buf) = PROCFS_EXEC_KEY) \<and> ?s \<noteq> ?r")
    case True
    with s have "scan + ?s + 1 \<le> length buf" by linarith
    from 1(1) [OF _ refl refl refl _ _ this] True show ?thesis
      by (subst (1 2) find_apple.simps) (simp add: Let_def)
  next
    case False
    with 1(2) show ?thesis by (subst (1 2) find_apple.simps) (auto simp: Let_def)
  qed
qed

lemma split_procargs_bounds:
  assumes "split_procargs buf = Inr a"
  shows "pa_buf a = buf \<and> 4 \<le> pa_argv a \<and> pa_argv a \<le> pa_env a \<and> pa_env a \<le> pa_apple a \<and> pa_apple a \<le> length buf"
proof -
  define pos where "pos = 4 + strnlen (drop 4 buf) (length buf - 4)"
  define argv where "argv = (if pos < length buf then skip_pad buf (pos + 1) else pos)"
  have n: "4 \<le> length buf" using assms by (auto simp: split_procargs_def Let_def split: if_splits)
  have "pos \<le> length buf" using strnlen_le [of "drop 4 buf" "length buf - 4"] n by (simp add: pos_def)
  then have "pos \<le> argv" "argv \<le> length buf"
    using skip_pad_bounds [of "pos + 1" buf] by (auto simp: argv_def)
  then have argv: "4 \<le> argv" "argv \<le> length buf" by (auto simp: pos_def)
  define env where "env = skip_args (nat (le_int32 buf)) buf argv"
  have env: "argv \<le> env" "env \<le> length buf" using skip_args_bounds [OF argv(2)] by (simp_all add: env_def)
  have "a = \<lparr>pa_buf = buf, pa_argv = argv, pa_env = env, pa_apple = find_apple buf env\<rparr>"
    using assms by (auto simp: split_procargs_def Let_def pos_def argv_def env_def split: if_splits)
  then show ?thesis using argv env find_apple_bounds [OF env(2)] by simp
qed

section \<open>Finding the sections of a well-formed region\<close>

definition strs :: "cstring list \<Rightarrow> bytes" where
  "strs ss = concat (map (\<lambda>s. s @ [NUL]) ss)"

lemma strs_simps [simp]: "strs [] = []" "strs (s # ss) = s @ NUL # strs ss" "strs (a @ b) = strs a @ strs b"
  by (simp_all add: strs_def)

lemma strnlen_here:
  "NUL \<notin> set s \<Longrightarrow> strnlen (drop (length pre) (pre @ s @ NUL # rest)) (length s + Suc n) = length s"
  by (simp add: strnlen_append)

lemma skip_pad_run: "xs = [] \<or> hd xs \<noteq> NUL \<Longrightarrow> skip_pad (pre @ replicate k NUL @ xs) (length pre) = length pre + k"
proof (induction k arbitrary: pre)
  case 0
  then show ?case by (subst skip_pad.simps) (auto simp: nth_append hd_conv_nth)
next
  case (Suc k)
  from Suc.IH [of "pre @ [NUL]", OF Suc.prems] show ?case
    by (subst skip_pad.simps) (simp add: nth_append)
qed

lemma skip_args_strs:
  "(\<And>s. s \<in> set argv \<Longrightarrow> NUL \<notin> set s) \<Longrightarrow>
     skip_args (length argv) (pre @ strs argv @ rest) (length pre) = length pre + length (strs argv)"
proof (induction argv arbitrary: pre)
  case (Cons s ss)
  have "strnlen (drop (length pre) (pre @ s @ NUL # strs ss @ rest)) (length s + Suc (length (strs ss @ rest))) = length s"
    using Cons.prems by (intro strnlen_here) simp
  with Cons.IH [of "pre @ s @ [NUL]"] Cons.prems show ?case by (simp add: Let_def)
qed simp

definition is_apple0 :: "cstring \<Rightarrow> bool" where
  "is_apple0 s \<longleftrightarrow> take (length PROCFS_EXEC_KEY) s = PROCFS_EXEC_KEY"

lemma key_at_start:
  "NUL \<notin> set s \<Longrightarrow> take (length PROCFS_EXEC_KEY) (s @ NUL # rest) = PROCFS_EXEC_KEY \<longleftrightarrow> is_apple0 s"
proof (cases "length s < length PROCFS_EXEC_KEY")
  case True
  then have "NUL \<in> set (take (length PROCFS_EXEC_KEY) (s @ NUL # rest))" by (auto simp: take_Cons')
  moreover have "NUL \<notin> set PROCFS_EXEC_KEY" by (simp add: PROCFS_EXEC_KEY_def)
  ultimately have "take (length PROCFS_EXEC_KEY) (s @ NUL # rest) \<noteq> PROCFS_EXEC_KEY" by metis
  moreover have "\<not> is_apple0 s" using True by (auto simp: is_apple0_def)
  ultimately show ?thesis by simp
qed (simp add: is_apple0_def)

lemma find_apple_strs:
  assumes "\<And>s. s \<in> set env \<Longrightarrow> NUL \<notin> set s \<and> \<not> is_apple0 s"
    and "apple \<noteq> [] \<Longrightarrow> NUL \<notin> set (hd apple) \<and> is_apple0 (hd apple)"
  shows "find_apple (pre @ strs env @ strs apple) (length pre) = length pre + length (strs env)"
  using assms(1)
proof (induction env arbitrary: pre)
  case Nil
  show ?case
  proof (cases apple)
    case Nil
    then show ?thesis by (subst find_apple.simps) simp
  next
    case (Cons a as)
    then have "take (length PROCFS_EXEC_KEY) (a @ NUL # strs as) = PROCFS_EXEC_KEY"
      using assms(2) key_at_start [of a "strs as"] by simp
    moreover from this have "length PROCFS_EXEC_KEY \<le> length (a @ NUL # strs as)"
      by (metis length_take min.cobounded1 min.commute)
    ultimately show ?thesis using Cons by (subst find_apple.simps) (simp add: Let_def)
  qed
next
  case (Cons s ss)
  let ?rest = "strs ss @ strs apple"
  have s: "NUL \<notin> set s" "\<not> is_apple0 s" using Cons.prems by auto
  have len: "strnlen (drop (length pre) (pre @ s @ NUL # ?rest)) (length s + Suc (length ?rest)) = length s"
    using s(1) by (rule strnlen_here)
  have "find_apple (pre @ s @ NUL # ?rest) (length pre) = find_apple (pre @ s @ NUL # ?rest) (length pre + length s + 1)"
    using len key_at_start [OF s(1), of ?rest] s(2) by (subst find_apple.simps) (simp add: Let_def)
  with Cons.IH [of "pre @ s @ [NUL]"] Cons.prems show ?case by simp
qed

text \<open>The region as the kernel lays it out.\<close>

definition procargs_region :: "cstring \<Rightarrow> nat \<Rightarrow> cstring list \<Rightarrow> cstring list \<Rightarrow> cstring list \<Rightarrow> bytes" where
  "procargs_region path pad argv env apple = int32_bytes (int (length argv)) @ path @ NUL # replicate pad NUL @
     strs argv @ strs env @ strs apple"

definition region_ok :: "cstring \<Rightarrow> cstring list \<Rightarrow> cstring list \<Rightarrow> cstring list \<Rightarrow> bool" where
  "region_ok path argv env apple \<longleftrightarrow> NUL \<notin> set path \<and> list_all (\<lambda>s. NUL \<notin> set s) (argv @ env @ apple) \<and>
     argv \<noteq> [] \<and> hd argv \<noteq> [] \<and> length argv < 2 ^ 31 \<and> list_all (\<lambda>s. \<not> is_apple0 s) env \<and>
     (apple \<noteq> [] \<longrightarrow> is_apple0 (hd apple))"

lemma split_region:
  assumes "region_ok path argv env apple"
  shows "split_procargs (procargs_region path pad argv env apple) =
    Inr \<lparr>pa_buf = procargs_region path pad argv env apple,
      pa_argv = length path + pad + 5, pa_env = length path + pad + 5 + length (strs argv),
      pa_apple = length path + pad + 5 + length (strs argv) + length (strs env)\<rparr>"
proof -
  define R where "R = procargs_region path pad argv env apple"
  define c where "c = int32_bytes (int (length argv))"
  define tail where "tail = strs argv @ strs env @ strs apple"
  define pre where "pre = c @ path @ NUL # replicate pad NUL"
  have c: "length c = 4" "le_int32 (c @ x) = int (length argv)" for x
    using assms le_int32_bytes [of "int (length argv)"]
    by (simp_all add: c_def region_ok_def le_int32_def)
  have R1: "R = c @ path @ NUL # replicate pad NUL @ tail"
    by (simp add: R_def procargs_region_def c_def tail_def)
  have R2: "R = pre @ strs argv @ strs env @ strs apple" and pre: "length pre = length path + pad + 5"
    by (simp_all add: R1 pre_def tail_def c)
  have ok: "NUL \<notin> set s" if "s \<in> set argv \<or> s \<in> set env \<or> s \<in> set apple" for s
    using assms that by (auto simp: region_ok_def list_all_iff)
  have path: "strnlen (drop 4 R) (length R - 4) = length path"
    using assms strnlen_here [of path c "replicate pad NUL @ tail" "pad + length tail"]
    by (simp add: R1 c region_ok_def)
  have "tail \<noteq> []" "hd tail \<noteq> NUL"
    using assms ok [of "hd argv"] by (cases argv; cases "hd argv"; auto simp: tail_def region_ok_def)+
  then have pad: "skip_pad R (4 + length path + 1) = length pre"
    using skip_pad_run [of tail "c @ path @ [NUL]" pad] by (simp add: R1 pre c)
  have args: "skip_args (length argv) R (length pre) = length (pre @ strs argv)"
    unfolding R2 using ok by (subst skip_args_strs) auto
  have apple: "find_apple R (length (pre @ strs argv)) = length (pre @ strs argv) + length (strs env)"
    using find_apple_strs [of env apple "pre @ strs argv"] assms ok
    by (auto simp: R2 region_ok_def list_all_iff)
  have "4 \<le> length R" "0 < length argv" "4 + length path < length R" using assms by (auto simp: R1 c region_ok_def)
  moreover have "le_int32 R = int (length argv)" by (simp add: R1 c)
  ultimately show ?thesis
    unfolding R_def [symmetric] using path pad args apple
    by (simp add: split_procargs_def Let_def pre)
qed

lemma copy_span_middle:
  assumes mv: "uiomove_out_law (kio_move K)" "uiomove_out_nofault (kio_move K)"
    and "0 \<le> uio_offset u" "uio_offset u \<le> int (length mid)" "length mid < 2 ^ 31"
    and "buf = pre @ mid @ post" "a = length pre" "b = length pre + length mid"
  shows "copy_span K buf a b u = (0, uio_push (take (nat (uio_resid u)) (drop (nat (uio_offset u)) mid)) u)"
proof -
  let ?K = "K\<lparr>kio_beyond := post @ kio_beyond K\<rparr>"
  have "int32 (int b - int a) = int (length mid)" using assms(5,7,8) by (subst int32_id) auto
  then have "copy_span K buf a b u = copy_out ?K mid u"
    using assms(6,7) by (simp add: copy_span_def copy_out_def procfs_copy_data_def Let_def)
  then show ?thesis using copy_out_suffix [of ?K u mid] assms by simp
qed

section \<open>Fetching from the daemon\<close>

lemma fetch_loop_slices:
  assumes ctl: "\<And>off. ctl REQ_PROCARGS pid off [] PROCFS_CTL_MAXPAYLOAD = Inr (blob_slice (Some R) (unat off))"
    and "fits cap (length buf)" "buf = take (length buf) R"
  shows "fetch_loop (\<lambda>_. True) ctl pid cap buf = fetch_done (take PROCFS_CMDLINE_MAX R)"
  using assms(2,3)
proof (induction "max cap PROCFS_CMDLINE_MAX - length buf" arbitrary: cap buf rule: less_induct)
  case less
  let ?full = "cap < length buf + PROCFS_CTL_MAXPAYLOAD" and ?ncap = "min (cap * 2) PROCFS_CMDLINE_MAX"
  define cap' where "cap' = (if ?full then ?ncap else cap)"
  note step = fetch_loop.simps [of "\<lambda>_. True" ctl pid cap buf, unfolded Let_def, folded cap'_def]
  note le = fits_le [OF less.prems(1)]
  show ?case
  proof (cases "?full \<and> ?ncap \<le> length buf")
    case True
    then have "length buf = PROCFS_CMDLINE_MAX"
      using fits_cap [OF less.prems(1)] le by linarith
    with less.prems(2) have "buf = take PROCFS_CMDLINE_MAX R" by metis
    moreover have "fetch_loop (\<lambda>_. True) ctl pid cap buf = fetch_done buf" using True by (simp add: step)
    ultimately show ?thesis by simp
  next
    case False
    then have "?full \<Longrightarrow> length buf < ?ncap" by linarith
    note room = fits_next [OF less.prems(1) cap'_def this]
    have "unat (of_nat (length buf) :: u64) = length buf"
      using le by (simp add: unat_of_nat take_bit_nat_eq_self PROCFS_CMDLINE_MAX_def)
    note slice = ctl [of "of_nat (length buf)", unfolded this]
    show ?thesis
    proof (cases "length R - length buf < PROCFS_CTL_MAXPAYLOAD")
      case True
      then have "buf @ blob_slice (Some R) (length buf) = R"
        using less.prems(2) by (metis append_take_drop_id slice_short)
      moreover have "take PROCFS_CMDLINE_MAX R = R" using True fits_le [OF room(2)] by simp
      ultimately show ?thesis using False room slice True by (auto simp: step slice_short)
    next
      case more: False
      let ?d = "take PROCFS_CTL_MAXPAYLOAD (drop (length buf) R)"
      have d: "blob_slice (Some R) (length buf) = ?d" "length ?d = PROCFS_CTL_MAXPAYLOAD"
        using more by (simp_all add: slice_full)
      have "fetch_loop (\<lambda>_. True) ctl pid cap' (buf @ ?d) = fetch_done (take PROCFS_CMDLINE_MAX R)"
      proof (rule less.hyps)
        show "max cap' PROCFS_CMDLINE_MAX - length (buf @ ?d) < max cap PROCFS_CMDLINE_MAX - length buf"
          using room(1) d by (auto simp: cap'_def PROCFS_CTL_MAXPAYLOAD_def split: if_splits)
        show "fits cap' (length (buf @ ?d))" using room(2) d by simp
        show "buf @ ?d = take (length (buf @ ?d)) R" using less.prems(2) d by (metis length_append take_add)
      qed
      with False room slice d show ?thesis by (auto simp: step)
    qed
  qed
qed

lemma daemon_procargs_slice:
  assumes "bridge_ready st" "os_law os" "- (2 ^ 31) \<le> pid" "pid < 2 ^ 31" "os_malloc os" "os_procargs2 os pid = Inr R"
  shows "daemon_ctl os cache st REQ_PROCARGS pid off [] PROCFS_CTL_MAXPAYLOAD = Inr (blob_slice (Some R) (unat off))"
proof -
  let ?req = "mk_req (next_seq (ctl_seq st)) REQ_PROCARGS pid off []"
  have "fst (procfsd_dispatch os ?req cache) = procfsd_handle_procargs os ?req"
    by (simp add: procfsd_dispatch_def mk_req_def listing_types_def Let_def)
  also have "\<dots> = Inr (blob_slice (Some R) (unat off))"
    using assms(5,6) by (simp add: procfsd_handle_procargs_def mk_req_def blob_slice_def Let_def)
  finally show ?thesis
    using length_blob_slice [of "Some R" "unat off"]
    by (subst daemon_answers [OF assms(1-4)]) simp_all
qed

lemma fetch_procargs_daemon:
  assumes "bridge_ready st" "os_law os" "- (2 ^ 31) \<le> pid" "pid < 2 ^ 31" "os_malloc os" "os_procargs2 os pid = Inr R"
  shows "procfs_fetch_procargs (\<lambda>_. True) (daemon_ctl os cache st) pid = fetch_done (take PROCFS_CMDLINE_MAX R)"
proof -
  have "fits PROCFS_CTL_MAXPAYLOAD (length ([] :: bytes))"
    unfolding fits_def by (rule exI [of _ 0], rule exI [of _ 0]) simp
  from fetch_loop_slices [of "daemon_ctl os cache st" pid R, OF daemon_procargs_slice [OF assms] this]
  show ?thesis by (simp add: procfs_fetch_procargs_def)
qed

section \<open>Properties\<close>

text \<open>
  C28: whatever the bridge answers and whichever allocations fail, fetching and splitting the
  argument region ends, never writes a reply past the end of its buffer, keeps at most 256 KiB and
  yields sections in order inside the region: \<open>4 \<le> argv \<le> env \<le> apple \<le> n\<close>.
\<close>

theorem read_procargs_in_bounds:
  "\<exists>r. procfs_read_procargs alloc (\<lambda>ty pid arg nm cap. fst (procfs_ctl_request_impl E ty pid arg nm cap st)) p = Some r \<and>
     (case r of Inl _ \<Rightarrow> True
      | Inr a \<Rightarrow> 4 \<le> pa_argv a \<and> pa_argv a \<le> pa_env a \<and> pa_env a \<le> pa_apple a \<and>
          pa_apple a \<le> length (pa_buf a) \<and> length (pa_buf a) \<le> PROCFS_CMDLINE_MAX)"
proof -
  from kctl.fetch_procargs_in_bounds [where E = E and st = st] obtain r where
    r: "procfs_fetch_procargs alloc (\<lambda>ty pid arg nm cap. fst (procfs_ctl_request_impl E ty pid arg nm cap st)) (kp_pid p) = Some r"
    "\<And>d. r = Inr d \<Longrightarrow> length d \<le> PROCFS_CMDLINE_MAX" by blast
  show ?thesis
  proof (cases r)
    case (Inr buf)
    with r show ?thesis
      using split_procargs_bounds [of buf] by (auto simp: procfs_read_procargs_def split: sum.splits)
  qed (use r in \<open>simp add: procfs_read_procargs_def\<close>)
qed


definition demo_args :: bytes where
  "demo_args = procargs_region ''/bin/ls'' 3 [''ls'', ''-l''] [''HOME=/''] [''executable_path=/bin/ls'']"

definition args_os :: os where
  "args_os = demo_os\<lparr>os_procargs2 := \<lambda>pid. Inr demo_args\<rparr>"

lemma args_os_law: "os_law args_os"
  using demo_os_law by (simp add: os_law_def args_os_def)

lemma demo_args_ok:
  "region_ok ''/bin/ls'' [''ls'', ''-l''] [''HOME=/''] [''executable_path=/bin/ls'']"
  "length (procargs_region ''/bin/ls'' 3 [''ls'', ''-l''] [''HOME=/''] [''executable_path=/bin/ls'']) \<le> PROCFS_CMDLINE_MAX"
  by (simp_all add: region_ok_def is_apple0_def PROCFS_EXEC_KEY_def procargs_region_def PROCFS_CMDLINE_MAX_def)


end
