(* ===== verification/MapMem.thy ===== *)
theory MapMem
  imports Sysctl
begin

text \<open>
  The address space of a process: \<open>kext/procfs_map.c\<close> (the walk over the regions and the \<open>map\<close>
  node), the \<open>maps\<close>, \<open>smaps\<close>, \<open>smaps_rollup\<close> and \<open>numa_maps\<close> nodes of \<open>kext/procfs_linux.c\<close>, and
  \<open>kext/procfs_mem.c\<close> (\<open>mem\<close> and \<open>pagemap\<close>). The properties join the walk and the reads with the
  daemon's handlers: every region is listed once and in order, a read of memory delivers the
  bytes up to the first hole, and a page map entry is that of its page.
\<close>

section \<open>Walking the regions\<close>

definition decode_region :: "bytes \<Rightarrow> map_region" where
  "decode_region b = \<lparr>mr_start = le_u64 b, mr_size = le_u64 (drop 8 b), mr_offset = le_u64 (drop 16 b),
     mr_prot = le_u32 (drop 24 b), mr_max_prot = le_u32 (drop 28 b), mr_user_wired = le_u32 (drop 32 b),
     mr_share_mode = le_u32 (drop 36 b), mr_resident_pages = le_u32 (drop 40 b),
     mr_dirty_pages = le_u32 (drop 44 b), mr_swapped_pages = le_u32 (drop 48 b),
     mr_external_pager = le_u32 (drop 52 b), mr_shared = le_u32 (drop 56 b)\<rparr>"

definition regions_of :: "bytes \<Rightarrow> map_region list" where
  "regions_of d = map (\<lambda>i. decode_region (drop (i * sizeof_map_region) d)) [0..<length d div sizeof_map_region]"

definition region_end :: "map_region \<Rightarrow> u64" where
  "region_end r = mr_start r + mr_size r"

lemma u64_to_top: "\<not> b \<le> a \<Longrightarrow> 2 ^ 64 - unat b < 2 ^ 64 - unat (a :: u64)"
  using unsigned_less [of a, where 'a = nat] unsigned_less [of b, where 'a = nat] by (simp add: word_le_nat_alt)

text \<open>The result is the errno and the regions handed to the callback, in order.\<close>

function map_walk_loop :: "ctl_oracle \<Rightarrow> int \<Rightarrow> bool \<Rightarrow> u64 \<Rightarrow> errno \<times> map_region list" where
  "map_walk_loop ctl pid first addr =
     (case ctl REQ_MAPS pid addr [] PROCFS_CTL_MAXPAYLOAD of
        Inl rc \<Rightarrow> (if \<not> first then 0 else if rc = ENOTCONN \<or> rc = ETIMEDOUT then ENOTSUP else rc, [])
      | Inr d \<Rightarrow>
          let regs = regions_of d in
          if regs = [] then (0, [])
          else let last_end = region_end (last regs) in
            if last_end \<le> addr then (0, regs)
            else (case map_walk_loop ctl pid False last_end of (error, rest) \<Rightarrow> (error, regs @ rest)))"
  by pat_completeness auto

termination
  by (relation "measure (\<lambda>(ctl, pid, first, addr). 2 ^ 64 - unat addr)")
    (auto intro: u64_to_top [simplified])

declare map_walk_loop.simps [simp del]

definition procfs_map_walk :: "ctl_oracle \<Rightarrow> int \<Rightarrow> errno \<times> map_region list" where
  "procfs_map_walk ctl pid = map_walk_loop ctl pid True 0"

section \<open>map and maps\<close>

record procfs_region =
  pr_start :: u64
  pr_end :: u64
  pr_offset :: u64
  pr_prot :: u32
  pr_max_prot :: u32
  pr_shared :: u32
  pr_wired :: u32

definition procfs_map_render_cb :: "map_region \<Rightarrow> procfs_region" where
  "procfs_map_render_cb mr = \<lparr>pr_start = mr_start mr, pr_end = mr_start mr + mr_size mr, pr_offset = mr_offset mr,
     pr_prot = mr_prot mr, pr_max_prot = mr_max_prot mr, pr_shared = mr_shared mr, pr_wired = mr_user_wired mr\<rparr>"

definition procfs_map_render :: "kio \<Rightarrow> bool \<Rightarrow> ctl_oracle \<Rightarrow> proc_table \<Rightarrow> cred \<Rightarrow> (procfs_region \<Rightarrow> string) \<Rightarrow>
    pfsnode \<Rightarrow> uio \<Rightarrow> errno \<times> uio" where
  "procfs_map_render K sbuf_ok ctl proc_find creds fmt pnp u =
     (case proc_find (nodeid_pid (node_id pnp)) of None \<Rightarrow> (ESRCH, u)
      | Some p \<Rightarrow>
          let error = procfs_check_can_access_process creds p in
          if error \<noteq> 0 then (error, u)
          else if \<not> sbuf_ok then (ENOMEM, u)
          else (case procfs_map_walk ctl (nodeid_pid (node_id pnp)) of (error, regs) \<Rightarrow>
            if error \<noteq> 0 then (error, u)
            else copy_out K (concat (map (\<lambda>mr. fmt (procfs_map_render_cb mr)) regs)) u))"

definition VM_PROT_READ :: u32 where "VM_PROT_READ = 1"
definition VM_PROT_WRITE :: u32 where "VM_PROT_WRITE = 2"
definition VM_PROT_EXECUTE :: u32 where "VM_PROT_EXECUTE = 4"

text \<open>The \<open>%llx\<close>, \<open>%016llx\<close>, \<open>%#018llx\<close> and \<open>%8llu\<close> conversions.\<close>

definition hex_char :: "nat \<Rightarrow> char" where
  "hex_char d = (if d < 10 then digit_char d else char_of (87 + d))"

fun hex :: "nat \<Rightarrow> string" where
  "hex n = (if n < 16 then [hex_char n] else hex (n div 16) @ [hex_char (n mod 16)])"

declare hex.simps [simp del]

definition pad_left :: "char \<Rightarrow> nat \<Rightarrow> string \<Rightarrow> string" where
  "pad_left c n s = replicate (n - length s) c @ s"

definition hex016 :: "u64 \<Rightarrow> string" where
  "hex016 w = pad_left CHR ''0'' 16 (hex (unat w))"

definition hex018 :: "u64 \<Rightarrow> string" where
  \<comment> \<open>the alternate form has no prefix on zero\<close>
  "hex018 w = (if w = 0 then replicate 18 CHR ''0'' else ''0x'' @ hex016 w)"

definition dec8 :: "u64 \<Rightarrow> string" where
  "dec8 w = pad_left CHR '' '' 8 (dec (unat w))"

definition prot_rwx :: "u32 \<Rightarrow> string" where
  "prot_rwx prot = [if prot AND VM_PROT_READ \<noteq> 0 then CHR ''r'' else CHR ''-'',
     if prot AND VM_PROT_WRITE \<noteq> 0 then CHR ''w'' else CHR ''-'',
     if prot AND VM_PROT_EXECUTE \<noteq> 0 then CHR ''x'' else CHR ''-'']"

definition procfs_map_fmt_netbsd :: "procfs_region \<Rightarrow> string" where
  "procfs_map_fmt_netbsd r = hex018 (pr_start r) @ '' '' @ hex018 (pr_end r) @ '' '' @
     prot_rwx (pr_prot r) @ '' '' @ prot_rwx (pr_max_prot r) @ '' '' @
     (if pr_shared r \<noteq> 0 then ''share'' else ''priv'') @ '' '' @ dec (unat (pr_wired r)) @ [NEWLINE]"

definition maps_line :: "u64 \<Rightarrow> u64 \<Rightarrow> u32 \<Rightarrow> bool \<Rightarrow> u64 \<Rightarrow> string" where
  "maps_line start e prot shared offset = hex016 start @ ''-'' @ hex016 e @ '' '' @ prot_rwx prot @
     (if shared then ''s'' else ''p'') @ '' '' @ hex016 offset @ '' 00:00 0 '' @ [NEWLINE]"

definition procfs_maps_fmt_linux :: "procfs_region \<Rightarrow> string" where
  "procfs_maps_fmt_linux r = maps_line (pr_start r) (pr_end r) (pr_prot r) (pr_shared r \<noteq> 0) (pr_offset r)"

definition procfs_domap :: "kio \<Rightarrow> bool \<Rightarrow> ctl_oracle \<Rightarrow> proc_table \<Rightarrow> cred \<Rightarrow> pfsnode \<Rightarrow> uio \<Rightarrow> errno \<times> uio" where
  "procfs_domap K sbuf_ok ctl proc_find creds pnp u =
     procfs_map_render K sbuf_ok ctl proc_find creds procfs_map_fmt_netbsd pnp u"

definition procfs_domaps :: "kio \<Rightarrow> bool \<Rightarrow> ctl_oracle \<Rightarrow> proc_table \<Rightarrow> cred \<Rightarrow> pfsnode \<Rightarrow> uio \<Rightarrow> errno \<times> uio" where
  "procfs_domaps K sbuf_ok ctl proc_find creds pnp u =
     procfs_map_render K sbuf_ok ctl proc_find creds procfs_maps_fmt_linux pnp u"

section \<open>Sizes\<close>

definition SM_SHARED :: u32 where "SM_SHARED = 4"
definition SM_TRUESHARED :: u32 where "SM_TRUESHARED = 5"
definition SM_SHARED_ALIASED :: u32 where "SM_SHARED_ALIASED = 7"

definition share_mode_shared :: "u32 \<Rightarrow> bool" where
  "share_mode_shared m \<longleftrightarrow> m = SM_SHARED \<or> m = SM_TRUESHARED \<or> m = SM_SHARED_ALIASED"

definition procfs_map_sizes_cb :: "u64 \<Rightarrow> map_region \<Rightarrow> u64 \<times> u64 \<Rightarrow> u64 \<times> u64" where
  "procfs_map_sizes_cb page_size mr c = (case c of (vsize, rsize) \<Rightarrow>
     (vsize + mr_size mr,
      if share_mode_shared (mr_share_mode mr) then rsize else rsize + ucast (mr_resident_pages mr) * page_size))"

definition procfs_task_vm_sizes :: "u64 \<Rightarrow> ctl_oracle \<Rightarrow> kproc \<Rightarrow> errno \<times> u64 \<times> u64" where
  "procfs_task_vm_sizes page_size ctl p = (case procfs_map_walk ctl (kp_pid p) of (error, regs) \<Rightarrow>
     if error \<noteq> 0 then (error, 0, 0) else (0, fold (procfs_map_sizes_cb page_size) regs (0, 0)))"

section \<open>smaps, smaps\_rollup and numa\_maps\<close>

record procfs_ext_region =
  xr_start :: u64
  xr_end :: u64
  xr_prot :: u32
  xr_resident_pages :: u32
  xr_dirty_pages :: u32
  xr_swapped_pages :: u32
  xr_shared :: bool
  xr_anonymous :: bool

definition procfs_map_ext_cb :: "map_region \<Rightarrow> procfs_ext_region" where
  "procfs_map_ext_cb mr = \<lparr>xr_start = mr_start mr, xr_end = mr_start mr + mr_size mr, xr_prot = mr_prot mr,
     xr_resident_pages = mr_resident_pages mr, xr_dirty_pages = mr_dirty_pages mr,
     xr_swapped_pages = mr_swapped_pages mr, xr_shared = share_mode_shared (mr_share_mode mr),
     xr_anonymous = (mr_external_pager mr = 0)\<rparr>"

definition procfs_map_foreach_ext :: "ctl_oracle \<Rightarrow> proc_table \<Rightarrow> cred \<Rightarrow> pfsnode \<Rightarrow> errno \<times> procfs_ext_region list" where
  "procfs_map_foreach_ext ctl proc_find creds pnp =
     (case proc_find (nodeid_pid (node_id pnp)) of None \<Rightarrow> (ESRCH, [])
      | Some p \<Rightarrow>
          let error = procfs_check_can_access_process creds p in
          if error \<noteq> 0 then (error, [])
          else (case procfs_map_walk ctl (nodeid_pid (node_id pnp)) of (error, regs) \<Rightarrow>
            (error, map procfs_map_ext_cb regs)))"

definition PROCFS_PAGE_KB :: "u64 \<Rightarrow> u64" where
  "PROCFS_PAGE_KB page_size = page_size div 1024"

definition rss_kb :: "u64 \<Rightarrow> procfs_ext_region \<Rightarrow> u64" where
  "rss_kb ps r = ucast (xr_resident_pages r) * PROCFS_PAGE_KB ps"

definition dirty_kb :: "u64 \<Rightarrow> procfs_ext_region \<Rightarrow> u64" where
  "dirty_kb ps r = (let d = ucast (xr_dirty_pages r) * PROCFS_PAGE_KB ps in if rss_kb ps r < d then rss_kb ps r else d)"

definition clean_kb :: "u64 \<Rightarrow> procfs_ext_region \<Rightarrow> u64" where
  "clean_kb ps r = rss_kb ps r - dirty_kb ps r"

definition swap_kb :: "u64 \<Rightarrow> procfs_ext_region \<Rightarrow> u64" where
  "swap_kb ps r = ucast (xr_swapped_pages r) * PROCFS_PAGE_KB ps"

definition kb_line :: "string \<Rightarrow> u64 \<Rightarrow> string" where
  \<comment> \<open>the label and its padding to column 16, the number and the unit\<close>
  "kb_line label v = label @ replicate (16 - length label) CHR '' '' @ dec8 v @ '' kB'' @ [NEWLINE]"

definition procfs_smaps_cb :: "u64 \<Rightarrow> procfs_ext_region \<Rightarrow> string" where
  "procfs_smaps_cb ps r =
     maps_line (xr_start r) (xr_end r) (xr_prot r) (xr_shared r) 0 @
     kb_line ''Size:'' ((xr_end r - xr_start r) div 1024) @
     kb_line ''KernelPageSize:'' (PROCFS_PAGE_KB ps) @ kb_line ''MMUPageSize:'' (PROCFS_PAGE_KB ps) @
     kb_line ''Rss:'' (rss_kb ps r) @ kb_line ''Pss:'' (rss_kb ps r) @
     kb_line ''Shared_Clean:'' (if xr_shared r then clean_kb ps r else 0) @
     kb_line ''Shared_Dirty:'' (if xr_shared r then dirty_kb ps r else 0) @
     kb_line ''Private_Clean:'' (if xr_shared r then 0 else clean_kb ps r) @
     kb_line ''Private_Dirty:'' (if xr_shared r then 0 else dirty_kb ps r) @
     kb_line ''Referenced:'' (rss_kb ps r) @
     kb_line ''Anonymous:'' (if xr_anonymous r then rss_kb ps r else 0) @ kb_line ''Swap:'' (swap_kb ps r) @
     ''VmFlags:'' @ (if xr_prot r AND VM_PROT_READ \<noteq> 0 then '' rd'' else []) @
     (if xr_prot r AND VM_PROT_WRITE \<noteq> 0 then '' wr'' else []) @
     (if xr_prot r AND VM_PROT_EXECUTE \<noteq> 0 then '' ex'' else []) @ (if xr_shared r then '' sh'' else []) @ [NEWLINE]"

definition procfs_dosmaps :: "kio \<Rightarrow> bool \<Rightarrow> u64 \<Rightarrow> ctl_oracle \<Rightarrow> proc_table \<Rightarrow> cred \<Rightarrow> pfsnode \<Rightarrow> uio \<Rightarrow> errno \<times> uio" where
  "procfs_dosmaps K sbuf_ok ps ctl proc_find creds pnp u =
     (if \<not> sbuf_ok then (ENOMEM, u)
      else (case procfs_map_foreach_ext ctl proc_find creds pnp of (error, rs) \<Rightarrow>
        if error \<noteq> 0 then (error, u) else copy_out K (concat (map (procfs_smaps_cb ps) rs)) u))"

record procfs_rollup =
  ro_first :: u64
  ro_last :: u64
  ro_rss :: u64
  ro_shared_clean :: u64
  ro_shared_dirty :: u64
  ro_private_clean :: u64
  ro_private_dirty :: u64
  ro_anon :: u64
  ro_swap :: u64
  ro_seen :: bool

definition rollup_zero :: procfs_rollup where
  "rollup_zero = \<lparr>ro_first = 0, ro_last = 0, ro_rss = 0, ro_shared_clean = 0, ro_shared_dirty = 0,
     ro_private_clean = 0, ro_private_dirty = 0, ro_anon = 0, ro_swap = 0, ro_seen = False\<rparr>"

definition procfs_rollup_cb :: "u64 \<Rightarrow> procfs_ext_region \<Rightarrow> procfs_rollup \<Rightarrow> procfs_rollup" where
  "procfs_rollup_cb ps r t =
     \<lparr>ro_first = (if \<not> ro_seen t then xr_start r else ro_first t), ro_last = xr_end r,
      ro_rss = ro_rss t + rss_kb ps r,
      ro_shared_clean = (if xr_shared r then ro_shared_clean t + clean_kb ps r else ro_shared_clean t),
      ro_shared_dirty = (if xr_shared r then ro_shared_dirty t + dirty_kb ps r else ro_shared_dirty t),
      ro_private_clean = (if xr_shared r then ro_private_clean t else ro_private_clean t + clean_kb ps r),
      ro_private_dirty = (if xr_shared r then ro_private_dirty t else ro_private_dirty t + dirty_kb ps r),
      ro_anon = (if xr_anonymous r then ro_anon t + rss_kb ps r else ro_anon t),
      ro_swap = ro_swap t + swap_kb ps r, ro_seen = True\<rparr>"

definition rollup_text :: "procfs_rollup \<Rightarrow> string" where
  "rollup_text t = hex016 (ro_first t) @ ''-'' @ hex016 (ro_last t) @ '' ---p 00000000 00:00 0 [rollup]'' @ [NEWLINE] @
     kb_line ''Rss:'' (ro_rss t) @ kb_line ''Pss:'' (ro_rss t) @
     kb_line ''Shared_Clean:'' (ro_shared_clean t) @ kb_line ''Shared_Dirty:'' (ro_shared_dirty t) @
     kb_line ''Private_Clean:'' (ro_private_clean t) @ kb_line ''Private_Dirty:'' (ro_private_dirty t) @
     kb_line ''Referenced:'' (ro_rss t) @ kb_line ''Anonymous:'' (ro_anon t) @ kb_line ''Swap:'' (ro_swap t)"

definition procfs_dosmaps_rollup :: "kio \<Rightarrow> bool \<Rightarrow> u64 \<Rightarrow> ctl_oracle \<Rightarrow> proc_table \<Rightarrow> cred \<Rightarrow> pfsnode \<Rightarrow> uio \<Rightarrow> errno \<times> uio" where
  "procfs_dosmaps_rollup K sbuf_ok ps ctl proc_find creds pnp u =
     (case procfs_map_foreach_ext ctl proc_find creds pnp of (error, rs) \<Rightarrow>
        if error \<noteq> 0 then (error, u)
        else if \<not> sbuf_ok then (ENOMEM, u)
        else copy_out K (rollup_text (fold (procfs_rollup_cb ps) rs rollup_zero)) u)"

definition procfs_numa_cb :: "u64 \<Rightarrow> procfs_ext_region \<Rightarrow> string" where
  "procfs_numa_cb ps r = hex (unat (xr_start r)) @ '' default'' @
     (if xr_anonymous r \<and> 0 < xr_resident_pages r then '' anon='' @ dec (unat (xr_resident_pages r)) else []) @
     (if 0 < xr_dirty_pages r then '' dirty='' @ dec (unat (xr_dirty_pages r)) else []) @
     (if 0 < xr_swapped_pages r then '' swapcache='' @ dec (unat (xr_swapped_pages r)) else []) @
     (if 0 < xr_resident_pages r then '' N0='' @ dec (unat (xr_resident_pages r)) else []) @
     '' kernelpagesize_kB='' @ dec (unat (PROCFS_PAGE_KB ps)) @ [NEWLINE]"

definition procfs_donuma_maps :: "kio \<Rightarrow> bool \<Rightarrow> u64 \<Rightarrow> ctl_oracle \<Rightarrow> proc_table \<Rightarrow> cred \<Rightarrow> pfsnode \<Rightarrow> uio \<Rightarrow> errno \<times> uio" where
  "procfs_donuma_maps K sbuf_ok ps ctl proc_find creds pnp u =
     (if \<not> sbuf_ok then (ENOMEM, u)
      else (case procfs_map_foreach_ext ctl proc_find creds pnp of (error, rs) \<Rightarrow>
        if error \<noteq> 0 then (error, u) else copy_out K (concat (map (procfs_numa_cb ps) rs)) u))"

section \<open>mem and pagemap\<close>

text \<open>
  Both loops run until the reader is satisfied or a reply ends them; a \<open>uiomove\<close> that never
  moves anything would keep them running, which is \<^const>\<open>None\<close>.
\<close>

definition daemon_error :: "errno \<Rightarrow> errno" where
  "daemon_error rc = (if rc = ENOTCONN \<or> rc = ETIMEDOUT then ENOTSUP else rc)"

partial_function (option) domem_loop :: "kio \<Rightarrow> ctl_oracle \<Rightarrow> int \<Rightarrow> bool \<Rightarrow> uio \<Rightarrow> (errno \<times> uio) option" where
  "domem_loop K ctl pid any u =
     (if 0 < uio_resid u then
        (case ctl REQ_MEMREAD pid (of_int (uio_offset u)) [] PROCFS_CTL_MAXPAYLOAD of
           Inl rc \<Rightarrow> Some (if any then 0 else daemon_error rc, u)
         | Inr d \<Rightarrow>
             if d = [] then Some (if any then 0 else EIO, u)
             else (case kio_move K d (min (int (length d)) (uio_resid u)) u of (error, u') \<Rightarrow>
               if error \<noteq> 0 then Some (error, u')
               else if length d < PROCFS_CTL_MAXPAYLOAD then Some (0, u')
               else domem_loop K ctl pid True u'))
      else Some (0, u))"

definition procfs_domem :: "kio \<Rightarrow> bool \<Rightarrow> ctl_oracle \<Rightarrow> proc_table \<Rightarrow> cred \<Rightarrow> pfsnode \<Rightarrow> uio \<Rightarrow> (errno \<times> uio) option" where
  "procfs_domem K alloc ctl proc_find creds pnp u =
     (if uio_rw u \<noteq> UIO_READ then Some (EOPNOTSUPP, u)
      else (case proc_find (nodeid_pid (node_id pnp)) of None \<Rightarrow> Some (ESRCH, u)
        | Some p \<Rightarrow>
            let error = procfs_check_can_access_process creds p in
            if error \<noteq> 0 then Some (error, u)
            else if \<not> alloc then Some (ENOMEM, u)
            else domem_loop K ctl (nodeid_pid (node_id pnp)) False u))"

partial_function (option) dopagemap_loop :: "kio \<Rightarrow> u64 \<Rightarrow> ctl_oracle \<Rightarrow> int \<Rightarrow> bool \<Rightarrow> uio \<Rightarrow> (errno \<times> uio) option" where
  "dopagemap_loop K ps ctl pid any u =
     (if 0 < uio_resid u then
        (let off = of_int (uio_offset u) :: u64;
             start_va = (off div 8) * ps;
             byte_in = unat (off mod 8)
         in (case ctl REQ_PAGEMAP pid start_va [] PROCFS_CTL_MAXPAYLOAD of
               Inl rc \<Rightarrow> Some (if any then 0 else daemon_error rc, u)
             | Inr d \<Rightarrow>
                 if length d \<le> byte_in then Some (0, u)
                 else (case kio_move K (drop byte_in d) (min (int (length d - byte_in)) (uio_resid u)) u of (error, u') \<Rightarrow>
                   if error \<noteq> 0 then Some (error, u') else dopagemap_loop K ps ctl pid True u')))
      else Some (0, u))"

definition procfs_dopagemap :: "kio \<Rightarrow> u64 \<Rightarrow> bool \<Rightarrow> ctl_oracle \<Rightarrow> proc_table \<Rightarrow> cred \<Rightarrow> pfsnode \<Rightarrow> uio \<Rightarrow> (errno \<times> uio) option" where
  "procfs_dopagemap K ps alloc ctl proc_find creds pnp u =
     (if uio_rw u \<noteq> UIO_READ then Some (EOPNOTSUPP, u)
      else (case proc_find (nodeid_pid (node_id pnp)) of None \<Rightarrow> Some (ESRCH, u)
        | Some p \<Rightarrow>
            let error = procfs_check_can_access_process creds p in
            if error \<noteq> 0 then Some (error, u)
            else if \<not> alloc then Some (ENOMEM, u)
            else dopagemap_loop K ps ctl (nodeid_pid (node_id pnp)) False u))"

section \<open>The walk against the daemon\<close>

lemma decode_encode_region: "decode_region (encode_region r @ rest) = r"
  by (simp add: decode_region_def encode_region_def)

lemma regions_of_Cons: "regions_of (encode_region r @ bs) = r # regions_of bs"
proof -
  have "[0..<Suc n] = 0 # map Suc [0..<n]" for n by (simp add: upt_conv_Cons map_Suc_upt del: upt_Suc)
  moreover have "(64 + length bs) div 64 = Suc (length bs div 64)" by simp
  ultimately show ?thesis
    by (simp add: regions_of_def comp_def decode_encode_region sizeof_map_region_def
        length_encode_region [unfolded sizeof_map_region_def] del: upt_Suc)
qed

lemma regions_of_encode: "regions_of (concat (map encode_region rs)) = rs"
  by (induction rs) (simp_all add: regions_of_Cons, simp add: regions_of_def)

text \<open>
  An address space: regions in ascending order that do not overlap and do not reach the last
  byte of the 64-bit space. \<open>mach_vm_region\<close> finds the region at or above an address.
\<close>

definition vb_end :: "vm_basic \<Rightarrow> u64" where "vb_end b = vb_start b + vb_size b"

definition space_ok :: "vm_basic list \<Rightarrow> bool" where
  "space_ok bs \<longleftrightarrow> sorted_wrt (\<lambda>a b. unat (vb_start a) + unat (vb_size a) \<le> unat (vb_start b)) bs \<and>
     list_all (\<lambda>b. 0 < unat (vb_size b) \<and> unat (vb_start b) + unat (vb_size b) < 2 ^ 64) bs"

definition region_at :: "vm_basic list \<Rightarrow> u64 \<Rightarrow> vm_basic option" where
  "region_at bs addr = List.find (\<lambda>b. addr < vb_end b) bs"

text \<open>A point between two regions: all of \<open>pre\<close> ends at or below it, all of \<open>suf\<close> above it.\<close>

definition cut_at :: "vm_basic list \<Rightarrow> u64 \<Rightarrow> vm_basic list \<Rightarrow> bool" where
  "cut_at pre addr suf \<longleftrightarrow> list_all (\<lambda>b. vb_end b \<le> addr) pre \<and> list_all (\<lambda>b. addr < vb_end b) suf"

lemma unat_vb_end: "unat (vb_start b) + unat (vb_size b) < 2 ^ 64 \<Longrightarrow> unat (vb_end b) = unat (vb_start b) + unat (vb_size b)"
  by (simp add: vb_end_def unat_word_ariths)

lemma region_at_cut: "cut_at pre addr suf \<Longrightarrow> region_at (pre @ suf) addr = (case suf of [] \<Rightarrow> None | b # _ \<Rightarrow> Some b)"
  by (induction pre) (auto simp: region_at_def cut_at_def split: list.splits)

lemma cut_at_step:
  assumes "space_ok (pre @ b # suf)"
  shows "cut_at (pre @ [b]) (vb_end b) suf" "\<not> vb_end b \<le> vb_start b"
proof -
  have e: "unat (vb_end c) = unat (vb_start c) + unat (vb_size c)" "0 < unat (vb_size c)"
    if "c \<in> set pre \<union> {b} \<union> set suf" for c
    using assms that by (auto simp: space_ok_def list_all_iff intro: unat_vb_end)
  have 1: "vb_end a \<le> vb_end b" if "a \<in> set pre" for a
    using assms that e [of a] e [of b] by (fastforce simp: space_ok_def sorted_wrt_append word_le_nat_alt)
  have 2: "vb_end b < vb_end c" if "c \<in> set suf" for c
    using assms that e [of b] e [of c] by (fastforce simp: space_ok_def sorted_wrt_append word_less_nat_alt)
  show "cut_at (pre @ [b]) (vb_end b) suf" using 1 2 by (simp add: cut_at_def list_all_iff)
  show "\<not> vb_end b \<le> vb_start b" using e [of b] by (simp add: word_le_nat_alt)
qed

lemma cut_at_take:
  assumes "space_ok (pre @ suf)" "suf \<noteq> []" "0 < k"
  shows "cut_at (pre @ take k suf) (vb_end (last (take k suf))) (drop k suf)"
proof -
  let ?t = "take k suf"
  have "?t \<noteq> []" using assms(2,3) by simp
  then have "pre @ suf = (pre @ butlast ?t) @ last ?t # drop k suf"
    by (metis append.assoc append_Cons append_butlast_last_id append_self_conv2 append_take_drop_id)
  with assms(1) have "cut_at ((pre @ butlast ?t) @ [last ?t]) (vb_end (last ?t)) (drop k suf)"
    by (metis cut_at_step(1))
  with \<open>?t \<noteq> []\<close> show ?thesis by simp
qed

definition full_region :: "os \<Rightarrow> int \<Rightarrow> vm_basic \<Rightarrow> map_region" where
  "full_region os pid b = mk_region b (os_vm_region_ext os pid (vb_start b))"

lemma maps_loop_regions:
  assumes "os_vm_region os pid = region_at (pre @ suf)" "space_ok (pre @ suf)" "cut_at pre addr suf"
  shows "maps_loop k os pid addr = map (full_region os pid) (take k suf)"
  using assms
proof (induction k arbitrary: pre suf addr)
  case (Suc k)
  show ?case
  proof (cases suf)
    case Nil
    with Suc.prems region_at_cut [OF Suc.prems(3)] show ?thesis by simp
  next
    case (Cons b bs)
    have "space_ok (pre @ b # bs)" using Suc.prems(2) Cons by simp
    note step = cut_at_step [OF this]
    have "maps_loop k os pid (vb_end b) = map (full_region os pid) (take k bs)"
      using Suc.prems Cons step(1) by (intro Suc.IH [of "pre @ [b]"]) simp_all
    moreover have "os_vm_region os pid addr = Some b" using Suc.prems Cons region_at_cut [OF Suc.prems(3)] by simp
    ultimately show ?thesis using step(2) Cons by (simp add: Let_def full_region_def flip: vb_end_def)
  qed
qed simp

lemma daemon_maps:
  assumes "bridge_ready st" "os_law os" "- (2 ^ 31) \<le> pid" "pid < 2 ^ 31" "os_task_for_pid os pid"
  shows "daemon_ctl os cache st REQ_MAPS pid addr [] PROCFS_CTL_MAXPAYLOAD =
    Inr (concat (map encode_region (maps_loop 32 os pid addr)))"
proof -
  let ?req = "mk_req (next_seq (ctl_seq st)) REQ_MAPS pid addr []"
  have "fst (procfsd_dispatch os ?req cache) = procfsd_handle_maps os ?req"
    by (simp add: procfsd_dispatch_def mk_req_def listing_types_def Let_def)
  moreover have "procfsd_handle_maps os ?req = Inr (concat (map encode_region (maps_loop 32 os pid addr)))"
    using assms(5) by (simp add: procfsd_handle_maps_def mk_req_def PROCFS_CTL_MAXPAYLOAD_def sizeof_map_region_def)
  ultimately show ?thesis
    using sendable_maps [of os ?req] by (subst daemon_answers [OF assms(1-4)]) simp_all
qed

lemma map_walk_loop_regions:
  assumes ctl: "\<And>addr. ctl REQ_MAPS pid addr [] PROCFS_CTL_MAXPAYLOAD = Inr (concat (map encode_region (maps_loop 32 os pid addr)))"
    and "os_vm_region os pid = region_at (pre @ suf)" "space_ok (pre @ suf)" "cut_at pre addr suf"
  shows "map_walk_loop ctl pid first addr = (0, map (full_region os pid) suf)"
  using assms(2-4)
proof (induction "length suf" arbitrary: pre suf addr first rule: less_induct)
  case less
  have regs: "regions_of (concat (map encode_region (maps_loop 32 os pid addr))) = map (full_region os pid) (take 32 suf)"
    by (simp only: regions_of_encode maps_loop_regions [OF less.prems])
  show ?case
  proof (cases "suf = []")
    case True
    with regs show ?thesis by (subst map_walk_loop.simps) (simp add: ctl)
  next
    case False
    let ?t = "take 32 suf"
    have l: "region_end (last (map (full_region os pid) ?t)) = vb_end (last ?t)"
      using False by (simp add: last_map region_end_def full_region_def mk_region_def vb_end_def)
    have "last ?t \<in> set suf" using False by (metis in_set_takeD last_in_set take_eq_Nil zero_neq_numeral)
    then have up: "\<not> vb_end (last ?t) \<le> addr" using less.prems(3) by (auto simp: cut_at_def list_all_iff not_le)
    have "map_walk_loop ctl pid False (vb_end (last ?t)) = (0, map (full_region os pid) (drop 32 suf))"
      using False less.prems(1,2) cut_at_take [OF less.prems(2) False, of 32]
      by (intro less.hyps [of "drop 32 suf" "pre @ ?t"]) simp_all
    moreover have "map (full_region os pid) ?t @ map (full_region os pid) (drop 32 suf) = map (full_region os pid) suf"
      by (metis append_take_drop_id map_append)
    ultimately show ?thesis using regs False l up by (subst map_walk_loop.simps) (simp add: ctl Let_def)
  qed
qed

section \<open>Memory against the daemon\<close>

text \<open>
  The memory of a task: which pages can be read, by page number, and the byte at each address.
  A read that stays inside one page succeeds when the page is resident.
\<close>

definition task_memory :: "os \<Rightarrow> int \<Rightarrow> nat \<Rightarrow> (u64 \<Rightarrow> bool) \<Rightarrow> (u64 \<Rightarrow> char) \<Rightarrow> bool" where
  "task_memory os pid k res byte \<longleftrightarrow> k < 64 \<and> os_page_size os = 2 ^ k \<and> os_task_for_pid os pid \<and>
     (\<forall>cur n. 0 < n \<and> unat cur mod 2 ^ k + n \<le> 2 ^ k \<longrightarrow> os_vm_read os pid cur n =
        (if res (drop_bit k cur) then Some (map (\<lambda>i. byte (cur + of_nat i)) [0..<n]) else None))"

text \<open>The resident bytes from an address on, at most \<open>n\<close>.\<close>

fun prefix :: "nat \<Rightarrow> (u64 \<Rightarrow> bool) \<Rightarrow> (u64 \<Rightarrow> char) \<Rightarrow> u64 \<Rightarrow> nat \<Rightarrow> bytes" where
  "prefix k res byte va 0 = []"
| "prefix k res byte va (Suc n) = (if res (drop_bit k va) then byte va # prefix k res byte (va + 1) n else [])"

lemma length_prefix: "length (prefix k res byte va n) \<le> n"
  by (induction k res byte va n rule: prefix.induct) auto

lemma prefix_Nil_iff: "0 < n \<Longrightarrow> prefix k res byte va n = [] \<longleftrightarrow> \<not> res (drop_bit k va)"
  by (cases n) auto

lemma prefix_add:
  "length (prefix k res byte va m) = m \<Longrightarrow>
     prefix k res byte va (m + n) = prefix k res byte va m @ prefix k res byte (va + of_nat m) n"
proof (induction m arbitrary: va)
  case (Suc m)
  have eq: "va + of_nat (Suc m) = va + 1 + of_nat m" by (simp only: of_nat_Suc add.assoc)
  have res: "res (drop_bit k va)" using Suc.prems by (auto split: if_splits)
  then have "length (prefix k res byte (va + 1) m) = m" using Suc.prems by simp
  from Suc.IH [OF this] show ?case using res by (simp only: eq add_Suc prefix.simps if_True append_Cons)
qed simp

lemma prefix_short:
  "length (prefix k res byte va m) < m \<Longrightarrow> m \<le> n \<Longrightarrow> prefix k res byte va n = prefix k res byte va m"
proof (induction m arbitrary: n va)
  case (Suc m)
  from Suc.prems(2) obtain n' where n: "n = Suc n'" "m \<le> n'" by (cases n) auto
  show ?case
  proof (cases "res (drop_bit k va)")
    case True
    with Suc.prems(1) have "length (prefix k res byte (va + 1) m) < m" by simp
    from Suc.IH [OF this n(2)] True n(1) show ?thesis by (simp only: prefix.simps)
  qed (simp add: n)
qed simp

lemma take_prefix: "take m (prefix k res byte va n) = prefix k res byte va (min m n)"
proof (induction n arbitrary: m va)
  case (Suc n)
  from Suc.IH [of "m - 1" "va + 1"] show ?case by (cases m) simp_all
qed simp

lemma page_next:
  assumes "k < 64" "unat (va :: u64) mod 2 ^ k + 1 < 2 ^ k"
  shows "unat (va + 1) mod 2 ^ k = unat va mod 2 ^ k + 1" "drop_bit k (va + 1) = drop_bit k va"
proof -
  have s: "(unat va + 1) mod 2 ^ k = unat va mod 2 ^ k + 1" "(unat va + 1) div 2 ^ k = unat va div 2 ^ k"
    using assms(2) by (simp_all add: mod_Suc div_Suc)
  have "unat va + 1 \<noteq> 2 ^ 64"
  proof
    assume "unat va + 1 = 2 ^ 64"
    moreover have "(2 :: nat) ^ 64 mod 2 ^ k = 0" using assms(1) by (simp only: le_imp_power_dvd mod_0_imp_dvd dvd_imp_mod_0 less_imp_le)
    ultimately show False using s(1) by (simp only:)
  qed
  then have "unat va + 1 < 2 ^ 64" using unsigned_less [of va, where 'a = nat] by simp
  then have u: "unat (va + 1) = unat va + 1" by (simp add: unat_word_ariths)
  show "unat (va + 1) mod 2 ^ k = unat va mod 2 ^ k + 1" by (simp only: u s)
  have "unat (drop_bit k (va + 1)) = unat (drop_bit k va)"
    unfolding unat_drop_bit_eq by (simp only: drop_bit_eq_div u s)
  then show "drop_bit k (va + 1) = drop_bit k va" by (simp only: word_unat_eq_iff)
qed

lemma prefix_page:
  assumes "k < 64" "unat va mod 2 ^ k + n \<le> 2 ^ k"
  shows "prefix k res byte va n = (if res (drop_bit k va) then map (\<lambda>i. byte (va + of_nat i)) [0..<n] else [])"
  using assms(2)
proof (induction n arbitrary: va)
  case (Suc n)
  have lt: "unat va mod 2 ^ k + 1 \<le> 2 ^ k" using Suc.prems by simp
  have map: "map (\<lambda>i. byte (va + of_nat i)) [0..<Suc n] = byte va # map (\<lambda>i. byte (va + 1 + of_nat i)) [0..<n]"
  proof -
    have eq: "va + of_nat (Suc i) = va + 1 + of_nat i" for i by (simp only: of_nat_Suc add.assoc)
    have "[0..<Suc n] = 0 # map Suc [0..<n]" by (simp add: upt_conv_Cons map_Suc_upt del: upt_Suc)
    then show ?thesis by (simp add: comp_def eq del: of_nat_Suc upt_Suc)
  qed
  show ?case
  proof (cases "n = 0")
    case False
    then have small: "unat va mod 2 ^ k + 1 < 2 ^ k" using Suc.prems by simp
    note nx = page_next [OF assms(1) small]
    from Suc.IH [of "va + 1"] Suc.prems nx map show ?thesis by simp
  qed simp
qed simp

lemma memread_loop_prefix:
  assumes "task_memory os pid k res byte"
    and "out = prefix k res byte base (length out)" "length out \<le> PROCFS_CTL_MAXPAYLOAD"
  shows "memread_loop os pid base out = prefix k res byte base PROCFS_CTL_MAXPAYLOAD"
  using assms(2,3)
proof (induction "PROCFS_CTL_MAXPAYLOAD - length out" arbitrary: out rule: less_induct)
  case less
  let ?n = PROCFS_CTL_MAXPAYLOAD
  from assms(1) have k: "k < 64" and ps: "os_page_size os = 2 ^ k" by (auto simp: task_memory_def)
  show ?case
  proof (cases "length out < ?n")
    case False
    with less.prems have "length out = ?n" by simp
    with less.prems(1) show ?thesis by (subst memread_loop.simps) simp
  next
    case True
    define cur where "cur = base + of_nat (length out)"
    define chunk where "chunk = min (unat (2 ^ k - (cur AND (2 ^ k - 1)))) (?n - length out)"
    have mod: "unat (cur AND (2 ^ k - 1)) = unat cur mod 2 ^ k"
    proof -
      have "cur AND (2 ^ k - 1) = take_bit k cur" by (simp only: take_bit_eq_mask mask_eq_exp_minus_1)
      then show ?thesis by (simp only: unsigned_take_bit_eq) (simp only: take_bit_eq_mod)
    qed
    have pg: "unat (2 ^ k - (cur AND (2 ^ k - 1))) = 2 ^ k - unat cur mod 2 ^ k"
    proof -
      have "(2 :: nat) ^ k < 2 ^ 64" using k by (intro power_strict_increasing) simp_all
      then have "unat (of_nat (2 ^ k) :: u64) = 2 ^ k" by (simp only: unat_of_nat) (simp add: take_bit_nat_eq_self)
      then have "unat (2 ^ k :: u64) = 2 ^ k" by simp
      moreover have "unat cur mod 2 ^ k < 2 ^ k" by simp
      ultimately show ?thesis by (subst unat_sub) (simp_all add: word_le_nat_alt mod less_imp_le)
    qed
    have c: "0 < chunk" "unat cur mod 2 ^ k + chunk \<le> 2 ^ k"
      using True mod_less_divisor [of "2 ^ k" "unat cur"] by (auto simp: chunk_def pg min_def not_le)
    define d where "d = prefix k res byte cur chunk"
    have read: "os_vm_read os pid cur chunk = (if res (drop_bit k cur) then Some d else None)"
      using assms(1) c prefix_page [OF k c(2)] by (simp add: task_memory_def d_def)
    have full: "length (prefix k res byte base (length out)) = length out" using less.prems(1) by metis
    have grow: "prefix k res byte base (length out + m) = out @ prefix k res byte cur m" for m
      using prefix_add [OF full] less.prems(1) by (simp add: cur_def)
    note step = memread_loop.simps [of os pid base out, unfolded Let_def ps, folded cur_def, folded chunk_def]
    show ?thesis
    proof (cases "res (drop_bit k cur)")
      case r: True
      then have dl: "length d = chunk" "d \<noteq> []" using prefix_page [OF k c(2)] c(1) by (auto simp: d_def)
      have "memread_loop os pid base (out @ d) = prefix k res byte base ?n"
      proof (rule less.hyps)
        show "?n - length (out @ d) < ?n - length out" using True c(1) dl by simp
        show "out @ d = prefix k res byte base (length (out @ d))" using grow [of chunk] dl by (simp add: d_def)
        show "length (out @ d) \<le> ?n" using True dl by (simp add: chunk_def)
      qed
      with True r read dl show ?thesis by (simp add: step)
    next
      case False
      have "prefix k res byte base (length out + (?n - length out)) = out"
        unfolding grow using False True by (cases "?n - length out") simp_all
      with True False read show ?thesis by (simp add: step)
    qed
  qed
qed

lemma daemon_memread:
  assumes "bridge_ready st" "os_law os" "- (2 ^ 31) \<le> pid" "pid < 2 ^ 31" "task_memory os pid k res byte"
  shows "daemon_ctl os cache st REQ_MEMREAD pid va [] PROCFS_CTL_MAXPAYLOAD =
    Inr (prefix k res byte va PROCFS_CTL_MAXPAYLOAD)"
proof -
  let ?req = "mk_req (next_seq (ctl_seq st)) REQ_MEMREAD pid va []"
  have "fst (procfsd_dispatch os ?req cache) = procfsd_handle_memread os ?req"
    by (simp add: procfsd_dispatch_def mk_req_def listing_types_def Let_def)
  moreover have "procfsd_handle_memread os ?req = Inr (prefix k res byte va PROCFS_CTL_MAXPAYLOAD)"
    using assms(5) memread_loop_prefix [OF assms(5), of "[]" va]
    by (simp add: procfsd_handle_memread_def mk_req_def task_memory_def)
  ultimately show ?thesis
    using length_prefix [of k res byte va PROCFS_CTL_MAXPAYLOAD] by (subst daemon_answers [OF assms(1-4)]) simp_all
qed

lemma domem_loop_prefix:
  assumes mv: "uiomove_out_law (kio_move K)" "uiomove_out_nofault (kio_move K)"
    and ctl: "\<And>va. ctl REQ_MEMREAD pid va [] PROCFS_CTL_MAXPAYLOAD = Inr (prefix k res byte va PROCFS_CTL_MAXPAYLOAD)"
  shows "domem_loop K ctl pid any u =
    (let d = prefix k res byte (of_int (uio_offset u)) (nat (uio_resid u))
     in Some (if d = [] \<and> 0 < uio_resid u \<and> \<not> any then EIO else 0, uio_push d u))"
proof (induction "nat (uio_resid u)" arbitrary: u any rule: less_induct)
  case less
  let ?n = PROCFS_CTL_MAXPAYLOAD and ?va = "of_int (uio_offset u) :: u64" and ?r = "nat (uio_resid u)"
  define d where "d = prefix k res byte ?va ?n"
  show ?case
  proof (cases "0 < uio_resid u \<and> d \<noteq> []")
    case False
    have "prefix k res byte ?va ?r = []" if "0 < uio_resid u" "d = []"
      using that by (simp add: d_def prefix_Nil_iff PROCFS_CTL_MAXPAYLOAD_def)
    with False show ?thesis
      by (subst domem_loop.simps) (auto simp: ctl Let_def simp flip: d_def)
  next
    case True
    have len: "length d \<le> ?n" by (simp add: d_def length_prefix)
    have "take (move_len (min (int (length d)) (uio_resid u)) u) d = take ?r d"
      by (cases "int (length d) \<le> uio_resid u") (simp_all add: move_len_def min_def)
    then have move: "kio_move K d (min (int (length d)) (uio_resid u)) u = (0, uio_push (take ?r d) u)"
      using uiomove_outD [OF mv] by simp
    have first: "prefix k res byte ?va ?r \<noteq> []"
      using True by (simp add: d_def prefix_Nil_iff PROCFS_CTL_MAXPAYLOAD_def)
    show ?thesis
    proof (cases "length d < ?n \<or> ?r \<le> ?n")
      case short: True
      have "take ?r d = prefix k res byte ?va ?r"
        using short prefix_short [of k res byte ?va ?n ?r]
        by (cases "?r \<le> ?n") (simp_all add: d_def take_prefix min_def)
      moreover have "domem_loop K ctl pid True (uio_push (take ?r d) u) = Some (0, uio_push (take ?r d) u)"
        if "length d = ?n" using that short by (subst domem_loop.simps) simp
      ultimately show ?thesis using True move first len
        by (subst domem_loop.simps) (auto simp: ctl Let_def simp flip: d_def)
    next
      case long: False
      let ?u = "uio_push d u"
      have "nat (uio_resid ?u) = ?r - ?n" "length d = ?n" using long len by auto
      moreover have "of_int (uio_offset ?u) = ?va + of_nat ?n" using \<open>length d = ?n\<close> by simp
      moreover have "prefix k res byte ?va ?r = d @ prefix k res byte (?va + of_nat ?n) (?r - ?n)"
        using prefix_add [of k res byte ?va ?n "?r - ?n"] long \<open>length d = ?n\<close> by (simp add: d_def)
      ultimately have "domem_loop K ctl pid True ?u = Some (0, uio_push (prefix k res byte ?va ?r) u)"
        using less.hyps [of ?u True] long by (simp add: Let_def PROCFS_CTL_MAXPAYLOAD_def)
      with True move first long len \<open>length d = ?n\<close> show ?thesis
        by (subst domem_loop.simps) (auto simp: ctl Let_def simp flip: d_def)
    qed
  qed
qed

section \<open>Page map entries\<close>

lemma flag_bit: "m < 64 \<Longrightarrow> bit (if c then push_bit m 1 else 0 :: u64) n \<longleftrightarrow> c \<and> n = m"
  by (auto simp: bit_exp_iff)

lemma bit_pagemap_bits:
  "bit (pagemap_bits disp) n \<longleftrightarrow>
     (n = 63 \<and> disp AND VM_PAGE_QUERY_PAGE_PRESENT \<noteq> 0) \<or> (n = 62 \<and> disp AND VM_PAGE_QUERY_PAGE_PAGED_OUT \<noteq> 0) \<or>
     (n = 61 \<and> disp AND VM_PAGE_QUERY_PAGE_EXTERNAL \<noteq> 0) \<or> (n = 55 \<and> disp AND VM_PAGE_QUERY_PAGE_DIRTY \<noteq> 0)"
proof -
  have lt: "(63 :: nat) < 64" "(62 :: nat) < 64" "(61 :: nat) < 64" "(55 :: nat) < 64" by simp_all
  show ?thesis unfolding pagemap_bits_def bit_or_iff flag_bit [OF lt(1)] flag_bit [OF lt(2)] flag_bit [OF lt(3)]
      flag_bit [OF lt(4)] by blast
qed

lemma take_concat_u64: "0 < n \<Longrightarrow> take 8 (concat (map (\<lambda>i. u64_bytes (f i)) [0..<n])) = u64_bytes (f 0)"
  by (cases n) (simp_all add: upt_conv_Cons del: upt_Suc)

lemma daemon_pagemap:
  assumes "bridge_ready st" "os_law os" "- (2 ^ 31) \<le> pid" "pid < 2 ^ 31" "os_task_for_pid os pid"
    and "os_vm_region os pid va = Some bi"
  shows "daemon_ctl os cache st REQ_PAGEMAP pid va [] PROCFS_CTL_MAXPAYLOAD =
    Inr (concat (map (\<lambda>i. u64_bytes (pagemap_entry os pid (vb_start bi) (va + of_nat i * os_page_size os))) [0..<256]))"
proof -
  let ?req = "mk_req (next_seq (ctl_seq st)) REQ_PAGEMAP pid va []"
  have "fst (procfsd_dispatch os ?req cache) = procfsd_handle_pagemap os ?req"
    by (simp add: procfsd_dispatch_def mk_req_def listing_types_def Let_def)
  moreover have "procfsd_handle_pagemap os ?req =
      Inr (concat (map (\<lambda>i. u64_bytes (pagemap_entry os pid (vb_start bi) (va + of_nat i * os_page_size os))) [0..<256]))"
    using assms(5,6) by (simp add: procfsd_handle_pagemap_def mk_req_def PROCFS_CTL_MAXPAYLOAD_def Let_def del: upt_Suc)
  ultimately show ?thesis
    using sendable_pagemap [of os ?req] by (subst daemon_answers [OF assms(1-4)]) (simp_all del: upt_Suc)
qed

lemma pagemap_offset:
  assumes "8 * i < 2 ^ 64"
  shows "(of_int (8 * int i) :: u64) div 8 = of_nat i" "(of_int (8 * int i) :: u64) mod 8 = 0"
proof -
  have e: "(of_int (8 * int i) :: u64) = of_nat (8 * i)" by simp
  have u: "unat (of_nat (8 * i) :: u64) = 8 * i" "unat (of_nat i :: u64) = i"
    using assms by (simp_all only: unat_of_nat) (simp_all add: take_bit_nat_eq_self)
  have "unat ((of_nat (8 * i) :: u64) div 8) = unat (of_nat i :: u64)"
    by (simp only: unat_div u) simp
  then show "(of_int (8 * int i) :: u64) div 8 = of_nat i" unfolding e by (simp only: word_unat_eq_iff)
  have "unat ((of_nat (8 * i) :: u64) mod 8) = unat (0 :: u64)"
    by (simp only: unat_mod u) simp
  then show "(of_int (8 * int i) :: u64) mod 8 = 0" unfolding e by (simp only: word_unat_eq_iff)
qed

section \<open>Rollup\<close>

definition unaccounted :: "procfs_rollup \<Rightarrow> u64" where
  "unaccounted t = ro_rss t - (ro_shared_clean t + ro_shared_dirty t + ro_private_clean t + ro_private_dirty t)"

lemma rollup_step:
  "ro_rss (procfs_rollup_cb ps r t) = ro_rss t + rss_kb ps r"
  "ro_swap (procfs_rollup_cb ps r t) = ro_swap t + swap_kb ps r"
  "unaccounted (procfs_rollup_cb ps r t) = unaccounted t"
  by (simp_all add: procfs_rollup_cb_def unaccounted_def clean_kb_def)

lemma rollup_fold:
  "ro_rss (fold (procfs_rollup_cb ps) rs t) = ro_rss t + sum_list (map (rss_kb ps) rs)"
  "ro_swap (fold (procfs_rollup_cb ps) rs t) = ro_swap t + sum_list (map (swap_kb ps) rs)"
  "unaccounted (fold (procfs_rollup_cb ps) rs t) = unaccounted t"
  by (induction rs arbitrary: t) (simp_all add: rollup_step)

section \<open>Properties\<close>

text \<open>
  C32: the walk over the address space, answered by the daemon 32 regions at a time, ends and
  hands every region of the task to the formatter exactly once and in ascending order, however
  many there are.
\<close>

theorem map_walk_every_region:
  assumes "bridge_ready st" "os_law os" "- (2 ^ 31) \<le> pid" "pid < 2 ^ 31" "os_task_for_pid os pid"
    and "os_vm_region os pid = region_at bs" "space_ok bs"
  shows "procfs_map_walk (daemon_ctl os cache st) pid = (0, map (full_region os pid) bs)"
proof -
  have "cut_at [] 0 bs"
    using assms(7) by (auto simp: cut_at_def list_all_iff space_ok_def word_less_nat_alt unat_vb_end)
  then show ?thesis
    using map_walk_loop_regions [of "daemon_ctl os cache st" pid os "[]" bs 0 True, OF daemon_maps [OF assms(1-5)]] assms(6,7)
    by (simp add: procfs_map_walk_def)
qed

definition demo_space :: "vm_basic list" where
  "demo_space = [\<lparr>vb_start = 0x1000, vb_size = 0x2000, vb_offset = 0, vb_protection = 5, vb_max_protection = 7,
       vb_user_wired = 0, vb_shared = 0\<rparr>,
     \<lparr>vb_start = 0x8000, vb_size = 0x1000, vb_offset = 0, vb_protection = 3, vb_max_protection = 3,
       vb_user_wired = 1, vb_shared = 1\<rparr>]"

definition vm_os :: os where
  "vm_os = demo_os\<lparr>os_page_size := 2 ^ 12, os_vm_region := \<lambda>pid. region_at demo_space,
     os_vm_read := \<lambda>pid cur n. if drop_bit 12 cur = 1 then Some (replicate n CHR ''x'') else None,
     os_page_query := \<lambda>pid va. Some 0x009\<rparr>"

lemma vm_os_law: "os_law vm_os"
  using demo_os_law by (simp add: os_law_def vm_os_def)

theorem map_walk_every_region_witness:
  "procfs_map_walk (daemon_ctl vm_os (\<lambda>_. None) ready_state) 1 = (0, map (full_region vm_os 1) demo_space)"
  using map_walk_every_region [OF ready_state_ready vm_os_law, of 1 demo_space]
  by (simp add: vm_os_def demo_os_def demo_space_def space_ok_def)

text \<open>
  C33: reading \<open>mem\<close> through the bridge and the daemon, whatever the page and payload boundaries,
  delivers the bytes of the process from the virtual address in the offset on, as many as asked
  for or up to the first page that is not resident; \<open>EIO\<close> when there is nothing at the first
  address.
\<close>

theorem mem_read_resident:
  assumes "bridge_ready st" "os_law os" "- (2 ^ 31) \<le> nodeid_pid (node_id pnp)" "nodeid_pid (node_id pnp) < 2 ^ 31"
    and "task_memory os (nodeid_pid (node_id pnp)) k res byte"
    and "proc_find (nodeid_pid (node_id pnp)) = Some p" "procfs_check_can_access_process creds p = 0"
    and "uiomove_out_law (kio_move K)" "uiomove_out_nofault (kio_move K)" "uio_rw u = UIO_READ" "0 < uio_resid u"
  shows "procfs_domem K True (daemon_ctl os cache st) proc_find creds pnp u =
    (let d = prefix k res byte (of_int (uio_offset u)) (nat (uio_resid u))
     in Some (if d = [] then EIO else 0, uio_push d u))"
  using domem_loop_prefix [of K "daemon_ctl os cache st" "nodeid_pid (node_id pnp)" k res byte False u,
      OF assms(8,9) daemon_memread [OF assms(1-5)]] assms(6,7,10,11)
  by (simp add: procfs_domem_def)

definition vm_cred :: cred where "vm_cred = \<lparr>cr_uid = 0, cr_gid = 0\<rparr>"

lemma vm_memory: "task_memory vm_os pid 12 (\<lambda>pg. pg = 1) (\<lambda>_. CHR ''x'')"
  by (simp add: task_memory_def vm_os_def demo_os_def map_replicate_const)

theorem mem_read_resident_witness:
  "procfs_domem \<lparr>kio_move = mv_out, kio_beyond = []\<rparr> True (daemon_ctl vm_os (\<lambda>_. None) ready_state)
     (\<lambda>_. Some demo_proc) vm_cred (demo_node False False None)
     \<lparr>uio_rw = UIO_READ, uio_offset = 0x1ffe, uio_resid = 4, uio_user = []\<rparr> =
   Some (0, \<lparr>uio_rw = UIO_READ, uio_offset = 0x2000, uio_resid = 2, uio_user = ''xx''\<rparr>)"
proof -
  let ?u = "\<lparr>uio_rw = UIO_READ, uio_offset = 0x1ffe, uio_resid = 4, uio_user = []\<rparr>"
  have "procfs_domem \<lparr>kio_move = mv_out, kio_beyond = []\<rparr> True (daemon_ctl vm_os (\<lambda>_. None) ready_state)
     (\<lambda>_. Some demo_proc) vm_cred (demo_node False False None) ?u =
     (let d = prefix 12 (\<lambda>pg. pg = 1) (\<lambda>_. CHR ''x'') (of_int (uio_offset ?u)) (nat (uio_resid ?u))
      in Some (if d = [] then EIO else 0, uio_push d ?u))"
    by (rule mem_read_resident [OF ready_state_ready vm_os_law _ _ vm_memory refl])
      (simp_all add: demo_req_def procfs_check_can_access_process_def vm_cred_def demo_proc_def)
  moreover have "prefix 12 (\<lambda>pg. pg = 1) (\<lambda>_. CHR ''x'') 0x1ffe 4 = ''xx''" by code_simp
  ultimately show ?thesis by (simp add: uio_push_def)
qed

text \<open>
  C34: the eight bytes at offset \<open>8 * i\<close> of \<open>pagemap\<close> are the entry of page \<open>i\<close>: its bits 63, 62, 61
  and 55 say that the page is present, swapped out, file-backed and dirty as the daemon's query
  of that page reported, all other bits are zero, and the entry of a page below the next region
  is zero.
\<close>

theorem pagemap_entry_of_page:
  assumes "bridge_ready st" "os_law os" "- (2 ^ 31) \<le> nodeid_pid (node_id pnp)" "nodeid_pid (node_id pnp) < 2 ^ 31"
    and "os_task_for_pid os (nodeid_pid (node_id pnp))" "8 * i < 2 ^ 64"
    and "os_vm_region os (nodeid_pid (node_id pnp)) (of_nat i * os_page_size os) = Some bi"
    and "proc_find (nodeid_pid (node_id pnp)) = Some p" "procfs_check_can_access_process creds p = 0"
    and "uiomove_out_law (kio_move K)" "uiomove_out_nofault (kio_move K)" "uio_rw u = UIO_READ"
    and "uio_offset u = 8 * int i" "uio_resid u = 8"
  shows "\<exists>e. procfs_dopagemap K (os_page_size os) True (daemon_ctl os cache st) proc_find creds pnp u =
      Some (0, uio_push (u64_bytes e) u) \<and>
    (\<forall>n. bit e n = (vb_start bi \<le> of_nat i * os_page_size os \<and>
      (case os_page_query os (nodeid_pid (node_id pnp)) (of_nat i * os_page_size os) of None \<Rightarrow> False
       | Some disp \<Rightarrow>
          (n = 63 \<and> disp AND VM_PAGE_QUERY_PAGE_PRESENT \<noteq> 0) \<or> (n = 62 \<and> disp AND VM_PAGE_QUERY_PAGE_PAGED_OUT \<noteq> 0) \<or>
          (n = 61 \<and> disp AND VM_PAGE_QUERY_PAGE_EXTERNAL \<noteq> 0) \<or> (n = 55 \<and> disp AND VM_PAGE_QUERY_PAGE_DIRTY \<noteq> 0))))"
proof -
  let ?pid = "nodeid_pid (node_id pnp)" and ?va = "of_nat i * os_page_size os"
  let ?f = "\<lambda>j. pagemap_entry os ?pid (vb_start bi) (?va + of_nat j * os_page_size os)"
  let ?d = "concat (map (\<lambda>j. u64_bytes (?f j)) [0..<256])"
  let ?e = "pagemap_entry os ?pid (vb_start bi) ?va"
  have reply: "daemon_ctl os cache st REQ_PAGEMAP ?pid ?va [] PROCFS_CTL_MAXPAYLOAD = Inr ?d"
    by (rule daemon_pagemap [OF assms(1-5,7)])
  have len: "length ?d = 2048" by (simp add: length_concat_map [where n = 8] del: upt_Suc)
  have "take 8 ?d = u64_bytes (?f 0)" by (rule take_concat_u64) simp
  then have move: "kio_move K ?d 8 u = (0, uio_push (u64_bytes ?e) u)"
    using uiomove_outD [OF assms(10,11), of ?d 8 u] assms(14) by (simp add: move_len_def)
  have "dopagemap_loop K (os_page_size os) (daemon_ctl os cache st) ?pid True (uio_push (u64_bytes ?e) u) =
      Some (0, uio_push (u64_bytes ?e) u)"
    by (subst dopagemap_loop.simps) (simp add: assms(14))
  then have "dopagemap_loop K (os_page_size os) (daemon_ctl os cache st) ?pid False u = Some (0, uio_push (u64_bytes ?e) u)"
    using assms(13,14) pagemap_offset [OF assms(6)] reply move len
    by (subst dopagemap_loop.simps) (simp add: Let_def del: upt_Suc of_int_mult)
  moreover have "bit ?e n = (vb_start bi \<le> ?va \<and> (case os_page_query os ?pid ?va of None \<Rightarrow> False
       | Some disp \<Rightarrow>
          (n = 63 \<and> disp AND VM_PAGE_QUERY_PAGE_PRESENT \<noteq> 0) \<or> (n = 62 \<and> disp AND VM_PAGE_QUERY_PAGE_PAGED_OUT \<noteq> 0) \<or>
          (n = 61 \<and> disp AND VM_PAGE_QUERY_PAGE_EXTERNAL \<noteq> 0) \<or> (n = 55 \<and> disp AND VM_PAGE_QUERY_PAGE_DIRTY \<noteq> 0)))" for n
    by (auto simp: pagemap_entry_def bit_pagemap_bits split: option.splits)
  ultimately show ?thesis using assms(8,9,12) by (auto simp: procfs_dopagemap_def)
qed


theorem pagemap_entry_of_page_witness:
  "\<exists>e. procfs_dopagemap \<lparr>kio_move = mv_out, kio_beyond = []\<rparr> (os_page_size vm_os) True
      (daemon_ctl vm_os (\<lambda>_. None) ready_state) (\<lambda>_. Some demo_proc) vm_cred (demo_node False False None)
      \<lparr>uio_rw = UIO_READ, uio_offset = 8, uio_resid = 8, uio_user = []\<rparr> =
    Some (0, uio_push (u64_bytes e) \<lparr>uio_rw = UIO_READ, uio_offset = 8, uio_resid = 8, uio_user = []\<rparr>) \<and>
    bit e 63 \<and> bit e 55 \<and> \<not> bit e 62"
proof -
  have pid: "- (2 ^ 31) \<le> nodeid_pid (node_id (demo_node False False None))"
    "nodeid_pid (node_id (demo_node False False None)) < 2 ^ 31"
    "os_task_for_pid vm_os (nodeid_pid (node_id (demo_node False False None)))" "8 * (1 :: nat) < 2 ^ 64"
    by (simp_all add: demo_req_def vm_os_def demo_os_def)
  have r: "os_vm_region vm_os (nodeid_pid (node_id (demo_node False False None))) (of_nat 1 * os_page_size vm_os) =
      Some (hd demo_space)"
    by (simp add: vm_os_def region_at_def demo_space_def vb_end_def)
  have acc: "procfs_check_can_access_process vm_cred demo_proc = 0"
    by (simp add: procfs_check_can_access_process_def vm_cred_def demo_proc_def)
  let ?K = "\<lparr>kio_move = mv_out, kio_beyond = []\<rparr>"
  let ?u = "\<lparr>uio_rw = UIO_READ, uio_offset = 8, uio_resid = 8, uio_user = []\<rparr>"
  have u: "uiomove_out_law (kio_move ?K)" "uiomove_out_nofault (kio_move ?K)" "uio_rw ?u = UIO_READ"
    "uio_offset ?u = 8 * int 1" "uio_resid ?u = 8" by simp_all
  from pagemap_entry_of_page [where proc_find = "\<lambda>_. Some demo_proc" and cache = "\<lambda>_. None",
      OF ready_state_ready vm_os_law pid r refl acc u]
  show ?thesis
    by (auto simp: vm_os_def demo_space_def VM_PAGE_QUERY_PAGE_PRESENT_def VM_PAGE_QUERY_PAGE_DIRTY_def
        VM_PAGE_QUERY_PAGE_PAGED_OUT_def)
qed

end
