(* ===== verification/Note.thy ===== *)
theory Note
  imports Subr
begin

text \<open>
  \<open>kext/procfs_note.c\<close>: the two write-only files of a process. A note written to \<open>note\<close> is
  delivered as a signal; \<open>clear_refs\<close> checks its argument and does nothing. The kernel's
  \<open>uiomove\<close> is the parameter \<open>mv\<close>, the signal handed to \<open>proc_signal\<close> is part of the result.
\<close>

definition PROCFS_NOTELEN :: nat where "PROCFS_NOTELEN = 64"
definition NSIG :: int where "NSIG = 32"

definition strip_newlines :: "bytes \<Rightarrow> bytes" where
  "strip_newlines buf = rev (dropWhile (\<lambda>c. c = NEWLINE) (rev buf))"

text \<open>The note and its length (the bytes before the terminator), or an error.\<close>

definition procfs_getuserstr :: "uiomove_in \<Rightarrow> nat \<Rightarrow> uio \<Rightarrow> bytes res \<times> uio" where
  "procfs_getuserstr mv buflen u =
     (let xlen = uio_resid u in
      if int buflen < xlen then (Inl EMSGSIZE, u)
      else (case mv xlen u of (error, buf, u') \<Rightarrow>
        if error \<noteq> 0 then (Inl error, u') else (Inr (strip_newlines buf), u')))"

definition note_table :: "(cstring \<times> int) list" where
  "note_table = [(''hup'', 1), (''hangup'', 1), (''int'', 2), (''interrupt'', 2), (''quit'', 3), (''kill'', 9),
     (''term'', 15), (''terminate'', 15), (''stop'', 17), (''cont'', 19), (''usr1'', 30), (''usr2'', 31)]"

fun note_number :: "int \<Rightarrow> cstring \<Rightarrow> int" where
  "note_number sig [] = (if 1 \<le> sig then sig else - 1)"
| "note_number sig (c # cs) =
     (if \<not> is_digit c then - 1
      else let sig' = sig * 10 + int (digit_val c) in if NSIG \<le> sig' then - 1 else note_number sig' cs)"

definition procfs_note_to_signal :: "cstring \<Rightarrow> int" where
  "procfs_note_to_signal note =
     (if note \<noteq> [] \<and> is_digit (hd note) then note_number 0 note
      else (case map_of note_table note of None \<Rightarrow> - 1 | Some sig \<Rightarrow> sig))"

definition procfs_donote :: "uiomove_in \<Rightarrow> pfsnode \<Rightarrow> uio \<Rightarrow> errno \<times> uio \<times> (int \<times> int) option" where
  "procfs_donote mv pnp u =
     (if uio_rw u \<noteq> UIO_WRITE then (EINVAL, u, None)
      else (case procfs_getuserstr mv PROCFS_NOTELEN u of
          (Inl error, u') \<Rightarrow> (error, u', None)
        | (Inr buf, u') \<Rightarrow>
            let sig = procfs_note_to_signal (takeWhile (\<lambda>c. c \<noteq> NUL) buf) in
            if sig < 0 then (EINVAL, u', None)
            else (0, u', Some (nodeid_pid (node_id pnp), sig))))"

definition procfs_doclear_refs :: "uiomove_in \<Rightarrow> uio \<Rightarrow> errno \<times> uio" where
  "procfs_doclear_refs mv u =
     (if uio_rw u \<noteq> UIO_WRITE then (EINVAL, u)
      else (case procfs_getuserstr mv PROCFS_NOTELEN u of
          (Inl error, u') \<Rightarrow> (error, u')
        | (Inr buf, u') \<Rightarrow>
            if length buf \<noteq> 1 \<or> (of_char (hd buf) :: nat) < 49 \<or> 52 < (of_char (hd buf) :: nat) then (EINVAL, u')
            else (0, u')))"

section \<open>Lemmas\<close>

lemma note_number_range: "0 \<le> sig \<Longrightarrow> sig < NSIG \<Longrightarrow> note_number sig cs = - 1 \<or> (1 \<le> note_number sig cs \<and> note_number sig cs < NSIG)"
proof (induction sig cs rule: note_number.induct)
  case (2 sig c cs)
  then show ?case by (auto simp: Let_def)
qed simp

lemma note_table_range: "map_of note_table note = Some sig \<Longrightarrow> 1 \<le> sig \<and> sig < NSIG"
  by (drule map_of_SomeD) (auto simp: note_table_def NSIG_def)

lemma note_to_signal_range:
  "procfs_note_to_signal note = - 1 \<or> (1 \<le> procfs_note_to_signal note \<and> procfs_note_to_signal note < NSIG)"
  using note_number_range [of 0 "note"] note_table_range [of "note"]
  by (auto simp: procfs_note_to_signal_def NSIG_def split: option.splits)

lemma note_number_digits:
  assumes "\<And>c. c \<in> set s \<Longrightarrow> is_digit c" "int (digits_value v s) < NSIG"
  shows "note_number (int v) s = (if 1 \<le> digits_value v s then int (digits_value v s) else - 1)"
  using assms
proof (induction s arbitrary: v)
  case Nil
  then show ?case by (simp add: digits_value_def)
next
  case (Cons c s)
  let ?w = "v * 10 + digit_val c"
  have dv: "digits_value v (c # s) = digits_value ?w s" by (simp add: digits_value_def)
  moreover have "int ?w < NSIG" using Cons.prems(2) digits_value_mono [of ?w s] dv by linarith
  ultimately show ?case using Cons.IH [of ?w] Cons.prems by (auto simp: Let_def)
qed

lemma strip_newlines_append:
  assumes "s = [] \<or> last s \<noteq> NEWLINE"
  shows "strip_newlines (s @ replicate k NEWLINE) = s"
proof -
  have "dropWhile (\<lambda>c. c = NEWLINE) (rev s) = rev s"
    using assms by (cases "rev s") (auto simp: last_rev [symmetric])
  then show ?thesis by (simp add: strip_newlines_def dropWhile_append)
qed

lemma digit_not [simp]: "is_digit c \<Longrightarrow> c \<noteq> NEWLINE" "is_digit c \<Longrightarrow> c \<noteq> NUL"
  by (auto simp: is_digit_def)

section \<open>Properties\<close>

text \<open>
  C30: whatever is written to \<open>note\<close> and however the copy from the user ends, at most one signal
  is posted, exactly when the write succeeds, to the process of the node and with a valid
  number between 1 and 31.
\<close>

theorem donote_posts_valid_signal:
  "case procfs_donote mv pnp u of (e, u', post) \<Rightarrow> (post = None) = (e \<noteq> 0) \<and>
     (case post of None \<Rightarrow> True | Some (pid, sig) \<Rightarrow> pid = nodeid_pid (node_id pnp) \<and> 1 \<le> sig \<and> sig < NSIG)"
proof -
  have "1 \<le> procfs_note_to_signal n \<and> procfs_note_to_signal n < NSIG" if "\<not> procfs_note_to_signal n < 0" for n
    using note_to_signal_range [of n] that by auto
  then show ?thesis
    by (auto simp: procfs_donote_def procfs_getuserstr_def Let_def split: prod.splits sum.splits if_splits)
qed

text \<open>
  C31: a signal number printed in decimal, followed by any newlines, is delivered as that signal,
  and the whole text is consumed.
\<close>

theorem note_number_delivered:
  assumes "uiomove_in_law mv" "uiomove_in_nofault mv" "uio_rw u = UIO_WRITE"
    and "1 \<le> s" "s < 32" "uio_user u = dec s @ replicate k NEWLINE" "uio_resid u = int (length (uio_user u))"
    and "uio_resid u \<le> int PROCFS_NOTELEN"
  shows "procfs_donote mv pnp u = (0, uio_pull (length (uio_user u)) u, Some (nodeid_pid (node_id pnp), int s))"
proof -
  let ?n = "length (uio_user u)"
  have mv: "mv (uio_resid u) u = (0, uio_user u, uio_pull ?n u)"
    using uiomove_inD [OF assms(1,2)] assms(7) by (simp add: move_len_def)
  have dig: "is_digit c" if "c \<in> set (dec s)" for c using that dec_digits by blast
  have cut: "takeWhile (\<lambda>c. c \<noteq> NUL) (dec s) = dec s" using dig by (auto simp: takeWhile_eq_all_conv)
  have "strip_newlines (uio_user u) = dec s"
    unfolding assms(6) using dig [OF last_in_set] by (intro strip_newlines_append) auto
  moreover have "note_number 0 (dec s) = int s"
    using note_number_digits [of "dec s" 0] dig assms(4,5) by (simp add: digits_value_dec NSIG_def)
  moreover have "is_digit (hd (dec s))" using dig by simp
  ultimately show ?thesis
    using mv assms(3,5,8) by (simp add: procfs_donote_def procfs_getuserstr_def procfs_note_to_signal_def Let_def cut)
qed

theorem note_number_delivered_witness:
  "procfs_donote mv_in (demo_node False False None)
     \<lparr>uio_rw = UIO_WRITE, uio_offset = 0, uio_resid = 3, uio_user = dec 15 @ [NEWLINE]\<rparr> =
   (0, \<lparr>uio_rw = UIO_WRITE, uio_offset = 3, uio_resid = 0, uio_user = []\<rparr>,
    Some (nodeid_pid (node_id (demo_node False False None)), 15))"
proof -
  have "length (dec 15) = 2" by (simp add: dec.simps)
  then show ?thesis
    using note_number_delivered [of mv_in "\<lparr>uio_rw = UIO_WRITE, uio_offset = 0, uio_resid = 3,
        uio_user = dec 15 @ [NEWLINE]\<rparr>" 15 1 "demo_node False False None"]
    by (simp add: uio_pull_def PROCFS_NOTELEN_def)
qed

end
