(* ===== verification/Status.thy ===== *)
theory Status
  imports Procargs MapMem Note
begin

text \<open>
  The small per-process files: \<open>kext/procfs_status.c\<close> (ids, tty, status, task and thread
  information, and the sizes of nodes), \<open>kext/procfs_fd.c\<close> (descriptors and the exe, cwd and root
  links), \<open>kext/procfs_limit.c\<close>, \<open>kext/procfs_regs.c\<close>, \<open>kext/procfs_fpregs.c\<close> and
  \<open>kext/procfs_extensions.c\<close>. Where Linux mode renders a node differently, the renderer is the
  parameter \<open>linux\<close>, \<^const>\<open>None\<close> in native mode.
\<close>

section \<open>Ids\<close>

definition copy_int :: "kio \<Rightarrow> int \<Rightarrow> uio \<Rightarrow> errno \<times> uio" where
  \<comment> \<open>an \<open>int\<close> as its four bytes\<close>
  "copy_int K i u = copy_out K (int32_bytes i) u"

definition procfs_dopid :: "kio \<Rightarrow> pfsnode \<Rightarrow> uio \<Rightarrow> errno \<times> uio" where
  "procfs_dopid K pnp u = copy_int K (nodeid_pid (node_id pnp)) u"

definition procfs_doppid :: "kio \<Rightarrow> proc_table \<Rightarrow> pfsnode \<Rightarrow> uio \<Rightarrow> errno \<times> uio" where
  "procfs_doppid K proc_find pnp u = (case proc_find (nodeid_pid (node_id pnp)) of
     Some p \<Rightarrow> copy_int K (kp_ppid p) u | None \<Rightarrow> (ESRCH, u))"

definition procfs_dopgid :: "kio \<Rightarrow> proc_table \<Rightarrow> pfsnode \<Rightarrow> uio \<Rightarrow> errno \<times> uio" where
  "procfs_dopgid K proc_find pnp u = (case proc_find (nodeid_pid (node_id pnp)) of
     Some p \<Rightarrow> copy_int K (kp_pgrpid p) u | None \<Rightarrow> (ESRCH, u))"

definition procfs_dosid :: "kio \<Rightarrow> proc_table \<Rightarrow> pfsnode \<Rightarrow> uio \<Rightarrow> errno \<times> uio" where
  "procfs_dosid K proc_find pnp u = (case proc_find (nodeid_pid (node_id pnp)) of
     Some p \<Rightarrow> copy_int K (kp_sessionid p) u | None \<Rightarrow> (ESRCH, u))"

definition MAXPATHLEN :: nat where "MAXPATHLEN = 1024"

definition procfs_dotty :: "kio \<Rightarrow> ctl_oracle \<Rightarrow> pfsnode \<Rightarrow> uio \<Rightarrow> errno \<times> uio" where
  "procfs_dotty K ctl pnp u = (case ctl REQ_TTY (nodeid_pid (node_id pnp)) 0 [] MAXPATHLEN of
     Inl rc \<Rightarrow> (if rc = ESRCH then ESRCH else ENOTSUP, u)
   | Inr path \<Rightarrow> copy_out K path u)"

section \<open>Process, task and thread information\<close>

definition sizeof_bsdshortinfo :: nat where "sizeof_bsdshortinfo = 64"
definition sizeof_taskinfo :: nat where "sizeof_taskinfo = 96"
definition sizeof_threadinfo :: nat where "sizeof_threadinfo = 112"

definition procfs_dostatus :: "kio \<Rightarrow> ctl_oracle \<Rightarrow> (uio \<Rightarrow> errno \<times> uio) option \<Rightarrow> pfsnode \<Rightarrow> uio \<Rightarrow> errno \<times> uio" where
  "procfs_dostatus K ctl linux pnp u = (case linux of Some f \<Rightarrow> f u
     | None \<Rightarrow> (case ctl REQ_SHORTBSDINFO (nodeid_pid (node_id pnp)) 0 [] sizeof_bsdshortinfo of
         Inl error \<Rightarrow> (error, u)
       | Inr info \<Rightarrow> if length info \<noteq> sizeof_bsdshortinfo then (ESRCH, u) else copy_out K info u))"

text \<open>
  Without a daemon the record of the kernel's own \<open>proc_pidtaskinfo\<close> is completed: the sizes at
  offsets 0 and 8, the policy at 48 and the number of threads at 84.
\<close>

definition put :: "nat \<Rightarrow> bytes \<Rightarrow> bytes \<Rightarrow> bytes" where
  "put off d bs = take off bs @ d @ drop (off + length d) bs"

definition complete_taskinfo :: "errno \<times> u64 \<times> u64 \<Rightarrow> nat \<Rightarrow> bytes \<Rightarrow> bytes" where
  "complete_taskinfo sizes tcount info =
     (let i1 = (case sizes of (e, vsize, rsize) \<Rightarrow>
                  if e = 0 then put 8 (u64_bytes rsize) (put 0 (u64_bytes vsize) info) else info);
          i2 = (if 0 < tcount then put 84 (int32_bytes (int tcount)) i1 else i1)
      in if le_int32 (drop 48 i2) = 0 then put 48 (int32_bytes 1) i2 else i2)"

record task_env =
  te_pidtaskinfo :: "kproc \<Rightarrow> bytes res"
  te_pidthreadinfo :: "kproc \<Rightarrow> u64 \<Rightarrow> bytes res"
  te_page_size :: u64
  te_alloc :: "bool \<times> bool"

definition task_thread_count :: "task_env \<Rightarrow> ctl_oracle \<Rightarrow> kproc \<Rightarrow> nat" where
  "task_thread_count T ctl p = procfs_get_task_thread_count (fst (te_alloc T)) (snd (te_alloc T)) ctl (Some p)"

definition procfs_dotaskinfo :: "kio \<Rightarrow> task_env \<Rightarrow> ctl_oracle \<Rightarrow> proc_table \<Rightarrow> pfsnode \<Rightarrow> uio \<Rightarrow> errno \<times> uio" where
  "procfs_dotaskinfo K T ctl proc_find pnp u = (case proc_find (nodeid_pid (node_id pnp)) of
     None \<Rightarrow> (0, u)
   | Some p \<Rightarrow>
       let fallback = (case te_pidtaskinfo T p of Inl _ \<Rightarrow> (ESRCH, u)
             | Inr info \<Rightarrow> copy_out K (complete_taskinfo (procfs_task_vm_sizes (te_page_size T) ctl p)
                 (task_thread_count T ctl p) info) u)
       in (case ctl REQ_TASKINFO (nodeid_pid (node_id pnp)) 0 [] sizeof_taskinfo of
             Inr info \<Rightarrow> if length info = sizeof_taskinfo then copy_out K info u else fallback
           | Inl _ \<Rightarrow> fallback))"

definition procfs_dothreadinfo :: "kio \<Rightarrow> task_env \<Rightarrow> ctl_oracle \<Rightarrow> proc_table \<Rightarrow> pfsnode \<Rightarrow> uio \<Rightarrow> errno \<times> uio" where
  "procfs_dothreadinfo K T ctl proc_find pnp u = (case proc_find (nodeid_pid (node_id pnp)) of
     None \<Rightarrow> (0, u)
   | Some p \<Rightarrow>
       let threadid = nodeid_objectid (node_id pnp);
           fallback = (case te_pidthreadinfo T p threadid of Inl _ \<Rightarrow> (ESRCH, u) | Inr info \<Rightarrow> copy_out K info u)
       in (case ctl REQ_THREADINFO (nodeid_pid (node_id pnp)) threadid [] sizeof_threadinfo of
             Inr info \<Rightarrow> if length info = sizeof_threadinfo then copy_out K info u else fallback
           | Inl _ \<Rightarrow> fallback))"

section \<open>Sizes of nodes\<close>

text \<open>Sizes are of type \<open>size_t\<close>; \<open>sizeof(procfs_get_process_count(creds))\<close> is the size of an \<open>int\<close>.\<close>

definition procfs_process_node_size :: "proc_table \<Rightarrow> pfsnode \<Rightarrow> nat" where
  "procfs_process_node_size proc_find pnp = (case proc_find (nodeid_pid (node_id pnp)) of None \<Rightarrow> 0 | Some p \<Rightarrow> 4)"

definition procfs_thread_node_size :: "task_env \<Rightarrow> ctl_oracle \<Rightarrow> proc_table \<Rightarrow> pfsnode \<Rightarrow> nat" where
  "procfs_thread_node_size T ctl proc_find pnp = (case proc_find (nodeid_pid (node_id pnp)) of None \<Rightarrow> 0
     | Some p \<Rightarrow> let tcount = task_thread_count T ctl p in if 0 < tcount then tcount else 1)"

definition procfs_fd_node_size :: "task_env \<Rightarrow> ctl_oracle \<Rightarrow> proc_table \<Rightarrow> pfsnode \<Rightarrow> nat" where
  "procfs_fd_node_size T ctl proc_find pnp = (case proc_find (nodeid_pid (node_id pnp)) of None \<Rightarrow> 0
     | Some p \<Rightarrow> (case procfs_get_fd_list (fst (te_alloc T)) ctl (Some p) of Inl _ \<Rightarrow> 0 | Inr fds \<Rightarrow> length fds))"

definition node_size_fn :: "task_env \<Rightarrow> ctl_oracle \<Rightarrow> proc_table \<Rightarrow> string \<Rightarrow> pfsnode \<Rightarrow> nat" where
  \<comment> \<open>the functions the layout stores in \<open>psn_getsize_fn\<close>\<close>
  "node_size_fn T ctl proc_find f pnp =
     (if f = ''procfs_process_node_size'' then procfs_process_node_size proc_find pnp
      else if f = ''procfs_thread_node_size'' then procfs_thread_node_size T ctl proc_find pnp
      else if f = ''procfs_fd_node_size'' then procfs_fd_node_size T ctl proc_find pnp
      else 0)"

definition size_snode :: "pfssnode list \<Rightarrow> pfsnode \<Rightarrow> sptr" where
  \<comment> \<open>the structure node whose size is reported: one up for \<open>.\<close>, two for \<open>..\<close> below the root\<close>
  "size_snode h pnp =
     (let s = node_structure_node pnp; ty = psn_node_type (h ! s);
          up = (\<lambda>s. case psn_parent (h ! s) of None \<Rightarrow> s | Some q \<Rightarrow> q)
      in if ty = PFSdirthis then up s
         else if ty = PFSdirparent then
           (if psn_node_type (h ! up s) \<noteq> PFSroot then up (up s) else up s)
         else s)"

definition procfs_get_node_size_attr :: "task_env \<Rightarrow> ctl_oracle \<Rightarrow> proc_table \<Rightarrow> pfssnode list \<Rightarrow> pfsnode \<Rightarrow> nat" where
  "procfs_get_node_size_attr T ctl proc_find h pnp =
     (let snode = h ! size_snode h pnp in
      if procfs_is_directory_type (psn_node_type (h ! node_structure_node pnp)) then
        sum_list (map (\<lambda>c. case psn_getsize_fn (h ! c) of None \<Rightarrow> 1 | Some f \<Rightarrow> node_size_fn T ctl proc_find f pnp)
          (psn_children snode))
      else (case psn_getsize_fn snode of None \<Rightarrow> psn_node_size snode | Some f \<Rightarrow> node_size_fn T ctl proc_find f pnp))"

section \<open>Descriptors and links\<close>

definition sizeof_fdinfowithpath :: nat where "sizeof_fdinfowithpath = 1200"
definition sizeof_socket_fdinfo :: nat where "sizeof_socket_fdinfo = 792"

definition objectid_fd :: "pfsnode \<Rightarrow> u64" where
  \<comment> \<open>the object id converted to an \<open>int\<close> and back\<close>
  "objectid_fd pnp = scast (ucast (nodeid_objectid (node_id pnp)) :: u32)"

definition procfs_dofd :: "kio \<Rightarrow> ctl_oracle \<Rightarrow> pfsnode \<Rightarrow> uio \<Rightarrow> errno \<times> uio" where
  "procfs_dofd K ctl pnp u =
     (case ctl REQ_FDINFO (nodeid_pid (node_id pnp)) (objectid_fd pnp) [] sizeof_fdinfowithpath of
        Inl error \<Rightarrow> (error, u)
      | Inr info \<Rightarrow> if length info \<noteq> sizeof_fdinfowithpath then (EIO, u) else copy_out K info u)"

definition procfs_dosocket :: "kio \<Rightarrow> ctl_oracle \<Rightarrow> pfsnode \<Rightarrow> uio \<Rightarrow> errno \<times> uio" where
  "procfs_dosocket K ctl pnp u =
     (case ctl REQ_FDSOCKET (nodeid_pid (node_id pnp)) (objectid_fd pnp) [] sizeof_socket_fdinfo of
        Inl error \<Rightarrow> (error, u)
      | Inr info \<Rightarrow> if length info \<noteq> sizeof_socket_fdinfo then (EIO, u) else copy_out K info u)"

text \<open>\<open>vnode_get\<close> and \<open>vn_getpath\<close> are parameters; the latter is given the size of the buffer.\<close>

definition procfs_proclink_path :: "(nat \<Rightarrow> bool) \<Rightarrow> (nat \<Rightarrow> nat \<Rightarrow> cstring option) \<Rightarrow> proc_table \<Rightarrow>
    int \<Rightarrow> cstring \<Rightarrow> nat \<Rightarrow> cstring res" where
  "procfs_proclink_path vnode_get vn_getpath proc_find pid name buflen = (case proc_find pid of None \<Rightarrow> Inl ESRCH
     | Some p \<Rightarrow>
         let is_root = (name = ''root'');
             vp = (if name = ''exe'' then kp_textvp p else if name = ''cwd'' then kp_cdir p
                   else if name = ''root'' then kp_rdir p else None);
             other = (if is_root then Inr (strlcpy ''/'' buflen) else Inl ENOENT)
         in (case vp of None \<Rightarrow> other
             | Some v \<Rightarrow> if vnode_get v
                 then (case vn_getpath v buflen of Some path \<Rightarrow> Inr path | None \<Rightarrow> Inl ENOENT)
                 else other))"

section \<open>Resource limits\<close>

definition RLIM_NLIMITS :: nat where "RLIM_NLIMITS = 9"
definition RLIM_INFINITY :: u64 where "RLIM_INFINITY = 2 ^ 63 - 1"

definition rlimit_ident :: "cstring list" where
  "rlimit_ident = [''cpu'', ''fsize'', ''data'', ''stack'', ''core'', ''rss'', ''memlock'', ''nproc'', ''nofile'']"

definition limit_value :: "u64 \<Rightarrow> string" where
  "limit_value v = (if v = RLIM_INFINITY then ''-1'' else dec (unat v))"

definition limit_text :: "(u64 \<times> u64) list \<Rightarrow> string" where
  "limit_text rl = concat (map (\<lambda>i. rlimit_ident ! i @ '' '' @ limit_value (fst (rl ! i)) @ '' '' @
     limit_value (snd (rl ! i)) @ [NEWLINE]) [0..<RLIM_NLIMITS])"

text \<open>A fixed buffer that overflows reports the length -1.\<close>

definition copy_sbuf_fixed :: "kio \<Rightarrow> nat \<Rightarrow> string \<Rightarrow> uio \<Rightarrow> errno \<times> uio" where
  "copy_sbuf_fixed K sz s u = (if length s < sz then copy_out K s u
     else procfs_copy_data K (Some (take (sz - 1) s)) (- 1) u)"

definition procfs_dolimit :: "kio \<Rightarrow> bool \<Rightarrow> proc_table \<Rightarrow> pfsnode \<Rightarrow> uio \<Rightarrow> errno \<times> uio" where
  "procfs_dolimit K sbuf_ok proc_find pnp u = (case proc_find (nodeid_pid (node_id pnp)) of None \<Rightarrow> (ESRCH, u)
     | Some p \<Rightarrow> (case kp_limit p of None \<Rightarrow> (EIO, u)
         | Some rl \<Rightarrow> if \<not> sbuf_ok then (ENOMEM, u) else copy_sbuf_fixed K 1024 (limit_text rl) u))"

section \<open>Registers\<close>

definition regs_node :: "u32 \<Rightarrow> nat \<Rightarrow> kio \<Rightarrow> ctl_oracle \<Rightarrow> proc_table \<Rightarrow> (uio \<Rightarrow> errno \<times> uio) option \<Rightarrow>
    pfsnode \<Rightarrow> uio \<Rightarrow> errno \<times> uio" where
  "regs_node req cnt K ctl proc_find linux pnp u =
     (if uio_rw u \<noteq> UIO_READ then (EOPNOTSUPP, u)
      else (case linux of Some f \<Rightarrow> f u
        | None \<Rightarrow> (case proc_find (nodeid_pid (node_id pnp)) of None \<Rightarrow> (ESRCH, u)
            | Some p \<Rightarrow>
                if no_user_stack p then (ESRCH, u)
                else (case ctl req (nodeid_pid (node_id pnp)) 0 [] (cnt * 4) of
                    Inl rc \<Rightarrow> (if rc = ENOTCONN then ENOTSUP else rc, u)
                  | Inr state \<Rightarrow> copy_out K state u))))"

definition procfs_doregs :: "kio \<Rightarrow> ctl_oracle \<Rightarrow> proc_table \<Rightarrow> (uio \<Rightarrow> errno \<times> uio) option \<Rightarrow> pfsnode \<Rightarrow> uio \<Rightarrow> errno \<times> uio" where
  "procfs_doregs = regs_node REQ_REGS ARM_THREAD_STATE64_COUNT"

definition procfs_dofpregs :: "kio \<Rightarrow> ctl_oracle \<Rightarrow> proc_table \<Rightarrow> (uio \<Rightarrow> errno \<times> uio) option \<Rightarrow> pfsnode \<Rightarrow> uio \<Rightarrow> errno \<times> uio" where
  "procfs_dofpregs = regs_node REQ_FPREGS ARM_NEON_STATE64_COUNT"

section \<open>Extensions\<close>

definition REQ_EXTENSIONS :: u32 where "REQ_EXTENSIONS = 8"

definition procfs_dokextlist :: "kio \<Rightarrow> bool \<Rightarrow> ctl_oracle \<Rightarrow> u32 \<Rightarrow> uio \<Rightarrow> (errno \<times> uio) option" where
  "procfs_dokextlist K sbuf_ok ctl type u =
     (if \<not> sbuf_ok then Some (0, u)
      else (case procfs_ctl_request_blob ctl type [] of None \<Rightarrow> None
        | Some (error, text) \<Rightarrow>
            Some (if error \<noteq> 0 then (if error = ENOTCONN then 0 else error, u) else copy_out K text u)))"

definition procfs_doextensions :: "kio \<Rightarrow> bool \<Rightarrow> ctl_oracle \<Rightarrow> uio \<Rightarrow> (errno \<times> uio) option" where
  "procfs_doextensions K sbuf_ok ctl u = procfs_dokextlist K sbuf_ok ctl REQ_EXTENSIONS u"

section \<open>Lemmas\<close>

lemma length_limit_value: "length (limit_value v) \<le> 20"
proof -
  have "unat v < 10 ^ 20" using unsigned_less [of v, where 'a = nat] by simp
  then show ?thesis using dec_length_le [of "unat v" 20] by (simp add: limit_value_def)
qed

lemma length_limit_text: "length (limit_text rl) < 1024"
proof -
  have ident: "length (rlimit_ident ! i) \<le> 7" if "i < 9" for i
    using that by (auto simp: rlimit_ident_def less_Suc_eq numeral_eq_Suc)
  have "length (rlimit_ident ! i @ '' '' @ limit_value (fst (rl ! i)) @ '' '' @ limit_value (snd (rl ! i)) @ [NEWLINE]) \<le> 50"
    if "i < 9" for i
    using ident [OF that] length_limit_value [of "fst (rl ! i)"] length_limit_value [of "snd (rl ! i)"] by simp
  then have "sum_list (map (\<lambda>i. length (rlimit_ident ! i @ '' '' @ limit_value (fst (rl ! i)) @ '' '' @
      limit_value (snd (rl ! i)) @ [NEWLINE])) [0..<9]) \<le> sum_list (map (\<lambda>i. 50) [0..<9 :: nat])"
    by (intro sum_list_mono) auto
  also have "\<dots> = 450" by (simp add: sum_list_triv)
  finally show ?thesis by (simp add: limit_text_def RLIM_NLIMITS_def length_concat comp_def)
qed

text \<open>A fixed record of the daemon reaches the kext whole.\<close>

lemma daemon_record:
  assumes "bridge_ready st" "os_law os" "- (2 ^ 31) \<le> pid" "pid < 2 ^ 31"
    and "fst (procfsd_dispatch os (mk_req (next_seq (ctl_seq st)) ty pid arg []) cache) = Inr d" "length d \<le> cap"
  shows "daemon_ctl os cache st ty pid arg [] cap = Inr d"
  using assms(5,6) by (subst daemon_answers [OF assms(1-4)]) simp_all

section \<open>Properties\<close>

text \<open>
  Reading \<open>limit\<close> never runs out of its fixed buffer: for every table of limits and every
  offset in the text the reader gets the text of all nine limits from there on, as much as asked
  for.
\<close>

lemma limit_never_truncated:
  assumes "uiomove_out_law (kio_move K)" "uiomove_out_nofault (kio_move K)"
    and "proc_find (nodeid_pid (node_id pnp)) = Some p" "kp_limit p = Some rl"
    and "0 \<le> uio_offset u" "uio_offset u \<le> int (length (limit_text rl))"
  shows "procfs_dolimit K True proc_find pnp u =
    (0, uio_push (take (nat (uio_resid u)) (drop (nat (uio_offset u)) (limit_text rl))) u)"
  using length_limit_text [of rl] copy_out_suffix [OF assms(1,2,5,6)] assms(3,4)
  by (simp add: procfs_dolimit_def copy_sbuf_fixed_def)



end
