(* ===== verification/Rtc.thy ===== *)
theory Rtc
  imports Status
begin

text \<open>
  \<open>/proc/rtc\<close> of \<open>kext/procfs_linux.c\<close>. The kernel has no \<open>gmtime\<close>, so the node converts the
  seconds of the calendar clock to a civil date with a closed formula. The Gregorian calendar is
  stated here day by day and the formula is proved to follow it from the epoch on.
\<close>

section \<open>The node\<close>

text \<open>
  The date of a day since the epoch. The quantities are non-negative and far below the width of
  the source's 64-bit variables.
\<close>

definition civil_date :: "nat \<Rightarrow> nat \<times> nat \<times> nat" where
  "civil_date days =
     (let z = days + 719468;
          era = z div 146097;
          doe = z - era * 146097;
          yoe = (doe - doe div 1460 + doe div 36524 - doe div 146096) div 365;
          year = yoe + era * 400;
          doy = doe - (365 * yoe + yoe div 4 - yoe div 100);
          mp = (5 * doy + 2) div 153;
          day = doy - (153 * mp + 2) div 5 + 1;
          month = (if mp < 10 then mp + 3 else mp - 9)
      in (year + (if month \<le> 2 then 1 else 0), month, day))"

definition TAB :: string where "TAB = [CHR 0x09]"

definition dec0 :: "nat \<Rightarrow> nat \<Rightarrow> string" where
  "dec0 w n = pad_left CHR ''0'' w (dec n)"

fun rtc_text :: "nat \<times> nat \<times> nat \<Rightarrow> nat \<Rightarrow> string" where
  "rtc_text (year, month, day) sod =
     ''rtc_time'' @ TAB @ '': '' @ dec0 2 (sod div 3600) @ '':'' @ dec0 2 (sod mod 3600 div 60) @ '':'' @ dec0 2 (sod mod 60) @ [NEWLINE] @
     ''rtc_date'' @ TAB @ '': '' @ dec0 4 year @ ''-'' @ dec0 2 month @ ''-'' @ dec0 2 day @ [NEWLINE] @
     ''alrm_time'' @ TAB @ '': **:**:**'' @ [NEWLINE] @ ''alrm_date'' @ TAB @ '': ****-**-**'' @ [NEWLINE] @
     ''alarm_IRQ'' @ TAB @ '': no'' @ [NEWLINE] @ ''alrm_pending'' @ TAB @ '': no'' @ [NEWLINE] @
     ''update IRQ enabled'' @ TAB @ '': no'' @ [NEWLINE] @ ''periodic IRQ enabled'' @ TAB @ '': no'' @ [NEWLINE] @
     ''periodic IRQ frequency'' @ TAB @ '': 0'' @ [NEWLINE] @ ''max user IRQ frequency'' @ TAB @ '': 64'' @ [NEWLINE] @
     ''24hr'' @ TAB @ TAB @ '': yes'' @ [NEWLINE] @ ''batt_status'' @ TAB @ '': okay'' @ [NEWLINE]"

definition procfs_dortc :: "kio \<Rightarrow> bool \<Rightarrow> u64 \<Rightarrow> uio \<Rightarrow> errno \<times> uio" where
  \<comment> \<open>the arguments after the first are whether \<open>sbuf_new\<close> succeeds and the calendar clock in seconds\<close>
  "procfs_dortc K sbuf_ok secs u = (if \<not> sbuf_ok then (ENOMEM, u)
     else copy_out K (rtc_text (civil_date (unat secs div 86400)) (unat secs mod 86400)) u)"

section \<open>The Gregorian calendar\<close>

definition leap_year :: "nat \<Rightarrow> bool" where
  "leap_year y \<longleftrightarrow> 4 dvd y \<and> (\<not> 100 dvd y \<or> 400 dvd y)"

definition month_days :: "nat \<Rightarrow> nat \<Rightarrow> nat" where
  "month_days y m = (if m = 2 then if leap_year y then 29 else 28 else if m \<in> {4, 6, 9, 11} then 30 else 31)"

fun next_day :: "nat \<times> nat \<times> nat \<Rightarrow> nat \<times> nat \<times> nat" where
  "next_day (y, m, d) = (if d < month_days y m then (y, m, d + 1)
     else if m < 12 then (y, m + 1, 1) else (y + 1, 1, 1))"

definition year_start :: "nat \<Rightarrow> nat" where
  "year_start y = 365 * y + y div 4 - y div 100"

definition year_len :: "nat \<Rightarrow> nat" where
  "year_len y = (if leap_year (y + 1) then 366 else 365)"

definition scaled :: "nat \<Rightarrow> nat" where
  "scaled doe = doe - doe div 1460 + doe div 36524 - doe div 146096"

lemma scaled_step_aux:
  fixes n p q r :: nat
  assumes "p \<le> n" "r \<le> q" "C \<Longrightarrow> B"
  shows "n - p + q - r + (if A then 0 else 1) \<le>
    Suc n - (if A then Suc p else p) + (if B then Suc q else q) - (if C then Suc r else r)"
  using assms by (cases A; cases B; cases C) auto

lemma scaled_step: "scaled n + (if Suc n mod 1460 = 0 then 0 else 1) \<le> scaled (Suc n)"
proof -
  have "n div 146096 \<le> n div 36524" by (rule div_le_mono2) simp_all
  moreover have "Suc n mod 36524 = 0" if "Suc n mod 146096 = 0"
    by (rule dvd_imp_mod_0, rule dvd_trans [OF _ mod_0_imp_dvd [OF that]]) simp
  ultimately show ?thesis
    unfolding scaled_def div_Suc [of n] by (rule scaled_step_aux [OF div_le_dividend])
qed

lemma scaled_mono: "m \<le> n \<Longrightarrow> scaled m \<le> scaled n"
  by (rule lift_Suc_mono_le [of scaled]) (rule add_leD1 [OF scaled_step])

lemma year_start_digits:
  assumes "q < 25" "s < 4"
  shows "year_start (100 * c + 4 * q + s) = 36524 * c + 1461 * q + 365 * s"
proof -
  have d4: "(100 * c + 4 * q + s) div 4 = 25 * c + q" by (rule div_nat_eqI) (use assms in simp_all)
  have d100: "(100 * c + 4 * q + s) div 100 = c" by (rule div_nat_eqI) (use assms in simp_all)
  show ?thesis unfolding year_start_def d4 d100 by simp
qed

lemma year_digits:
  fixes y :: nat
  assumes "y < 400"
  obtains c q s where "c < 4" "q < 25" "s < 4" "y = 100 * c + 4 * q + s" "q = y mod 100 div 4" "s = y mod 100 mod 4"
proof
  show "y div 100 < 4" using assms by simp
  show "y mod 100 div 4 < 25" by (simp add: less_mult_imp_div_less)
  show "y mod 100 mod 4 < 4" by simp
  have "4 * (y mod 100 div 4) + y mod 100 mod 4 = y mod 100" by (rule mult_div_mod_eq)
  then show "y = 100 * (y div 100) + 4 * (y mod 100 div 4) + y mod 100 mod 4"
    using mult_div_mod_eq [of 100 y] by (simp only: add.assoc)
qed (rule refl)+

lemma scaled_year_start:
  assumes "y < 400"
  shows "scaled (year_start y) = 365 * y" "0 < y \<Longrightarrow> year_start y mod 1460 \<noteq> 0"
proof -
  obtain c q s where cqs: "c < 4" "q < 25" "s < 4" "y = 100 * c + 4 * q + s"
    and qs: "q = y mod 100 div 4" "s = y mod 100 mod 4"
    using year_digits [OF assms] .
  have S: "year_start y = 36524 * c + 1461 * q + 365 * s"
    using year_start_digits [OF cqs(2,3)] cqs(4) by simp
  have d: "year_start y div 1460 = 25 * c + q" unfolding S by (rule div_nat_eqI) (use cqs in simp_all)
  have e: "year_start y div 36524 = c" unfolding S by (rule div_nat_eqI) (use cqs in simp_all)
  have f: "year_start y div 146096 = 0" unfolding S by (rule div_nat_eqI) (use cqs in simp_all)
  show "scaled (year_start y) = 365 * y" unfolding scaled_def d e f unfolding S using cqs by simp
  have "year_start y mod 1460 = 24 * c + q + 365 * s"
    unfolding minus_mult_div_eq_mod [symmetric] d unfolding S by simp
  then show "0 < y \<Longrightarrow> year_start y mod 1460 \<noteq> 0" using cqs by auto
qed

lemma dvd_digit:
  fixes m :: nat
  shows "r < m \<Longrightarrow> m dvd m * k + r \<longleftrightarrow> r = 0"
  by (auto simp: dvd_add_right_iff dest: nat_dvd_not_less)

lemma leap_digits:
  assumes "q < 25" "s < 4"
  shows "leap_year (100 * c + 4 * q + s) \<longleftrightarrow> s = 0 \<and> (q \<noteq> 0 \<or> 4 dvd c)"
proof -
  have "(4 :: nat) dvd 100 * c + 4 * q + s \<longleftrightarrow> s = 0" using dvd_digit [OF assms(2), of "25 * c + q"] by simp
  moreover have "(100 :: nat) dvd 100 * c + 4 * q \<longleftrightarrow> q = 0" using dvd_digit [of "4 * q" 100 c] assms(1) by simp
  moreover have "(400 :: nat) dvd 100 * c \<longleftrightarrow> 4 dvd c" using nat_mult_dvd_cancel_disj [of 100 4 c] by simp
  ultimately show ?thesis unfolding leap_year_def by auto
qed

lemma year_end:
  assumes "y < 400"
  shows "year_start y + year_len y = (if y = 399 then 146097 else year_start (y + 1))"
proof -
  obtain c q s where cqs: "c < 4" "q < 25" "s < 4" "y = 100 * c + 4 * q + s"
    and qs: "q = y mod 100 div 4" "s = y mod 100 mod 4"
    using year_digits [OF assms] .
  have S: "year_start y = 36524 * c + 1461 * q + 365 * s"
    using year_start_digits [OF cqs(2,3)] cqs(4) by simp
  consider "s < 3" | "s = 3" "q < 24" | "s = 3" "q = 24" using cqs(2,3) by linarith
  then show ?thesis
  proof cases
    case 1
    have y: "y + 1 = 100 * c + 4 * q + (s + 1)" using cqs(4) by simp
    have "\<not> leap_year (y + 1)" unfolding y using leap_digits [of q "s + 1" c] cqs(2) 1 by simp
    moreover have "year_start (y + 1) = 36524 * c + 1461 * q + 365 * (s + 1)"
      unfolding y using cqs(2) 1 by (intro year_start_digits) simp_all
    moreover have "y \<noteq> 399" using qs(2) 1 by auto
    ultimately show ?thesis by (simp add: year_len_def S)
  next
    case 2
    have y: "y + 1 = 100 * c + 4 * (q + 1) + 0" using cqs(4) 2 by simp
    have "leap_year (y + 1)" unfolding y using leap_digits [of "q + 1" 0 c] 2 by simp
    moreover have "year_start (y + 1) = 36524 * c + 1461 * (q + 1) + 365 * 0"
      unfolding y using 2 by (intro year_start_digits) simp_all
    moreover have "y \<noteq> 399" using qs(1) 2 by auto
    ultimately show ?thesis by (simp add: year_len_def S 2)
  next
    case 3
    have y: "y + 1 = 100 * (c + 1) + 4 * 0 + 0" using cqs(4) 3 by simp
    have l: "leap_year (y + 1) \<longleftrightarrow> 4 dvd c + 1" unfolding y using leap_digits [of 0 0 "c + 1"] by simp
    have s: "year_start (y + 1) = 36524 * (c + 1) + 1461 * 0 + 365 * 0"
      unfolding y by (intro year_start_digits) simp_all
    show ?thesis
    proof (cases "c = 3")
      case True
      then have "y = 399" using y by simp
      then show ?thesis by (simp add: year_len_def year_start_def leap_year_def)
    next
      case False
      then have "\<not> 4 dvd c + 1" using nat_dvd_not_less [of "c + 1" 4] cqs(1) by simp
      moreover have "y \<noteq> 399" using False y by auto
      ultimately show ?thesis using l s by (simp add: year_len_def S 3)
    qed
  qed
qed

lemma year_of_era:
  assumes "y < 400" "k < year_len y"
  shows "scaled (year_start y + k) div 365 = y"
proof (rule div_nat_eqI)
  show "365 * y \<le> scaled (year_start y + k)"
    using scaled_mono [of "year_start y" "year_start y + k"] scaled_year_start(1) [OF assms(1)] by simp
  show "scaled (year_start y + k) < 365 * Suc y"
  proof (cases "y = 399")
    case True
    then have "year_start y + k \<le> 146096" using year_end [OF assms(1)] assms(2) by simp
    from scaled_mono [OF this] True show ?thesis by (simp add: scaled_def)
  next
    case False
    let ?m = "year_start (y + 1) - 1"
    have "year_start y + k \<le> ?m" and m: "Suc ?m = year_start (y + 1)"
      using year_end [OF assms(1)] assms(2) False by simp_all
    moreover have "scaled ?m + 1 \<le> scaled (Suc ?m)"
      using scaled_step [of ?m] scaled_year_start(2) [of "y + 1"] assms(1) False by (simp only: m) simp
    moreover have "scaled (Suc ?m) = 365 * Suc y"
      using scaled_year_start(1) [of "y + 1"] assms(1) False by (simp only: m) simp
    ultimately show ?thesis using scaled_mono [of "year_start y + k" ?m] by simp
  qed
qed

definition month_len :: "nat \<Rightarrow> nat" where
  "month_len mp = [31, 30, 31, 30, 31, 31, 30, 31, 30, 31, 31, 29] ! mp"

definition month_start :: "nat \<Rightarrow> nat" where
  "month_start mp = (153 * mp + 2) div 5"

lemma mp_cases:
  fixes mp :: nat
  assumes "mp < 12"
  obtains "mp = 0" | "mp = 1" | "mp = 2" | "mp = 3" | "mp = 4" | "mp = 5" | "mp = 6" | "mp = 7" | "mp = 8" | "mp = 9"
    | "mp = 10" | "mp = 11"
  using assms by (auto simp: less_Suc_eq eval_nat_numeral)

lemma month_of_day:
  assumes "mp < 12" "d < month_len mp"
  shows "(5 * (month_start mp + d) + 2) div 153 = mp"
  by (rule mp_cases [OF assms(1)]; rule div_nat_eqI; use assms(2) in \<open>simp add: month_len_def month_start_def\<close>)

lemma month_end:
  assumes "mp < 12"
  shows "month_start mp + month_len mp = (if mp = 11 then 366 else month_start (mp + 1))"
  using assms by (cases rule: mp_cases) (simp_all add: month_len_def month_start_def)

lemma day_digits:
  assumes "k < 366"
  obtains mp d where "mp < 12" "d < month_len mp" "k = month_start mp + d"
proof -
  let ?P = "\<lambda>m. m < 12 \<and> month_start m \<le> k"
  define mp where "mp = (GREATEST m. ?P m)"
  have mp: "?P mp" unfolding mp_def by (rule GreatestI_nat [of _ 0 12]) (auto simp: month_start_def)
  have "k < month_start mp + month_len mp"
  proof (rule ccontr)
    assume k: "\<not> ?thesis"
    then have "mp \<noteq> 11" "month_start (mp + 1) \<le> k" using month_end [of mp] mp assms by (auto split: if_splits)
    then have "?P (mp + 1)" using mp by simp
    then have "mp + 1 \<le> mp" unfolding mp_def by (rule Greatest_le_nat [of _ _ 12]) auto
    then show False by simp
  qed
  with mp show ?thesis by (intro that [of mp "k - month_start mp"]) auto
qed

text \<open>The date of day \<open>k\<close> of the year that begins in March of year \<open>y\<close>.\<close>

definition march_date :: "nat \<Rightarrow> nat \<Rightarrow> nat \<times> nat \<times> nat" where
  "march_date y k = (let mp = (5 * k + 2) div 153; month = (if mp < 10 then mp + 3 else mp - 9)
     in (y + (if month \<le> 2 then 1 else 0), month, k - month_start mp + 1))"

lemma march_date_at:
  assumes "mp < 12" "d < month_len mp"
  shows "march_date y (month_start mp + d) =
    (if mp < 10 then (y, mp + 3, d + 1) else (y + 1, mp - 9, d + 1))"
  unfolding march_date_def month_of_day [OF assms] using assms(1) by (auto simp: Let_def)

lemma leap_era: "leap_year (y + 400 * era) = leap_year y"
proof -
  have "(4 :: nat) dvd 400 * era" "(100 :: nat) dvd 400 * era" "(400 :: nat) dvd 400 * era"
    by (auto intro: dvd_mult2)
  then show ?thesis by (simp add: leap_year_def dvd_add_left_iff)
qed

lemma march_next:
  assumes "k < year_len y"
  shows "next_day (march_date y k) = (if k + 1 < year_len y then march_date y (k + 1) else march_date (y + 1) 0)"
proof -
  have k: "k < 366" using assms by (simp add: year_len_def split: if_splits)
  then obtain mp d where mp: "mp < 12" "d < month_len mp" and kd: "k = month_start mp + d"
    by (rule day_digits)
  have first: "march_date (y + 1) 0 = (y + 1, 3, 1)"
    using march_date_at [of 0 0 "y + 1"] by (simp add: month_len_def month_start_def)
  show ?thesis
  proof (cases "d + 1 < month_len mp")
    case True
    show ?thesis
      using mp(1) march_date_at [OF mp, of y] march_date_at [OF mp(1) True, of y] True assms first
      by (cases rule: mp_cases) (auto simp: kd month_len_def month_start_def year_len_def month_days_def)
  next
    case False
    then have d: "d + 1 = month_len mp" using mp by simp
    show ?thesis
    proof (cases "mp = 11")
      case True
      then show ?thesis using march_date_at [OF mp, of y] d assms first
        by (auto simp: kd month_len_def month_start_def year_len_def month_days_def split: if_splits)
    next
      case False
      have "0 < month_len (mp + 1)"
        using mp(1) False by (cases rule: mp_cases) (simp_all add: month_len_def)
      then have a: "march_date y (month_start (mp + 1) + 0) =
          (if mp + 1 < 10 then (y, mp + 1 + 3, 0 + 1) else (y + 1, mp + 1 - 9, 0 + 1))"
        using False mp(1) by (intro march_date_at) simp_all
      have b: "k + 1 = month_start (mp + 1)" using month_end [OF mp(1)] d False kd by simp
      have c: "k + 1 < year_len y"
        using mp(1) False d by (cases rule: mp_cases) (auto simp: kd month_len_def month_start_def year_len_def)
      show ?thesis
        using mp(1) a b c march_date_at [OF mp, of y] d False
        by (cases rule: mp_cases) (auto simp: kd month_len_def month_days_def)
    qed
  qed
qed

text \<open>Day 719468 before the epoch is the first of March of year 0; an era has 400 years.\<close>

lemma civil_of_march:
  assumes "n + 719468 = era * 146097 + (year_start y + k)" "y < 400" "k < year_len y"
  shows "civil_date n = march_date (y + era * 400) k"
proof -
  have lt: "year_start y + k < 146097"
    using scaled_mono [of 146097 "year_start y + k"] year_of_era [OF assms(2,3)] assms(2)
    by (cases "year_start y + k < 146097") (auto simp: scaled_def)
  have era: "(n + 719468) div 146097 = era" unfolding assms(1) by (rule div_nat_eqI) (use lt in simp_all)
  have doe: "n + 719468 - era * 146097 = year_start y + k" unfolding assms(1) by simp
  have "civil_date n = march_date (scaled (year_start y + k) div 365 + era * 400)
      (year_start y + k - year_start (scaled (year_start y + k) div 365))"
    unfolding civil_date_def march_date_def scaled_def year_start_def month_start_def Let_def
    by (simp only: era doe [unfolded year_start_def])
  then show ?thesis unfolding year_of_era [OF assms(2,3)] by simp
qed

lemma year_exists:
  assumes "doe < 146097"
  obtains y k where "y < 400" "k < year_len y" "doe = year_start y + k"
proof -
  let ?P = "\<lambda>y. y < 400 \<and> year_start y \<le> doe"
  define y where "y = (GREATEST m. ?P m)"
  have y: "?P y" unfolding y_def by (rule GreatestI_nat [of _ 0 400]) (auto simp: year_start_def)
  have "doe < year_start y + year_len y"
  proof (rule ccontr)
    assume "\<not> ?thesis"
    then have "y \<noteq> 399" "year_start (y + 1) \<le> doe" using year_end [of y] y assms by (auto split: if_splits)
    then have "?P (y + 1)" using y by simp
    then have "y + 1 \<le> y" unfolding y_def by (rule Greatest_le_nat [of _ _ 400]) auto
    then show False by simp
  qed
  with y show ?thesis by (intro that [of y "doe - year_start y"]) auto
qed

lemma civil_next: "civil_date (Suc n) = next_day (civil_date n)"
proof -
  define era where "era = (n + 719468) div 146097"
  obtain y k where yk: "y < 400" "k < year_len y" "(n + 719468) mod 146097 = year_start y + k"
    by (rule year_exists [of "(n + 719468) mod 146097"]) auto
  have n: "n + 719468 = era * 146097 + (year_start y + k)"
    unfolding era_def yk(3) [symmetric] by (rule div_mult_mod_eq [symmetric])
  have len: "year_len (y + era * 400) = year_len y"
    using leap_era [of "y + 1" era] by (simp add: year_len_def ac_simps)
  have step: "next_day (civil_date n) = (if k + 1 < year_len y then march_date (y + era * 400) (k + 1)
      else march_date (y + era * 400 + 1) 0)"
    unfolding civil_of_march [OF n yk(1,2)] using march_next [of k "y + era * 400"] yk(2) unfolding len by simp
  have pos: "0 < year_len z" for z by (simp add: year_len_def)
  consider "k + 1 < year_len y" | "k + 1 = year_len y" "y \<noteq> 399" | "k + 1 = year_len y" "y = 399"
    using yk(2) by linarith
  then show ?thesis
  proof cases
    case 1
    then show ?thesis using civil_of_march [of "Suc n" era y "k + 1"] n yk(1) step by simp
  next
    case 2
    then have "Suc n + 719468 = era * 146097 + (year_start (y + 1) + 0)" using n year_end [OF yk(1)] by simp
    from civil_of_march [OF this _ pos] 2 yk(1) step show ?thesis by simp
  next
    case 3
    then have "Suc n + 719468 = (era + 1) * 146097 + (year_start 0 + 0)"
      using n year_end [OF yk(1)] by (simp add: year_start_def)
    from civil_of_march [OF this _ pos] 3 step show ?thesis by simp
  qed
qed

lemma civil_epoch: "civil_date 0 = (1970, 1, 1)"
proof -
  have "civil_date 0 = march_date (369 + 4 * 400) 306"
    by (rule civil_of_march) (simp_all add: year_start_def year_len_def)
  then show ?thesis by (simp add: march_date_def month_start_def)
qed

section \<open>Properties\<close>

text \<open>
  C38: \<open>/proc/rtc\<close> shows the date reached from 1 January 1970 by stepping the Gregorian calendar,
  with its month lengths and leap years, once for every whole day on the clock, and the seconds
  left over as the time of day.
\<close>

theorem rtc_shows_calendar:
  "procfs_dortc K True secs u =
     copy_out K (rtc_text ((next_day ^^ (unat secs div 86400)) (1970, 1, 1)) (unat secs mod 86400)) u"
proof -
  have "civil_date n = (next_day ^^ n) (1970, 1, 1)" for n
    by (induction n) (simp_all only: civil_epoch civil_next funpow.simps comp_apply id_apply)
  then show ?thesis by (simp add: procfs_dortc_def)
qed

end
