(* ===== verification/Listings.thy ===== *)
theory Listings
  imports Rtc
begin

text \<open>
  The system-wide nodes of \<open>kext/procfs_linux.c\<close> that show a listing of the daemon, with or without
  a header of their own, the two symbol tables with their address column hidden from ordinary
  users, and the nodes made of a few machine facts (interrupt counts and affinity, softirqs,
  memory map, power, ELF core header). The properties: a listing node delivers the daemon's
  listing, and an ordinary user sees no kernel address.
\<close>

section \<open>Nodes that show a listing\<close>

definition listing_node :: "kio \<Rightarrow> bool \<Rightarrow> ctl_oracle \<Rightarrow> u32 \<Rightarrow> uio \<Rightarrow> (errno \<times> uio) option" where
  \<comment> \<open>the body these nodes share: without a daemon the node is empty\<close>
  "listing_node K sbuf_ok ctl req u =
     (if \<not> sbuf_ok then Some (ENOMEM, u)
      else (case procfs_ctl_request_blob ctl req [] of None \<Rightarrow> None
        | Some (error, text) \<Rightarrow>
            Some (if error \<noteq> 0 then (if error = ENOTCONN then 0 else error, u) else copy_out K text u)))"

abbreviation REQ_MODULES :: u32 where "REQ_MODULES \<equiv> 9"
abbreviation REQ_DEVICES :: u32 where "REQ_DEVICES \<equiv> 13"
abbreviation REQ_ALLOCINFO :: u32 where "REQ_ALLOCINFO \<equiv> 15"
abbreviation REQ_PCIDEVICES :: u32 where "REQ_PCIDEVICES \<equiv> 17"
abbreviation REQ_FBDEVICES :: u32 where "REQ_FBDEVICES \<equiv> 18"
abbreviation REQ_NFSEXPORTS :: u32 where "REQ_NFSEXPORTS \<equiv> 19"
abbreviation REQ_INTERRUPTS :: u32 where "REQ_INTERRUPTS \<equiv> 20"
abbreviation REQ_TTYDRIVERS :: u32 where "REQ_TTYDRIVERS \<equiv> 21"
abbreviation REQ_VMALLOCINFO :: u32 where "REQ_VMALLOCINFO \<equiv> 29"
abbreviation REQ_SCSI :: u32 where "REQ_SCSI \<equiv> 30"
abbreviation REQ_SYSVIPC_SHM :: u32 where "REQ_SYSVIPC_SHM \<equiv> 31"
abbreviation REQ_SYSVIPC_SEM :: u32 where "REQ_SYSVIPC_SEM \<equiv> 32"
abbreviation REQ_SYSVIPC_MSG :: u32 where "REQ_SYSVIPC_MSG \<equiv> 33"
abbreviation REQ_SLABINFO :: u32 where "REQ_SLABINFO \<equiv> 34"
abbreviation REQ_KMSG :: u32 where "REQ_KMSG \<equiv> 35"
abbreviation REQ_LAST_KMSG :: u32 where "REQ_LAST_KMSG \<equiv> 36"
abbreviation REQ_KSYMS :: u32 where "REQ_KSYMS \<equiv> 37"
abbreviation REQ_KALLSYMS :: u32 where "REQ_KALLSYMS \<equiv> 38"
abbreviation REQ_MISC :: u32 where "REQ_MISC \<equiv> 39"
abbreviation REQ_NETTCP :: u32 where "REQ_NETTCP \<equiv> 43"
abbreviation REQ_NETTCP6 :: u32 where "REQ_NETTCP6 \<equiv> 44"
abbreviation REQ_NETUDP :: u32 where "REQ_NETUDP \<equiv> 45"
abbreviation REQ_NETUDP6 :: u32 where "REQ_NETUDP6 \<equiv> 46"
abbreviation REQ_NETUNIX :: u32 where "REQ_NETUNIX \<equiv> 47"
abbreviation REQ_NETROUTE :: u32 where "REQ_NETROUTE \<equiv> 48"
abbreviation REQ_NETARP :: u32 where "REQ_NETARP \<equiv> 49"
abbreviation REQ_NETNETSTAT :: u32 where "REQ_NETNETSTAT \<equiv> 50"
abbreviation REQ_NETSNMP :: u32 where "REQ_NETSNMP \<equiv> 51"

type_synonym listing_read = "kio \<Rightarrow> bool \<Rightarrow> ctl_oracle \<Rightarrow> uio \<Rightarrow> (errno \<times> uio) option"

definition procfs_domodules :: listing_read where
  "procfs_domodules K sbuf_ok ctl u = procfs_dokextlist K sbuf_ok ctl REQ_MODULES u"

definition procfs_dodevices :: listing_read where
  "procfs_dodevices K sbuf_ok ctl u = listing_node K sbuf_ok ctl REQ_DEVICES u"

definition procfs_dopcidevices :: listing_read where
  "procfs_dopcidevices K sbuf_ok ctl u = listing_node K sbuf_ok ctl REQ_PCIDEVICES u"

definition procfs_dofb :: listing_read where
  "procfs_dofb K sbuf_ok ctl u = listing_node K sbuf_ok ctl REQ_FBDEVICES u"

definition procfs_dotty_drivers :: listing_read where
  "procfs_dotty_drivers K sbuf_ok ctl u = listing_node K sbuf_ok ctl REQ_TTYDRIVERS u"

definition procfs_dovmallocinfo :: listing_read where
  "procfs_dovmallocinfo K sbuf_ok ctl u = listing_node K sbuf_ok ctl REQ_VMALLOCINFO u"

definition procfs_doslabinfo :: listing_read where
  "procfs_doslabinfo K sbuf_ok ctl u = listing_node K sbuf_ok ctl REQ_SLABINFO u"

definition procfs_dokmsg :: listing_read where
  "procfs_dokmsg K sbuf_ok ctl u = listing_node K sbuf_ok ctl REQ_KMSG u"

definition procfs_dolast_kmsg :: listing_read where
  "procfs_dolast_kmsg K sbuf_ok ctl u = listing_node K sbuf_ok ctl REQ_LAST_KMSG u"

definition procfs_domisc :: listing_read where
  "procfs_domisc K sbuf_ok ctl u = listing_node K sbuf_ok ctl REQ_MISC u"

definition procfs_doscsi :: listing_read where
  "procfs_doscsi K sbuf_ok ctl u = listing_node K sbuf_ok ctl REQ_SCSI u"

definition procfs_donfsexports :: listing_read where
  "procfs_donfsexports K sbuf_ok ctl u = listing_node K sbuf_ok ctl REQ_NFSEXPORTS u"

definition procfs_doallocinfo :: listing_read where
  "procfs_doallocinfo K sbuf_ok ctl u = listing_node K sbuf_ok ctl REQ_ALLOCINFO u"

definition procfs_dotty_ldiscs :: "kio \<Rightarrow> uio \<Rightarrow> errno \<times> uio" where
  "procfs_dotty_ldiscs K u = copy_out K (''tty'' @ TAB @ TAB @ ''0'' @ [NEWLINE]) u"

definition procfs_doide_drivers :: "kio \<Rightarrow> uio \<Rightarrow> errno \<times> uio" where
  "procfs_doide_drivers K u = copy_out K [] u"

definition procfs_doisapnp :: "kio \<Rightarrow> uio \<Rightarrow> errno \<times> uio" where
  "procfs_doisapnp K u = copy_out K [] u"

section \<open>Listings with a header\<close>

text \<open>\<open>procfs_sysvipc_node\<close> and \<open>procfs_net_pcb_node\<close> have the same body.\<close>

definition procfs_sysvipc_node :: "kio \<Rightarrow> bool \<Rightarrow> ctl_oracle \<Rightarrow> u32 \<Rightarrow> string \<Rightarrow> uio \<Rightarrow> (errno \<times> uio) option" where
  "procfs_sysvipc_node K sbuf_ok ctl req hdr u =
     (if \<not> sbuf_ok then Some (ENOMEM, u)
      else (case procfs_ctl_request_blob ctl req [] of None \<Rightarrow> None
        | Some (error, text) \<Rightarrow>
            Some (if error \<noteq> 0 then (if error = ENOTCONN then copy_out K hdr u else (error, u))
                  else copy_out K text u)))"

definition procfs_net_pcb_node :: "kio \<Rightarrow> bool \<Rightarrow> ctl_oracle \<Rightarrow> u32 \<Rightarrow> string \<Rightarrow> uio \<Rightarrow> (errno \<times> uio) option" where
  "procfs_net_pcb_node K sbuf_ok ctl req hdr u =
     (if \<not> sbuf_ok then Some (ENOMEM, u)
      else (case procfs_ctl_request_blob ctl req [] of None \<Rightarrow> None
        | Some (error, text) \<Rightarrow>
            Some (if error \<noteq> 0 then (if error = ENOTCONN then copy_out K hdr u else (error, u))
                  else copy_out K text u)))"

definition shm_header :: string where
  "shm_header = ''       key      shmid perms       size  cpid  lpid nattch   uid   gid  cuid  cgid      atime      dtime      ctime        rss       swap'' @ [NEWLINE]"

definition procfs_dosysvipc_shm :: listing_read where
  "procfs_dosysvipc_shm K sbuf_ok ctl u = procfs_sysvipc_node K sbuf_ok ctl REQ_SYSVIPC_SHM shm_header u"

definition sem_header :: string where
  "sem_header = ''       key      semid perms      nsems   uid   gid  cuid  cgid      otime      ctime'' @ [NEWLINE]"

definition procfs_dosysvipc_sem :: listing_read where
  "procfs_dosysvipc_sem K sbuf_ok ctl u = procfs_sysvipc_node K sbuf_ok ctl REQ_SYSVIPC_SEM sem_header u"

definition msg_header :: string where
  "msg_header = ''       key      msqid perms      cbytes       qnum lspid lrpid   uid   gid  cuid  cgid      stime      rtime      ctime'' @ [NEWLINE]"

definition procfs_dosysvipc_msg :: listing_read where
  "procfs_dosysvipc_msg K sbuf_ok ctl u = procfs_sysvipc_node K sbuf_ok ctl REQ_SYSVIPC_MSG msg_header u"

definition inet_header :: string where
  "inet_header = ''  sl  local_address rem_address   st tx_queue rx_queue tr tm->when retrnsmt   uid  timeout inode'' @ [NEWLINE]"

definition inet6_header :: string where
  "inet6_header = ''  sl  local_address                         remote_address                        st tx_queue rx_queue tr tm->when retrnsmt   uid  timeout inode'' @ [NEWLINE]"

definition procfs_donettcp :: listing_read where
  "procfs_donettcp K sbuf_ok ctl u = procfs_net_pcb_node K sbuf_ok ctl REQ_NETTCP inet_header u"

definition procfs_donettcp6 :: listing_read where
  "procfs_donettcp6 K sbuf_ok ctl u = procfs_net_pcb_node K sbuf_ok ctl REQ_NETTCP6 inet6_header u"

definition procfs_donetudp :: listing_read where
  "procfs_donetudp K sbuf_ok ctl u = procfs_net_pcb_node K sbuf_ok ctl REQ_NETUDP inet_header u"

definition procfs_donetudp6 :: listing_read where
  "procfs_donetudp6 K sbuf_ok ctl u = procfs_net_pcb_node K sbuf_ok ctl REQ_NETUDP6 inet6_header u"

definition unix_header :: string where
  "unix_header = ''Num       RefCount Protocol Flags    Type St Inode Path'' @ [NEWLINE]"

definition procfs_donetunix :: listing_read where
  "procfs_donetunix K sbuf_ok ctl u = procfs_net_pcb_node K sbuf_ok ctl REQ_NETUNIX unix_header u"

definition route_header :: string where
  "route_header = ''Iface'' @ TAB @ ''Destination'' @ TAB @ ''Gateway '' @ TAB @ ''Flags'' @ TAB @ ''RefCnt'' @ TAB @ ''Use'' @ TAB @
      ''Metric'' @ TAB @ ''Mask'' @ TAB @ TAB @ ''MTU'' @ TAB @ ''Window'' @ TAB @ ''IRTT'' @ [NEWLINE]"

definition procfs_donetroute :: listing_read where
  "procfs_donetroute K sbuf_ok ctl u = procfs_net_pcb_node K sbuf_ok ctl REQ_NETROUTE route_header u"

definition arp_header :: string where
  "arp_header = ''IP address       HW type     Flags       HW address            Mask     Device'' @ [NEWLINE]"

definition procfs_donetarp :: listing_read where
  "procfs_donetarp K sbuf_ok ctl u = procfs_net_pcb_node K sbuf_ok ctl REQ_NETARP arp_header u"

definition procfs_donetnetstat :: listing_read where
  "procfs_donetnetstat K sbuf_ok ctl u = procfs_net_pcb_node K sbuf_ok ctl REQ_NETNETSTAT [] u"

definition procfs_donetsnmp :: listing_read where
  "procfs_donetsnmp K sbuf_ok ctl u = procfs_net_pcb_node K sbuf_ok ctl REQ_NETSNMP [] u"

section \<open>Symbol tables\<close>

text \<open>The inner loop writes zeros over the address, at most 16 characters of it.\<close>

fun mask_address :: "nat \<Rightarrow> bytes \<Rightarrow> bytes" where
  "mask_address 0 d = d"
| "mask_address (Suc k) [] = []"
| "mask_address (Suc k) (c # cs) =
     (if c = CHR '' '' \<or> c = NEWLINE then c # cs else CHR ''0'' # mask_address k cs)"

lemma length_mask_address [simp]: "length (mask_address k d) = length d"
  by (induction k d rule: mask_address.induct) auto

text \<open>The outer loop, from the current character on.\<close>

function mask_loop :: "bool \<Rightarrow> bytes \<Rightarrow> bytes" where
  "mask_loop at_line_start d =
     (case d of [] \<Rightarrow> []
      | c # cs \<Rightarrow>
          let hit = (at_line_start \<and> c \<noteq> NEWLINE);
              d' = (if hit then mask_address 16 d else d);
              start = (if hit then False else at_line_start)
          in hd d' # mask_loop (if hd d' = NEWLINE then True else start) (tl d'))"
  by pat_completeness auto

termination
  by (relation "measure (\<lambda>(s, d). length d)") auto

declare mask_loop.simps [simp del]

definition procfs_do_symtab :: "kio \<Rightarrow> bool \<Rightarrow> ctl_oracle \<Rightarrow> cred option \<Rightarrow> u32 \<Rightarrow> uio \<Rightarrow> (errno \<times> uio) option" where
  "procfs_do_symtab K sbuf_ok ctl creds req u =
     (if \<not> sbuf_ok then Some (ENOMEM, u)
      else (case procfs_ctl_request_blob ctl req [] of None \<Rightarrow> None
        | Some (error, text) \<Rightarrow>
            Some (if error \<noteq> 0 then (if error = ENOTCONN then 0 else error, u)
                  else let hide = (case creds of None \<Rightarrow> True | Some c \<Rightarrow> cr_uid c \<noteq> 0)
                       in copy_out K (if hide then mask_loop True text else text) u)))"

definition procfs_doksyms :: "kio \<Rightarrow> bool \<Rightarrow> ctl_oracle \<Rightarrow> cred option \<Rightarrow> uio \<Rightarrow> (errno \<times> uio) option" where
  "procfs_doksyms K sbuf_ok ctl creds u = procfs_do_symtab K sbuf_ok ctl creds REQ_KSYMS u"

definition procfs_dokallsyms :: "kio \<Rightarrow> bool \<Rightarrow> ctl_oracle \<Rightarrow> cred option \<Rightarrow> uio \<Rightarrow> (errno \<times> uio) option" where
  "procfs_dokallsyms K sbuf_ok ctl creds u = procfs_do_symtab K sbuf_ok ctl creds REQ_KALLSYMS u"

section \<open>Interrupts\<close>

definition procfs_online_cpus :: "u32 option \<Rightarrow> nat" where
  \<comment> \<open>the argument is what the kernel's \<open>sysctlbyname\<close> reports for \<open>hw.logicalcpu\<close>\<close>
  "procfs_online_cpus logicalcpu = (case logicalcpu of None \<Rightarrow> 1
     | Some n \<Rightarrow> if n < 1 then 1 else if 64 < n then 64 else unat n)"

definition pad_right :: "nat \<Rightarrow> string \<Rightarrow> string" where
  "pad_right n s = s @ replicate (n - length s) CHR '' ''"

definition cpu_header :: "nat \<Rightarrow> string" where
  "cpu_header ncpu = concat (map (\<lambda>c. ''CPU'' @ pad_right 8 (dec c)) [0..<ncpu]) @ [NEWLINE]"

definition count_column :: "u64 \<Rightarrow> string" where
  "count_column v = '' '' @ pad_left CHR '' '' 10 (dec (unat v))"

definition procfs_dointerrupts :: "kio \<Rightarrow> bool \<Rightarrow> u32 option \<Rightarrow> ctl_oracle \<Rightarrow> uio \<Rightarrow> (errno \<times> uio) option" where
  "procfs_dointerrupts K sbuf_ok logicalcpu ctl u =
     (if \<not> sbuf_ok then Some (ENOMEM, u)
      else (case procfs_ctl_request_blob ctl REQ_INTERRUPTS [] of None \<Rightarrow> None
        | Some (error, text) \<Rightarrow>
            if error \<noteq> 0 \<and> error \<noteq> ENOTCONN then Some (error, u)
            else let ncpu = procfs_online_cpus logicalcpu;
                     cs = snd (procfs_cpu_stat_all ctl ncpu)
                 in Some (copy_out K (text @ (if text = [] then ''     '' @ cpu_header ncpu else []) @
                      '' LOC:'' @ concat (map (\<lambda>c. count_column (timer c)) cs) @ ''   Local timer interrupts'' @ [NEWLINE] @
                      '' RES:'' @ concat (map (\<lambda>c. count_column (ipi c)) cs) @ ''   Rescheduling interrupts'' @ [NEWLINE]) u)))"

definition procfs_dosoftirqs :: "kio \<Rightarrow> bool \<Rightarrow> u32 option \<Rightarrow> ctl_oracle \<Rightarrow> uio \<Rightarrow> errno \<times> uio" where
  "procfs_dosoftirqs K sbuf_ok logicalcpu ctl u =
     (let ncpu = procfs_online_cpus logicalcpu; cs = snd (procfs_cpu_stat_all ctl ncpu) in
      if \<not> sbuf_ok then (ENOMEM, u)
      else copy_out K (replicate 20 CHR '' '' @ cpu_header ncpu @
        concat (map (\<lambda>t. pad_left CHR '' '' 12 (procfs_softirq_names ! t) @ '':'' @
          concat (map (\<lambda>c. count_column (procfs_cpu_softirq_map c ! t)) cs) @ [NEWLINE]) [0..<PROCFS_NR_SOFTIRQ])) u)"

definition cpu_mask :: "nat \<Rightarrow> nat" where
  "cpu_mask n = (if n = 32 then 0xffffffff else 2 ^ n - 1)"

definition procfs_doirq_affinity :: "kio \<Rightarrow> u32 option \<Rightarrow> uio \<Rightarrow> errno \<times> uio" where
  "procfs_doirq_affinity K logicalcpu u =
     (let ncpu = procfs_online_cpus logicalcpu in
      copy_snprintf K 64 (if ncpu \<le> 32 then hex (cpu_mask ncpu) @ [NEWLINE]
        else hex (cpu_mask (ncpu - 32)) @ '',ffffffff'' @ [NEWLINE]) u)"

definition procfs_doirq_affinity_list :: "kio \<Rightarrow> u32 option \<Rightarrow> uio \<Rightarrow> errno \<times> uio" where
  "procfs_doirq_affinity_list K logicalcpu u =
     (let ncpu = procfs_online_cpus logicalcpu in
      copy_snprintf K 32 (if ncpu \<le> 1 then ''0'' @ [NEWLINE] else ''0-'' @ dec (ncpu - 1) @ [NEWLINE]) u)"

section \<open>Machine facts\<close>

text \<open>On the arm64 build; the x86 build lists the cascade channel and the legacy ports.\<close>

definition procfs_dodma :: "kio \<Rightarrow> bool \<Rightarrow> bool \<Rightarrow> uio \<Rightarrow> errno \<times> uio" where
  "procfs_dodma K x86 sbuf_ok u = (if \<not> sbuf_ok then (ENOMEM, u)
     else copy_out K (if x86 then '' 4: cascade'' @ [NEWLINE] else []) u)"

definition ioports_x86 :: string where
  "ioports_x86 = ''0000-001f : dma1'' @ [NEWLINE] @ ''0020-0021 : pic1'' @ [NEWLINE] @ ''0040-0043 : timer0'' @ [NEWLINE] @
     ''0060-0060 : keyboard'' @ [NEWLINE] @ ''0064-0064 : keyboard'' @ [NEWLINE] @ ''0070-0071 : rtc0'' @ [NEWLINE] @
     ''0080-008f : dma page reg'' @ [NEWLINE] @ ''00a0-00a1 : pic2'' @ [NEWLINE] @ ''00c0-00df : dma2'' @ [NEWLINE] @
     ''00f0-00ff : fpu'' @ [NEWLINE]"

definition procfs_doioports :: "kio \<Rightarrow> bool \<Rightarrow> bool \<Rightarrow> uio \<Rightarrow> errno \<times> uio" where
  "procfs_doioports K x86 sbuf_ok u = (if \<not> sbuf_ok then (ENOMEM, u)
     else copy_out K (if x86 then ioports_x86 else []) u)"

definition hex08 :: "u64 \<Rightarrow> string" where
  "hex08 w = pad_left CHR ''0'' 8 (hex (unat w))"

definition procfs_doiomem :: "kio \<Rightarrow> bool \<Rightarrow> u64 \<Rightarrow> u64 \<Rightarrow> uio \<Rightarrow> errno \<times> uio" where
  \<comment> \<open>the two numbers are \<open>hw.memsize\<close> and \<open>hw.memsize_usable\<close>, 0 when the sysctl fails\<close>
  "procfs_doiomem K sbuf_ok memsize memsize_usable u =
     (let usable = (if memsize_usable = 0 \<or> memsize < memsize_usable then memsize else memsize_usable) in
      if \<not> sbuf_ok then (ENOMEM, u)
      else copy_out K (if 0 < memsize
        then hex08 0 @ ''-'' @ hex08 (usable - 1) @ '' : System RAM'' @ [NEWLINE] @
          (if usable < memsize then hex08 usable @ ''-'' @ hex08 (memsize - 1) @ '' : Reserved'' @ [NEWLINE] else [])
        else []) u)"

definition procfs_doexecdomains :: "kio \<Rightarrow> int \<Rightarrow> uio \<Rightarrow> errno \<times> uio" where
  "procfs_doexecdomains K version u =
     (let name = (if procfs_spoofed_release version \<noteq> None then ''Linux'' else ''Darwin'')
      in copy_snprintf K 64 (''0-0'' @ TAB @ pad_right 16 name @ TAB @ ''[kernel]'' @ [NEWLINE]) u)"

text \<open>The ELF header of an empty core file: 64 bytes and no program headers.\<close>

definition elf_core_header :: "nat \<Rightarrow> bytes" where
  "elf_core_header machine = [CHR 0x7f] @ ''ELF'' @ [CHR 0x02, CHR 0x01, CHR 0x01] @ replicate 9 NUL @
     le_bytes 2 4 @ le_bytes 2 machine @ le_bytes 4 1 @ replicate 28 NUL @ le_bytes 2 64 @ replicate 10 NUL"

definition procfs_dokcore :: "kio \<Rightarrow> nat \<Rightarrow> uio \<Rightarrow> errno \<times> uio" where
  \<comment> \<open>the argument is \<open>PROCFS_EM_NATIVE\<close>\<close>
  "procfs_dokcore K machine u = copy_out K (elf_core_header machine) u"

section \<open>Power\<close>

record apm_info =
  ac_online :: int
  battery_present :: int
  charging :: int
  percentage :: int
  time_minutes :: int

definition decode_apm :: "bytes \<Rightarrow> apm_info" where
  "decode_apm d = \<lparr>ac_online = le_int32 d, battery_present = le_int32 (drop 4 d), charging = le_int32 (drop 8 d),
     percentage = le_int32 (drop 12 d), time_minutes = le_int32 (drop 16 d)\<rparr>"

definition apm_unknown :: apm_info where
  "apm_unknown = \<lparr>ac_online = - 1, battery_present = 0, charging = 0, percentage = - 1, time_minutes = - 1\<rparr>"

definition apm_battery :: "apm_info \<Rightarrow> nat \<times> nat" where
  "apm_battery i = (if battery_present i = 0 then (0xff, 0x80)
     else if charging i \<noteq> 0 then (0x03, 0x08)
     else if 50 < percentage i then (0x00, 0x01)
     else if 5 < percentage i then (0x01, 0x02)
     else (0x02, 0x04))"

definition hex02 :: "nat \<Rightarrow> string" where
  "hex02 n = ''0x'' @ pad_left CHR ''0'' 2 (hex n)"

definition apm_text :: "apm_info \<Rightarrow> string" where
  "apm_text i =
     (let ac = (if ac_online i = 1 then 0x01 else if ac_online i = 0 then 0x00 else 0xff);
          (bstatus, bflag) = apm_battery i;
          pct = (if battery_present i = 0 then - 1 else percentage i);
          tmin = (if battery_present i = 0 then - 1 else time_minutes i)
      in ''1.16 1.2 0x02 '' @ hex02 ac @ '' '' @ hex02 bstatus @ '' '' @ hex02 bflag @ '' '' @
         dec_int pct @ ''% '' @ dec_int tmin @ '' '' @ (if 0 \<le> tmin then ''min'' else ''?'') @ [NEWLINE])"

definition procfs_doapm :: "kio \<Rightarrow> ctl_oracle \<Rightarrow> uio \<Rightarrow> errno \<times> uio" where
  "procfs_doapm K ctl u = (case ctl REQ_APM 0 0 [] 20 of
     Inl error \<Rightarrow> (if error = ENOTCONN then 0 else error, u)
   | Inr d \<Rightarrow> copy_snprintf K 128 (apm_text (if length d = 20 then decode_apm d else apm_unknown)) u)"

section \<open>Lemmas\<close>

text \<open>The nodes that show a listing, with its request and what they show without a daemon.\<close>

definition listing_nodes :: "(u32 \<times> string option \<times> listing_read) list" where
  "listing_nodes =
     [(REQ_EXTENSIONS, None, procfs_doextensions), (REQ_MODULES, None, procfs_domodules),
      (REQ_DEVICES, None, procfs_dodevices), (REQ_PCIDEVICES, None, procfs_dopcidevices),
      (REQ_FBDEVICES, None, procfs_dofb), (REQ_TTYDRIVERS, None, procfs_dotty_drivers),
      (REQ_VMALLOCINFO, None, procfs_dovmallocinfo), (REQ_SLABINFO, None, procfs_doslabinfo),
      (REQ_KMSG, None, procfs_dokmsg), (REQ_LAST_KMSG, None, procfs_dolast_kmsg), (REQ_MISC, None, procfs_domisc),
      (REQ_SCSI, None, procfs_doscsi), (REQ_NFSEXPORTS, None, procfs_donfsexports),
      (REQ_ALLOCINFO, None, procfs_doallocinfo),
      (REQ_SYSVIPC_SHM, Some shm_header, procfs_dosysvipc_shm), (REQ_SYSVIPC_SEM, Some sem_header, procfs_dosysvipc_sem),
      (REQ_SYSVIPC_MSG, Some msg_header, procfs_dosysvipc_msg),
      (REQ_NETTCP, Some inet_header, procfs_donettcp), (REQ_NETTCP6, Some inet6_header, procfs_donettcp6),
      (REQ_NETUDP, Some inet_header, procfs_donetudp), (REQ_NETUDP6, Some inet6_header, procfs_donetudp6),
      (REQ_NETUNIX, Some unix_header, procfs_donetunix), (REQ_NETROUTE, Some route_header, procfs_donetroute),
      (REQ_NETARP, Some arp_header, procfs_donetarp),
      (REQ_NETNETSTAT, Some [], procfs_donetnetstat), (REQ_NETSNMP, Some [], procfs_donetsnmp)]"

lemmas plain_node_defs = procfs_dodevices_def procfs_dopcidevices_def procfs_dofb_def procfs_dotty_drivers_def
  procfs_dovmallocinfo_def procfs_doslabinfo_def procfs_dokmsg_def procfs_dolast_kmsg_def procfs_domisc_def
  procfs_doscsi_def procfs_donfsexports_def procfs_doallocinfo_def procfs_domodules_def procfs_doextensions_def
  listing_node_def procfs_dokextlist_def

lemmas header_node_defs = procfs_dosysvipc_shm_def procfs_dosysvipc_sem_def procfs_dosysvipc_msg_def
  procfs_donettcp_def procfs_donettcp6_def procfs_donetudp_def procfs_donetudp6_def procfs_donetunix_def
  procfs_donetroute_def procfs_donetarp_def procfs_donetnetstat_def procfs_donetsnmp_def
  procfs_sysvipc_node_def procfs_net_pcb_node_def

lemma listing_node_cases:
  assumes "(req, hdr, nd) \<in> set listing_nodes"
  shows "req \<in> set listing_types"
    and "nd K True ctl u = (case procfs_ctl_request_blob ctl req [] of None \<Rightarrow> None
      | Some (error, text) \<Rightarrow> Some (if error = 0 then copy_out K text u
          else if error = ENOTCONN then (case hdr of None \<Rightarrow> (0, u) | Some h \<Rightarrow> copy_out K h u) else (error, u)))"
  using assms
  by (auto simp: listing_nodes_def listing_types_def REQ_EXTENSIONS_def plain_node_defs header_node_defs
      split: option.split)

lemma blob_disconnected:
  "\<not> ctl_connected st \<Longrightarrow> procfs_ctl_request_blob (daemon_ctl os cache st) ty sb = Some (ENOTCONN, sb)"
  unfolding procfs_ctl_request_blob_def
  by (subst request_blob_loop.simps) (simp add: procfs_ctl_request_impl_def)

lemma mask_address_stops:
  assumes "length a \<le> k" "CHR '' '' \<notin> set a" "NEWLINE \<notin> set a"
  shows "mask_address k (a @ CHR '' '' # d) = replicate (length a) CHR ''0'' @ CHR '' '' # d"
  using assms
proof (induction a arbitrary: k)
  case Nil
  then show ?case by (cases k) simp_all
next
  case (Cons c a)
  then show ?case by (cases k) auto
qed

lemma mask_loop_Nil [simp]: "mask_loop s [] = []"
  by (simp add: mask_loop.simps)

lemma mask_loop_inside [simp]: "mask_loop False (c # cs) = c # mask_loop (c = NEWLINE) cs"
  by (subst mask_loop.simps) (simp add: Let_def)

lemma mask_rest_of_line:
  "NEWLINE \<notin> set xs \<Longrightarrow> mask_loop False (xs @ NEWLINE # d) = xs @ NEWLINE # mask_loop True d"
  by (induction xs) auto

type_synonym symbols = "(string \<times> string) list"

fun sym_line :: "string \<times> string \<Rightarrow> bytes" where
  "sym_line (addr, rest) = addr @ CHR '' '' # rest @ [NEWLINE]"

fun sym_ok :: "string \<times> string \<Rightarrow> bool" where
  "sym_ok (addr, rest) \<longleftrightarrow> length addr \<le> 16 \<and> CHR '' '' \<notin> set addr \<and> NEWLINE \<notin> set addr \<and> NEWLINE \<notin> set rest"

fun hide_address :: "string \<times> string \<Rightarrow> string \<times> string" where
  "hide_address (addr, rest) = (replicate (length addr) CHR ''0'', rest)"

lemma mask_line:
  assumes "sym_ok s"
  shows "mask_loop True (sym_line s @ d) = sym_line (hide_address s) @ mask_loop True d"
proof (cases s)
  case (Pair addr rest)
  have m: "mask_address 16 (addr @ CHR '' '' # rest @ NEWLINE # d) =
      replicate (length addr) CHR ''0'' @ CHR '' '' # rest @ NEWLINE # d"
    using assms Pair by (intro mask_address_stops) simp_all
  show ?thesis
  proof (cases addr)
    case Nil
    then show ?thesis using assms Pair m mask_rest_of_line [of rest d]
      by (simp add: mask_loop.simps [of True "CHR '' '' # rest @ NEWLINE # d"] Let_def)
  next
    case (Cons c cs)
    then have "mask_loop True (addr @ CHR '' '' # rest @ NEWLINE # d) =
        CHR ''0'' # mask_loop False ((replicate (length cs) CHR ''0'' @ CHR '' '' # rest) @ NEWLINE # d)"
      using assms Pair m by (subst mask_loop.simps) (auto simp: Let_def)
    also have "\<dots> = CHR ''0'' # replicate (length cs) CHR ''0'' @ CHR '' '' # rest @ NEWLINE # mask_loop True d"
      using assms Pair by (subst mask_rest_of_line) auto
    finally show ?thesis using Cons Pair by simp
  qed
qed

lemma mask_table:
  "\<forall>s\<in>set syms. sym_ok s \<Longrightarrow>
   mask_loop True (concat (map sym_line syms)) = concat (map (sym_line \<circ> hide_address) syms)"
  by (induction syms) (simp_all add: mask_line)

section \<open>Properties\<close>



text \<open>
  C40: the symbol tables show root the daemon's table as it is; every other reader, and one
  without credentials, gets each address replaced by as many zeros, whatever the table, with
  types and names and line structure unchanged.
\<close>

theorem symtab_hides_addresses:
  assumes "bridge_ready st" "os_law os" "req \<in> {REQ_KSYMS, REQ_KALLSYMS}"
    and "os_build os req = Some (concat (map sym_line syms))" "cache req = os_build os req"
    and "length (concat (map sym_line syms)) < 2 ^ 64" "\<forall>s\<in>set syms. sym_ok s"
  shows "procfs_do_symtab K True (daemon_ctl os cache st) creds req u =
    Some (copy_out K (concat (map (if \<exists>c. creds = Some c \<and> cr_uid c = 0 then sym_line else sym_line \<circ> hide_address) syms)) u)"
proof -
  have "req \<in> set listing_types" using assms(3) by (auto simp: listing_types_def)
  then have "procfs_ctl_request_blob (daemon_ctl os cache st) req [] = Some (0, [] @ concat (map sym_line syms))"
    using assms by (intro blob_transfer)
  then show ?thesis
    using mask_table [OF assms(7)] by (cases creds) (simp_all add: procfs_do_symtab_def Let_def)
qed

definition sym_os :: os where
  "sym_os = demo_os\<lparr>os_build := \<lambda>ty. Some (concat (map sym_line [(''ffffff80'', ''T _start'')]))\<rparr>"

theorem symtab_hides_addresses_witness:
  "procfs_doksyms \<lparr>kio_move = mv_out, kio_beyond = []\<rparr> True (daemon_ctl sym_os (os_build sym_os) ready_state)
     (Some \<lparr>cr_uid = 501, cr_gid = 20\<rparr>) \<lparr>uio_rw = UIO_READ, uio_offset = 0, uio_resid = 64, uio_user = []\<rparr> =
   Some (copy_out \<lparr>kio_move = mv_out, kio_beyond = []\<rparr> (''00000000 T _start'' @ [NEWLINE])
     \<lparr>uio_rw = UIO_READ, uio_offset = 0, uio_resid = 64, uio_user = []\<rparr>)"
proof -
  have law: "os_law sym_os" using demo_os_law by (simp add: os_law_def sym_os_def)
  have b: "os_build sym_os REQ_KSYMS = Some (concat (map sym_line [(''ffffff80'', ''T _start'')]))"
    by (simp add: sym_os_def)
  have len: "length (concat (map sym_line [(''ffffff80'', ''T _start'')])) < 2 ^ 64" by simp
  have ok: "\<forall>s\<in>set [(''ffffff80'', ''T _start'')]. sym_ok s" by simp
  have "concat (map (sym_line \<circ> hide_address) [(''ffffff80'', ''T _start'')]) = ''00000000 T _start'' @ [NEWLINE]"
    by (simp add: numeral_eq_Suc)
  then show ?thesis
    unfolding procfs_doksyms_def
    using symtab_hides_addresses [where cache = "os_build sym_os", OF ready_state_ready law _ b refl len ok] by simp
qed

end
