(* ===== verification/Vnops.thy ===== *)
theory Vnops
  imports Layout Listings
begin

text \<open>
  The vnode operations of \<open>kext/procfs_vnops.c\<close>: lookup, readdir (with the separate walk of
  \<open>/proc/sys\<close>), getattr, readlink, read, write, setattr, and the creation of vnodes. They sit on
  the structure tree, the node table, the sysctl tree and the process helpers. What readdir
  delivers is in \<open>Directory\<close>, what lookup finds in \<open>Paths\<close>.
\<close>

section \<open>What one operation sees\<close>

text \<open>
  \<open>ve_suser\<close> says whether \<open>vfs_context_suser\<close> returns 0 for the caller, \<open>ve_cred\<close> are its credentials;
  \<open>ve_alloc\<close> are the outcomes of the allocations of the pid array, of the buffer of a bridge
  request and of the array of its result. \<open>ve_read_fn\<close> gives the function behind a name in
  \<open>psn_read_data_fn\<close>; \<^const>\<open>None\<close> is a call that does not return.
\<close>

record vfs_env =
  ve_heap :: "pfssnode list"
  ve_mount :: pfsmount
  ve_version :: int
  ve_proc_find :: proc_table
  ve_ctl :: ctl_oracle
  ve_oids :: "oid list"
  ve_suser :: bool
  ve_cred :: cred
  ve_alloc :: "bool \<times> bool \<times> bool"
  ve_kio :: kio
  ve_move_in :: uiomove_in
  ve_sysctl :: sysctl_env
  ve_task :: task_env
  ve_now :: "int \<times> int"
  ve_current :: int
  ve_vnode_get :: "nat \<Rightarrow> bool"
  ve_vn_getpath :: "nat \<Rightarrow> nat \<Rightarrow> cstring option"
  ve_read_fn :: "string \<Rightarrow> pfsnode \<Rightarrow> uio \<Rightarrow> (errno \<times> uio) option"

abbreviation snode_of :: "vfs_env \<Rightarrow> pfsnode \<Rightarrow> pfssnode" where
  "snode_of E pnp \<equiv> ve_heap E ! node_structure_node pnp"

definition check_access :: "vfs_env \<Rightarrow> bool" where
  "check_access E \<longleftrightarrow> \<not> ve_suser E \<and> procfs_should_access_check (ve_mount E)"

abbreviation thread_ids :: "vfs_env \<Rightarrow> kproc \<Rightarrow> u64 list res" where
  "thread_ids E p \<equiv> procfs_get_thread_ids_for_task (fst (snd (ve_alloc E))) (snd (snd (ve_alloc E))) (ve_ctl E) (Some p)"

abbreviation fd_list :: "vfs_env \<Rightarrow> kproc \<Rightarrow> proc_fdinfo list res" where
  "fd_list E p \<equiv> procfs_get_fd_list (fst (snd (ve_alloc E))) (ve_ctl E) (Some p)"

section \<open>Vnodes\<close>

text \<open>\<open>proc_name\<close> copies the name of the process within its limit.\<close>

definition PROCESS_NAME_SIZE :: nat where "PROCESS_NAME_SIZE = 40"

definition procfs_construct_process_dir_name :: "kproc \<Rightarrow> cstring" where
  "procfs_construct_process_dir_name p =
     snprintf PROCESS_NAME_SIZE (dec_int (kp_pid p) @ '' '') @ strlcpy (kp_name p) (MAXCOMLEN + 1)"

record vnode_fsparam =
  vnfs_vtype :: vtype
  vnfs_dvp :: "nat option"
  vnfs_id :: pfsid
  vnfs_markroot :: bool

definition node_vtype :: "vfs_env \<Rightarrow> sptr \<Rightarrow> pfsid \<Rightarrow> vtype" where
  "node_vtype E s nid =
     (if psn_node_type (ve_heap E ! s) = PFSsysctl
      then (if procfs_sysctl_is_node (ve_oids E) (nodeid_objectid nid) then VDIR else VREG)
      else procfs_allocvp (psn_node_type (ve_heap E ! s)))"

definition procfs_create_vnode :: "(vnode_fsparam \<Rightarrow> errno) \<Rightarrow> vfs_env \<Rightarrow> nat option \<Rightarrow> find_req \<Rightarrow> errno" where
  \<comment> \<open>the first argument is \<open>vnode_create\<close> on the fields that vary, the third the parent vnode\<close>
  "procfs_create_vnode vnode_create E parent req = vnode_create
     \<lparr>vnfs_vtype = node_vtype E (fr_snode req) (fr_id req), vnfs_dvp = parent, vnfs_id = fr_id req,
      vnfs_markroot = False\<rparr>"

section \<open>Lookup\<close>

text \<open>
  A match is the structure node and the node id it stands for; \<^const>\<open>None\<close> inside \<open>Inr\<close> is a scan
  without a match.
\<close>

type_synonym match = "sptr \<times> pfsid"

definition lookup_fd :: "vfs_env \<Rightarrow> pfsnode \<Rightarrow> cstring \<Rightarrow> sptr \<Rightarrow> match option res" where
  "lookup_fd E dir name c =
     (let i = fst (procfs_atoi name); pid = nodeid_pid (node_id dir);
          valid = (i \<noteq> - 1 \<and> (case ve_proc_find E pid of None \<Rightarrow> False
            | Some p \<Rightarrow> (case fd_list E p of Inl _ \<Rightarrow> False | Inr fds \<Rightarrow> i \<in> set (map proc_fd fds))))
      in if valid then Inr (Some (c, mk_id pid (of_int i) (psn_base_node_id (ve_heap E ! c)))) else Inl ENOENT)"

definition lookup_proc :: "vfs_env \<Rightarrow> pfsnode \<Rightarrow> cstring \<Rightarrow> sptr \<Rightarrow> int \<Rightarrow> match option res" where
  "lookup_proc E dir name c i =
     (let ty = psn_node_type (ve_heap E ! c);
          nid = mk_id (if ty = PFSproc \<or> ty = PFSprocnamedir then i else nodeid_pid (node_id dir))
            (if ty = PFSthread then of_int i else nodeid_objectid (node_id dir)) (psn_base_node_id (ve_heap E ! c))
      in case ve_proc_find E (nodeid_pid nid) of None \<Rightarrow> Inl ENOENT
       | Some p \<Rightarrow>
           if ty = PFSprocnamedir \<and> name \<noteq> procfs_construct_process_dir_name p then Inl ENOENT
           else if check_access E \<and> procfs_check_can_access_process (ve_cred E) p \<noteq> 0 then Inl ENOENT
           else if ty = PFSthread then
             (case thread_ids E p of Inl _ \<Rightarrow> Inl ENOENT
              | Inr ids \<Rightarrow> if nodeid_objectid nid \<in> set ids then Inr (Some (c, nid)) else Inl ENOENT)
           else Inr (Some (c, nid)))"

text \<open>The walk over the children of the directory's structure node.\<close>

fun lookup_scan :: "vfs_env \<Rightarrow> pfsnode \<Rightarrow> cstring \<Rightarrow> sptr list \<Rightarrow> match option res option" where
  "lookup_scan E dir name [] = Some (Inr None)"
| "lookup_scan E dir name (c # cs) =
     (let snode = ve_heap E ! c; ty = psn_node_type snode in
      case procfs_node_version_hidden (ve_version E) (psn_name snode) of None \<Rightarrow> None
      | Some hidden \<Rightarrow>
          if hidden then lookup_scan E dir name cs
          else if name = psn_name snode then
            Some (Inr (Some (c, mk_id (nodeid_pid (node_id dir)) (nodeid_objectid (node_id dir)) (psn_base_node_id snode))))
          else if ty = PFSfd then Some (lookup_fd E dir name c)
          else if ty = PFSproc \<or> ty = PFSprocnamedir \<or> ty = PFSthread then
            (case procfs_atoi name of (i, endp) \<Rightarrow>
               if ty \<noteq> PFSprocnamedir \<and> endp \<noteq> [] then lookup_scan E dir name cs
               else if i \<noteq> - 1 then Some (lookup_proc E dir name c i)
               else lookup_scan E dir name cs)
          else lookup_scan E dir name cs)"

definition lookup_match :: "vfs_env \<Rightarrow> pfsnode \<Rightarrow> cstring \<Rightarrow> match option res option" where
  "lookup_match E dir name =
     (let snode = snode_of E dir in
      if psn_node_type snode = PFSsysctl then
        Some (Inr (case procfs_sysctl_find (ve_oids E) (nodeid_objectid (node_id dir)) name of None \<Rightarrow> None
          | Some child \<Rightarrow> Some (node_structure_node dir, mk_id PRNODE_NO_PID child (psn_base_node_id snode))))
      else lookup_scan E dir name (psn_children snode))"

definition dotdot_id :: "vfs_env \<Rightarrow> pfsnode \<Rightarrow> match" where
  \<comment> \<open>the parent of a directory; the parent of a nested sysctl directory is the enclosing oid\<close>
  "dotdot_id E dir =
     (let snode = snode_of E dir in
      if psn_node_type snode = PFSsysctl \<and> nodeid_objectid (node_id dir) \<noteq> 0
      then (node_structure_node dir, mk_id PRNODE_NO_PID
          (case procfs_sysctl_parent (ve_oids E) (nodeid_objectid (node_id dir)) of None \<Rightarrow> 0 | Some q \<Rightarrow> q)
          (psn_base_node_id snode))
      else (case psn_parent snode of None \<Rightarrow> node_structure_node dir | Some q \<Rightarrow> q,
            procfs_get_parent_node_id (ve_heap E) dir))"

definition NAME_MAX :: nat where "NAME_MAX = 255"

text \<open>
  The directory is a vnode number; \<open>vnode_create\<close> and the other kernel calls of the node table
  are parameters. The component is what \<open>cn_nameptr\<close> and \<open>cn_namelen\<close> delimit, and \<open>dotdot\<close> the
  \<open>ISDOTDOT\<close> flag the kernel sets for it.
\<close>

definition dir_node :: "node_table \<Rightarrow> nat option \<Rightarrow> pfsnode option" where
  "dir_node nt dvp = (case dvp of None \<Rightarrow> None
     | Some d \<Rightarrow> (case nt_vnodes nt d of None \<Rightarrow> None | Some vn \<Rightarrow> nt_nodes nt (v_fsnode vn)))"

definition find_vnode :: "(vnode_fsparam \<Rightarrow> errno) \<Rightarrow> vfs_env \<Rightarrow> find_env \<Rightarrow> nat option \<Rightarrow> match \<Rightarrow> node_table \<Rightarrow>
    (nat res \<times> node_table) option" where
  "find_vnode vnode_create E F parent m nt =
     (case procfsnode_find (F\<lparr>fe_create := procfs_create_vnode vnode_create E parent\<rparr>)
         \<lparr>fr_mount = pmnt_id (ve_mount E), fr_id = snd m, fr_snode = fst m\<rparr> nt of
        None \<Rightarrow> None
      | Some (Inl e, nt') \<Rightarrow> Some (Inl e, nt')
      | Some (Inr (p, v), nt') \<Rightarrow> Some (Inr v, nt'))"

definition procfs_vnop_lookup :: "(vnode_fsparam \<Rightarrow> errno) \<Rightarrow> vfs_env \<Rightarrow> find_env \<Rightarrow> nat option \<Rightarrow> cstring \<Rightarrow> bool \<Rightarrow>
    node_table \<Rightarrow> (nat res \<times> node_table) option" where
  "procfs_vnop_lookup vnode_create E F dvp component dotdot nt =
     (case dir_node nt dvp of None \<Rightarrow> Some (Inl EINVAL, nt)
      | Some dir \<Rightarrow>
          if node_vtype E (node_structure_node dir) (node_id dir) \<noteq> VDIR \<or> component = [] then Some (Inl EINVAL, nt)
          else let name = take NAME_MAX component in
            if dotdot then find_vnode vnode_create E F None (dotdot_id E dir) nt
            else if component = ''.'' then
              Some (if fe_getwithvid F (the dvp) = 0 then Inr (the dvp) else Inl (fe_getwithvid F (the dvp)), nt)
            else (case lookup_match E dir name of None \<Rightarrow> None
              | Some (Inl error) \<Rightarrow> Some (Inl error, nt)
              | Some (Inr None) \<Rightarrow> Some (Inl ENOENT, nt)
              | Some (Inr (Some m)) \<Rightarrow> find_vnode vnode_create E F dvp m nt))"

section \<open>Reading a directory\<close>

text \<open>
  A directory entry is its type, file id and name. The fixed part of \<open>struct direntry\<close> has 24
  bytes, of which the last three already belong to the name's place.
\<close>

definition DT_DIR :: int where "DT_DIR = 4"
definition DT_REG :: int where "DT_REG = 8"
definition DT_LNK :: int where "DT_LNK = 10"

fun vtype_num :: "vtype \<Rightarrow> int" where
  "vtype_num VREG = 1"
| "vtype_num VDIR = 2"
| "vtype_num VLNK = 5"

type_synonym dent = "int \<times> u64 \<times> cstring"

definition procfs_calc_dirent_size :: "cstring \<Rightarrow> int" where
  "procfs_calc_dirent_size name = 24 + int ((length name + 1 + 7) div 8 * 8)"

definition dirent_bytes :: "dent \<Rightarrow> int \<Rightarrow> int \<Rightarrow> bytes" where
  "dirent_bytes e reclen seekoff = (case e of (type, file_id, name) \<Rightarrow>
     u64_bytes file_id @ u64_bytes (of_int seekoff) @ le_bytes 2 (nat (reclen mod 2 ^ 16)) @ le_bytes 2 (length name mod 2 ^ 16) @
     [char_of (nat (type mod 2 ^ 8))] @ name @ replicate (1027 - length name) NUL)"

definition procfs_copyout_dirent :: "kio \<Rightarrow> dent \<Rightarrow> int \<Rightarrow> int \<Rightarrow> uio \<Rightarrow> (errno \<times> int) \<times> uio" where
  \<comment> \<open>the error and the updated size, 0 when the entry does not fit\<close>
  "procfs_copyout_dirent K e sz seekoff u =
     (if sz \<le> uio_resid u then (case kio_move K (dirent_bytes e sz seekoff) sz u of (error, u') \<Rightarrow> ((error, sz), u'))
      else ((0, 0), u))"

text \<open>
  The body the five entry loops share: an entry before the start offset only advances the
  position. The state is the position, the number of entries delivered and the uio.
\<close>

record rd_state =
  rd_pos :: int
  rd_num :: nat
  rd_uio :: uio

datatype rd_flow = Proceed | Stop errno

definition emit :: "kio \<Rightarrow> int \<Rightarrow> dent \<Rightarrow> rd_state \<Rightarrow> rd_flow \<times> rd_state" where
  "emit K start e st =
     (let sz = procfs_calc_dirent_size (snd (snd e)) in
      if start \<le> rd_pos st then
        (case procfs_copyout_dirent K e sz (rd_pos st + sz) (rd_uio st) of ((error, sz'), u') \<Rightarrow>
           if error \<noteq> 0 \<or> sz' = 0 then (Stop error, st\<lparr>rd_uio := u'\<rparr>)
           else (Proceed, st\<lparr>rd_pos := rd_pos st + sz', rd_num := rd_num st + 1, rd_uio := u'\<rparr>))
      else (Proceed, st\<lparr>rd_pos := rd_pos st + sz\<rparr>))"

fun emit_all :: "kio \<Rightarrow> int \<Rightarrow> dent list \<Rightarrow> rd_state \<Rightarrow> rd_flow \<times> rd_state" where
  "emit_all K start [] st = (Proceed, st)"
| "emit_all K start (e # es) st = (case emit K start e st of
     (Stop error, st') \<Rightarrow> (Stop error, st')
   | (Proceed, st') \<Rightarrow> emit_all K start es st')"

fun flow_error :: "rd_flow \<Rightarrow> errno" where
  "flow_error Proceed = 0"
| "flow_error (Stop error) = error"

text \<open>The entries of the run-time children, in the order of the loops.\<close>

definition proc_entries :: "vfs_env \<Rightarrow> pfssnode \<Rightarrow> dent list" where
  "proc_entries E snode =
     (let pids = pid_list (procfs_get_pids (fst (ve_alloc E)) (ve_proc_find E) (if check_access E then Some (ve_cred E) else None));
          ent = (\<lambda>pid name. (vtype_num VDIR, procfs_get_fileid pid PRNODE_NO_OBJECTID (psn_base_node_id snode), name))
      in if psn_node_type snode = PFSproc then map (\<lambda>pid. ent pid (snprintf PROCESS_NAME_SIZE (dec_int pid))) pids
         else List.map_filter (\<lambda>pid. map_option (\<lambda>p. ent pid (procfs_construct_process_dir_name p)) (ve_proc_find E pid)) pids)"

definition thread_entries :: "pfssnode \<Rightarrow> int \<Rightarrow> u64 list \<Rightarrow> dent list" where
  "thread_entries snode pid ids = map (\<lambda>i. (vtype_num VDIR, procfs_get_fileid pid i (psn_base_node_id snode),
     snprintf PROCESS_NAME_SIZE (dec_int (sint i)))) ids"

definition fd_entries :: "pfssnode \<Rightarrow> int \<Rightarrow> proc_fdinfo list \<Rightarrow> dent list" where
  "fd_entries snode pid fds = map (\<lambda>f. (vtype_num VDIR, procfs_get_fileid pid (of_int (proc_fd f)) (psn_base_node_id snode),
     snprintf PROCESS_NAME_SIZE (dec_int (proc_fd f)))) fds"

definition dirent_type :: "pfstype \<Rightarrow> int" where
  "dirent_type ty = (if ty \<in> {PFSdir, PFSsysctl, PFSdirthis, PFSdirparent} then DT_DIR
     else if ty \<in> {PFScurproc, PFSproclink} then DT_LNK else DT_REG)"

definition static_entry :: "vfs_env \<Rightarrow> pfsnode \<Rightarrow> pfssnode \<Rightarrow> dent" where
  "static_entry E dir snode =
     (let nid = (if psn_node_type snode = PFSdirthis then node_id dir
                 else if psn_node_type snode = PFSdirparent then procfs_get_parent_node_id (ve_heap E) dir
                 else mk_id (nodeid_pid (node_id dir)) (nodeid_objectid (node_id dir)) (psn_base_node_id snode))
      in (dirent_type (psn_node_type snode), procfs_get_fileid (nodeid_pid nid) (nodeid_objectid nid) (nodeid_base_id nid),
          psn_name snode))"

text \<open>
  The outer loop. The result is the error, whether the loop ended past the last child, and the
  state. A root node among the children would make the source spin, which is \<^const>\<open>None\<close>.
\<close>

fun readdir_loop :: "vfs_env \<Rightarrow> pfsnode \<Rightarrow> int \<Rightarrow> sptr list \<Rightarrow> rd_state \<Rightarrow> (errno \<times> bool \<times> rd_state) option" where
  "readdir_loop E dir start [] st = Some (0, True, st)"
| "readdir_loop E dir start (c # cs) st =
     (let snode = ve_heap E ! c; ty = psn_node_type snode; pid = nodeid_pid (node_id dir) in
      if uio_resid (rd_uio st) \<le> 0 then Some (0, False, st)
      else (case procfs_node_version_hidden (ve_version E) (psn_name snode) of None \<Rightarrow> None
      | Some hidden \<Rightarrow>
          if hidden then readdir_loop E dir start cs st
          else if pid = PRNODE_NO_PID \<or> \<not> check_access E \<or>
              procfs_check_can_access_proc_pid (ve_proc_find E) (ve_cred E) pid = 0 then
            (if ty = PFSroot then None
             else if ty = PFSproc \<or> ty = PFSprocnamedir then
               (case emit_all (ve_kio E) start (proc_entries E snode) st of
                  (Proceed, st') \<Rightarrow> Some (0, cs = [], st')
                | (Stop error, st') \<Rightarrow> Some (error, False, st'))
             else if ty = PFSthread then
               (case ve_proc_find E pid of None \<Rightarrow> Some (ENOENT, False, st)
                | Some p \<Rightarrow> (case thread_ids E p of Inl error \<Rightarrow> Some (error, False, st)
                    | Inr ids \<Rightarrow> (case emit_all (ve_kio E) start (thread_entries snode pid ids) st of
                        (fl, st') \<Rightarrow> Some (flow_error fl, False, st'))))
             else if ty = PFSfd then
               (case ve_proc_find E pid of None \<Rightarrow> Some (ENOENT, False, st)
                | Some p \<Rightarrow> (case emit_all (ve_kio E) start
                      (fd_entries snode pid (case fd_list E p of Inl _ \<Rightarrow> [] | Inr fds \<Rightarrow> fds)) st of
                      (fl, st') \<Rightarrow> Some (flow_error fl, False, st')))
             else (case emit (ve_kio E) start (static_entry E dir snode) st of
                 (Stop error, st') \<Rightarrow> Some (error, False, st')
               | (Proceed, st') \<Rightarrow> readdir_loop E dir start cs st'))
          else readdir_loop E dir start cs st))"

text \<open>The loop over a sysctl directory; a position past the last child ends it.\<close>

lemma child_at_None: "length (sysctl_entries mib d) \<le> i \<Longrightarrow> procfs_sysctl_child_at mib d i = None"
  by (simp add: child_at_entries)

function sysctl_loop :: "vfs_env \<Rightarrow> pfsnode \<Rightarrow> int \<Rightarrow> nat \<Rightarrow> rd_state \<Rightarrow> errno \<times> bool \<times> rd_state" where
  "sysctl_loop E dir start index st =
     (if uio_resid (rd_uio st) \<le> 0 then (0, False, st)
      else (case procfs_sysctl_child_at (ve_oids E) (nodeid_objectid (node_id dir)) index of
        None \<Rightarrow> (0, True, st)
      | Some (name, is_node, objid) \<Rightarrow>
          (case emit (ve_kio E) start (if is_node then DT_DIR else DT_REG,
               procfs_get_fileid PRNODE_NO_PID objid (psn_base_node_id (snode_of E dir)), name) st of
             (Stop error, st') \<Rightarrow> (error, False, st')
           | (Proceed, st') \<Rightarrow> sysctl_loop E dir start (index + 1) st')))"
  by pat_completeness auto

termination
proof (relation "measure (\<lambda>(E, dir, start, index, st).
    length (sysctl_entries (ve_oids E) (nodeid_objectid (node_id dir))) - index)")
  fix E dir start index and st st' :: rd_state and c name r is_node objid f
  assume "procfs_sysctl_child_at (ve_oids E) (nodeid_objectid (node_id dir)) index = Some c"
  then have "index < length (sysctl_entries (ve_oids E) (nodeid_objectid (node_id dir)))"
    using child_at_None [of "ve_oids E" "nodeid_objectid (node_id dir)" index] by (cases "length (sysctl_entries (ve_oids E) (nodeid_objectid (node_id dir))) \<le> index") auto
  then show "((E, dir, start, index + 1, st'), E, dir, start, index, st) \<in> measure (\<lambda>(E, dir, start, index, st).
    length (sysctl_entries (ve_oids E) (nodeid_objectid (node_id dir))) - index)" by simp
qed simp

declare sysctl_loop.simps [simp del]

definition dot_entries :: "vfs_env \<Rightarrow> pfsnode \<Rightarrow> dent list" where
  \<comment> \<open>both carry the file id of the directory itself\<close>
  "dot_entries E dir = [(DT_DIR, procfs_get_node_fileid (ve_heap E) dir, ''.''),
     (DT_DIR, procfs_get_node_fileid (ve_heap E) dir, ''..'')]"

text \<open>The result of a readdir: error, end-of-file flag, number of entries, and the uio.\<close>

definition rd_done :: "errno \<times> bool \<times> rd_state \<Rightarrow> errno \<times> bool \<times> nat \<times> uio" where
  "rd_done r = (case r of (error, eof, st) \<Rightarrow> (error, eof, rd_num st, (rd_uio st)\<lparr>uio_offset := rd_pos st\<rparr>))"

definition rd_init :: "uio \<Rightarrow> rd_state" where
  "rd_init u = \<lparr>rd_pos = 0, rd_num = 0, rd_uio = u\<rparr>"

definition procfs_sysctl_readdir :: "vfs_env \<Rightarrow> pfsnode \<Rightarrow> uio \<Rightarrow> errno \<times> bool \<times> nat \<times> uio" where
  "procfs_sysctl_readdir E dir u =
     (case emit_all (ve_kio E) (uio_offset u) (dot_entries E dir) (rd_init u) of
        (Stop error, st) \<Rightarrow> rd_done (error, False, st)
      | (Proceed, st) \<Rightarrow> rd_done (sysctl_loop E dir (uio_offset u) 0 st))"

definition procfs_vnop_readdir :: "vfs_env \<Rightarrow> pfsnode \<Rightarrow> uio \<Rightarrow> (errno \<times> bool \<times> nat \<times> uio) option" where
  "procfs_vnop_readdir E dir u =
     (if node_vtype E (node_structure_node dir) (node_id dir) \<noteq> VDIR then Some (ENOTDIR, False, 0, u)
      else if psn_node_type (snode_of E dir) = PFSsysctl then Some (procfs_sysctl_readdir E dir u)
      else map_option rd_done (readdir_loop E dir (uio_offset u) (psn_children (snode_of E dir)) (rd_init u)))"

section \<open>Attributes\<close>

definition READ_EXECUTE_ALL :: nat where "READ_EXECUTE_ALL = 0x16D"
definition READ_ALL :: nat where "READ_ALL = 0x124"
definition ALL_ACCESS_ALL :: nat where "ALL_ACCESS_ALL = 0x1FF"
definition RW_OWNER_GROUP :: nat where "RW_OWNER_GROUP = 0x1B0"
definition W_OWNER_GROUP :: nat where "W_OWNER_GROUP = 0x90"

record vnode_attr =
  va_mode :: nat
  va_type :: vtype
  va_fsid :: int
  va_fileid :: u64
  va_data_size :: nat
  va_time :: "int \<times> int"
  va_uid :: u32
  va_gid :: u32

text \<open>The types for which no process is looked up: the system-wide files.\<close>

definition system_types :: "pfstype list" where
  "system_types =
    [PFScpuinfo, PFSloadavg, PFSpartitions, PFSversion, PFSmeminfo, PFSmtab, PFSstat, PFSvmstat, PFSuptime,
     PFSswaps, PFSfilesystems, PFSsysctl, PFSextensions, PFSmodules, PFSdiskstats, PFSdevices, PFSnetdev,
     PFSallocinfo, PFSapm, PFSbootconfig, PFSbuddyinfo, PFSpcidevices, PFSdma, PFSrtc, PFSexecdomains, PFSfb,
     PFSnfsexports, PFSinterrupts, PFSirq, PFStty, PFSioports, PFSiomem, PFSsoftirqs, PFSkcmdline, PFSide,
     PFSvmallocinfo, PFSisapnp, PFSscsi, PFSsysvipc, PFSpagetypeinfo, PFSslabinfo, PFSlocks, PFSkcore, PFSkmsg,
     PFSlastkmsg, PFSksyms, PFSmisc]"

definition node_mode :: "vfs_env \<Rightarrow> pfsnode \<Rightarrow> nat" where
  "node_mode E pnp =
     (let snode = snode_of E pnp; ty = psn_node_type snode;
          mode = (if ty = PFScurproc \<or> ty = PFSprocnamedir \<or> ty = PFSproclink then ALL_ACCESS_ALL
                  else if ty = PFSsysctl then
                    (if procfs_sysctl_is_node (ve_oids E) (nodeid_objectid (node_id pnp)) then READ_EXECUTE_ALL else READ_ALL)
                  else if procfs_is_directory_type ty then READ_EXECUTE_ALL else READ_ALL);
          mode = (if psn_read_data_fn snode = Some ''procfs_donote'' then RW_OWNER_GROUP else mode)
      in if psn_read_data_fn snode = Some ''procfs_doclear_refs'' then W_OWNER_GROUP else mode)"

definition procfs_vnop_getattr :: "vfs_env \<Rightarrow> pfsnode \<Rightarrow> vnode_attr res" where
  "procfs_vnop_getattr E pnp =
     (let ty = psn_node_type (snode_of E pnp);
          info = (if ty \<in> set system_types then Inr None
            else (case procfs_get_process_info (ve_proc_find E) (ve_heap E) pnp of Inl error \<Rightarrow> Inl error
              | Inr (pid, p) \<Rightarrow> Inr p))
      in case info of Inl error \<Rightarrow> Inl error
       | Inr p \<Rightarrow> Inr
          \<lparr>va_mode = node_mode E pnp,
           va_type = node_vtype E (node_structure_node pnp) (node_id pnp),
           va_fsid = pmnt_id (ve_mount E),
           va_fileid = procfs_get_node_fileid (ve_heap E) pnp,
           va_data_size = procfs_get_node_size_attr (ve_task E) (ve_ctl E) (ve_proc_find E) (ve_heap E) pnp,
           va_time = (case p of None \<Rightarrow> ve_now E | Some p \<Rightarrow> (fst (kp_start p), snd (kp_start p) * 1000)),
           va_uid = (case p of None \<Rightarrow> 0 | Some p \<Rightarrow> kp_ruid p),
           va_gid = (case p of None \<Rightarrow> 0 | Some p \<Rightarrow> kp_rgid p)\<rparr>)"

section \<open>Links and data\<close>

definition procfs_vnop_readlink :: "vfs_env \<Rightarrow> pfsnode \<Rightarrow> uio \<Rightarrow> errno \<times> uio" where
  "procfs_vnop_readlink E pnp u =
     (let snode = snode_of E pnp; ty = psn_node_type snode; pid = nodeid_pid (node_id pnp);
          move = (\<lambda>s. kio_move (ve_kio E) s (int (length s)) u)
      in if ty = PFScurproc then move (snprintf PROCESS_NAME_SIZE (dec_int (ve_current E)))
         else if ty = PFSprocnamedir then move (snprintf PROCESS_NAME_SIZE (''../'' @ dec_int pid))
         else if ty = PFSproclink then
           (case procfs_proclink_path (ve_vnode_get E) (ve_vn_getpath E) (ve_proc_find E) pid (psn_name snode) MAXPATHLEN of
              Inl error \<Rightarrow> (error, u)
            | Inr path \<Rightarrow> move path)
         else (EINVAL, u))"

definition procfs_vnop_read :: "vfs_env \<Rightarrow> pfsnode \<Rightarrow> uio \<Rightarrow> (errno \<times> uio) option" where
  "procfs_vnop_read E pnp u =
     (let snode = snode_of E pnp in
      if psn_node_type snode = PFSsysctl
      then Some (procfs_sysctl_read (ve_kio E) (ve_sysctl E) (ve_oids E) (nodeid_objectid (node_id pnp)) u)
      else if procfs_is_directory_type (psn_node_type snode) then Some (EISDIR, u)
      else (case psn_read_data_fn snode of None \<Rightarrow> Some (EINVAL, u) | Some f \<Rightarrow> ve_read_fn E f pnp u))"

text \<open>The third component is the signal that is posted, if any.\<close>

definition procfs_vnop_write :: "vfs_env \<Rightarrow> pfsnode \<Rightarrow> uio \<Rightarrow> errno \<times> uio \<times> (int \<times> int) option" where
  "procfs_vnop_write E pnp u =
     (let snode = snode_of E pnp in
      if procfs_is_directory_type (psn_node_type snode) then (EISDIR, u, None)
      else if psn_read_data_fn snode = Some ''procfs_donote'' then procfs_donote (ve_move_in E) pnp u
      else if psn_read_data_fn snode = Some ''procfs_doclear_refs''
        then (case procfs_doclear_refs (ve_move_in E) u of (error, u') \<Rightarrow> (error, u', None))
      else (EROFS, u, None))"

definition procfs_vnop_setattr :: "vfs_env \<Rightarrow> pfsnode \<Rightarrow> errno" where
  "procfs_vnop_setattr E pnp =
     (if psn_read_data_fn (snode_of E pnp) \<in> {Some ''procfs_donote'', Some ''procfs_doclear_refs''} then 0 else ENOTSUP)"

definition procfs_vnop_open :: "pfsnode \<Rightarrow> errno" where "procfs_vnop_open pnp = 0"
definition procfs_vnop_access :: "pfsnode \<Rightarrow> errno" where "procfs_vnop_access pnp = 0"
definition procfs_vnop_close :: "pfsnode \<Rightarrow> errno" where "procfs_vnop_close pnp = 0"
definition procfs_vnop_inactive :: "pfsnode \<Rightarrow> errno" where "procfs_vnop_inactive pnp = 0"
definition procfs_vnop_default :: errno where "procfs_vnop_default = 0"
definition procfs_vnop_getattrlistbulk :: "pfsnode \<Rightarrow> errno" where "procfs_vnop_getattrlistbulk pnp = ENOTSUP"

end
