(* ===== verification/Directory.thy ===== *)
theory Directory
  imports Vnops
begin

text \<open>
  What readdir of \<open>kext/procfs_vnops.c\<close> delivers. The reference is \<open>dir_entries\<close>, a directory as the
  list of its entries; both walks, over the children of a structure node and over a sysctl
  directory, are shown to emit that list, skipping what lies before the start offset.
\<close>

section \<open>A directory as a list of entries\<close>

abbreviation dent_size :: "dent \<Rightarrow> int" where
  "dent_size e \<equiv> procfs_calc_dirent_size (snd (snd e))"

definition dents_size :: "dent list \<Rightarrow> int" where
  "dents_size es = sum_list (map dent_size es)"

fun encode_dents :: "int \<Rightarrow> dent list \<Rightarrow> bytes" where
  "encode_dents pos [] = []"
| "encode_dents pos (e # es) =
     take (nat (dent_size e)) (dirent_bytes e (dent_size e) (pos + dent_size e)) @ encode_dents (pos + dent_size e) es"

text \<open>How many entries fit into a buffer.\<close>

fun fitting :: "dent list \<Rightarrow> int \<Rightarrow> nat" where
  "fitting [] room = 0"
| "fitting (e # es) room = (if dent_size e \<le> room then Suc (fitting es (room - dent_size e)) else 0)"

definition dent_ok :: "dent \<Rightarrow> bool" where
  "dent_ok e \<longleftrightarrow> length (snd (snd e)) < 1024"

lemma dent_size_pos [simp]: "0 < procfs_calc_dirent_size name"
  by (simp add: procfs_calc_dirent_size_def)

lemma dents_size_simps [simp]:
  "dents_size [] = 0" "dents_size (e # es) = dent_size e + dents_size es" "dents_size (es @ fs) = dents_size es + dents_size fs"
  by (simp_all add: dents_size_def)

lemma dents_size_nonneg [simp]: "0 \<le> dents_size es"
  by (induction es) (simp_all add: add_nonneg_nonneg less_imp_le)

lemma fitting_le: "fitting es room \<le> length es"
  by (induction es room rule: fitting.induct) auto

lemma length_dirent_bytes:
  assumes "dent_ok e"
  shows "nat (dent_size e) \<le> length (dirent_bytes e sz off)"
proof -
  obtain ty fid name where e: "e = (ty, fid, name)" by (cases e)
  have "length name < 1024" using assms e by (simp add: dent_ok_def)
  then have "(length name + 8) div 8 * 8 \<le> 1024" by presburger
  moreover have "length (dirent_bytes e sz off) = 21 + length name + (1027 - length name)"
    by (simp add: e dirent_bytes_def length_u64_bytes)
  ultimately show ?thesis using \<open>length name < 1024\<close> e
    by (simp add: procfs_calc_dirent_size_def nat_le_iff add.commute)
qed

text \<open>Entries before the start offset are skipped, the rest delivered as far as they fit.\<close>

lemma emit_deliver:
  assumes "uiomove_out_law (kio_move K)" "uiomove_out_nofault (kio_move K)" "start \<le> rd_pos st"
  shows "emit K start e st = (if dent_size e \<le> uio_resid (rd_uio st)
     then (Proceed, st\<lparr>rd_pos := rd_pos st + dent_size e, rd_num := rd_num st + 1,
       rd_uio := uio_push (encode_dents (rd_pos st) [e]) (rd_uio st)\<rparr>)
     else (Stop 0, st))"
proof -
  have "kio_move K (dirent_bytes e (dent_size e) off) (dent_size e) u =
      (0, uio_push (take (nat (dent_size e)) (dirent_bytes e (dent_size e) off)) u)"
    if "dent_size e \<le> uio_resid u" for off u
    using that by (simp add: uiomove_outD [OF assms(1,2)] move_len_def min_absorb1)
  then show ?thesis
    using assms(3) dent_size_pos [of "snd (snd e)"]
    by (auto simp: emit_def procfs_copyout_dirent_def Let_def simp del: dent_size_pos)
qed

lemma emit_skip: "rd_pos st < start \<Longrightarrow> emit K start e st = (Proceed, st\<lparr>rd_pos := rd_pos st + dent_size e\<rparr>)"
  by (simp add: emit_def Let_def)

lemma encode_length: "list_all dent_ok es \<Longrightarrow> int (length (encode_dents pos es)) = dents_size es"
proof (induction es arbitrary: pos)
  case (Cons e es)
  then have "length (take (nat (dent_size e)) (dirent_bytes e (dent_size e) (pos + dent_size e))) = nat (dent_size e)"
    using length_dirent_bytes by simp
  then show ?case using Cons dent_size_pos [of "snd (snd e)"] by (simp del: dent_size_pos)
qed simp

lemma emit_all_deliver:
  assumes "uiomove_out_law (kio_move K)" "uiomove_out_nofault (kio_move K)"
  shows "start \<le> rd_pos st \<Longrightarrow> list_all dent_ok es \<Longrightarrow>
    emit_all K start es st = (let n = fitting es (uio_resid (rd_uio st)) in
      (if n = length es then Proceed else Stop 0,
       st\<lparr>rd_pos := rd_pos st + dents_size (take n es), rd_num := rd_num st + n,
         rd_uio := uio_push (encode_dents (rd_pos st) (take n es)) (rd_uio st)\<rparr>))"
proof (induction es arbitrary: st)
  case (Cons e es)
  have len: "int (length (take (nat (dent_size e)) (dirent_bytes e (dent_size e) (rd_pos st + dent_size e)))) = dent_size e"
    using encode_length [of "[e]" "rd_pos st"] Cons.prems by simp
  show ?case
  proof (cases "dent_size e \<le> uio_resid (rd_uio st)")
    case True
    then show ?thesis
      using emit_deliver [OF assms Cons.prems(1), of e] Cons.prems len dent_size_pos [of "snd (snd e)"]
      by (simp add: Cons.IH Let_def add.assoc del: dent_size_pos)
  next
    case False
    then show ?thesis using emit_deliver [OF assms Cons.prems(1), of e] by (simp add: Let_def)
  qed
qed simp

lemma emit_all_skip:
  "start = rd_pos st + dents_size es \<Longrightarrow> emit_all K start (es @ fs) st = emit_all K start fs (st\<lparr>rd_pos := start\<rparr>)"
proof (induction es arbitrary: st)
  case (Cons e es)
  have "0 < dent_size e + dents_size es" by (rule add_pos_nonneg) simp_all
  then have "rd_pos st < start" using Cons.prems by simp
  then show ?case using Cons by (simp add: emit_skip add.assoc)
qed simp

lemma emit_all_append:
  "emit_all K start (es @ fs) st = (case emit_all K start es st of
     (Stop error, st') \<Rightarrow> (Stop error, st') | (Proceed, st') \<Rightarrow> emit_all K start fs st')"
  by (induction es arbitrary: st) (auto split: prod.splits rd_flow.splits)

text \<open>
  The list that lookup and readdir are compared with: the children that are neither hidden nor
  protected, with the run-time entries in the place of the marker.
\<close>

definition sysctl_dent :: "vfs_env \<Rightarrow> pfsnode \<Rightarrow> cstring \<times> bool \<times> u64 \<Rightarrow> dent" where
  "sysctl_dent E dir c = (case c of (name, is_node, objid) \<Rightarrow>
     (if is_node then DT_DIR else DT_REG, procfs_get_fileid PRNODE_NO_PID objid (psn_base_node_id (snode_of E dir)), name))"

definition child_hidden :: "vfs_env \<Rightarrow> pfsnode \<Rightarrow> sptr \<Rightarrow> bool" where
  "child_hidden E dir c \<longleftrightarrow> version_gate (ve_version E) (psn_name (ve_heap E ! c)) \<or>
     (nodeid_pid (node_id dir) \<noteq> PRNODE_NO_PID \<and> check_access E \<and>
      procfs_check_can_access_proc_pid (ve_proc_find E) (ve_cred E) (nodeid_pid (node_id dir)) \<noteq> 0)"

definition runtime_entries :: "vfs_env \<Rightarrow> pfsnode \<Rightarrow> pfssnode \<Rightarrow> dent list" where
  "runtime_entries E dir snode =
     (let ty = psn_node_type snode; pid = nodeid_pid (node_id dir) in
      if ty = PFSproc \<or> ty = PFSprocnamedir then proc_entries E snode
      else (case ve_proc_find E pid of None \<Rightarrow> []
        | Some p \<Rightarrow> if ty = PFSthread
            then thread_entries snode pid (case thread_ids E p of Inl _ \<Rightarrow> [] | Inr ids \<Rightarrow> ids)
            else fd_entries snode pid (case fd_list E p of Inl _ \<Rightarrow> [] | Inr fds \<Rightarrow> fds)))"

definition child_entries :: "vfs_env \<Rightarrow> pfsnode \<Rightarrow> sptr \<Rightarrow> dent list" where
  "child_entries E dir c =
     (if child_hidden E dir c then []
      else if dynamic_type (psn_node_type (ve_heap E ! c)) then runtime_entries E dir (ve_heap E ! c)
      else [static_entry E dir (ve_heap E ! c)])"

definition dir_entries :: "vfs_env \<Rightarrow> pfsnode \<Rightarrow> dent list" where
  "dir_entries E dir =
     (if psn_node_type (snode_of E dir) = PFSsysctl
      then dot_entries E dir @ map (sysctl_dent E dir) (sysctl_entries (ve_oids E) (nodeid_objectid (node_id dir)))
      else concat (map (child_entries E dir) (psn_children (snode_of E dir))))"

text \<open>The process of the directory exists and its thread list can be had, where they are needed.\<close>

definition child_ready :: "vfs_env \<Rightarrow> pfsnode \<Rightarrow> sptr \<Rightarrow> bool" where
  "child_ready E dir c \<longleftrightarrow> (let ty = psn_node_type (ve_heap E ! c) in
     ty \<noteq> PFSroot \<and>
     (ty = PFSthread \<longrightarrow> (\<exists>p ids. ve_proc_find E (nodeid_pid (node_id dir)) = Some p \<and> thread_ids E p = Inr ids)) \<and>
     (ty = PFSfd \<longrightarrow> ve_proc_find E (nodeid_pid (node_id dir)) \<noteq> None))"

text \<open>Only the last child is a marker for run-time entries.\<close>

definition marker_last :: "pfssnode list \<Rightarrow> sptr list \<Rightarrow> bool" where
  "marker_last h cs \<longleftrightarrow> sorted_wrt (\<lambda>c d. \<not> dynamic_type (psn_node_type (h ! c))) cs"

lemma emit_full:
  "uio_resid (rd_uio st) \<le> 0 \<Longrightarrow> start \<le> rd_pos st \<Longrightarrow> snd (emit_all K start es st) = st"
  by (cases es) (auto simp: emit_def procfs_copyout_dirent_def Let_def not_le dest: less_le_trans [OF dent_size_pos])

lemma emit_cases:
  assumes "uiomove_out_law (kio_move K)" "uiomove_out_nofault (kio_move K)"
    and "0 < uio_resid (rd_uio st) \<or> start \<le> rd_pos st"
  obtains st' where "emit K start e st = (Stop 0, st')"
  | st' where "emit K start e st = (Proceed, st')" "0 < uio_resid (rd_uio st') \<or> start \<le> rd_pos st'"
proof (cases "start \<le> rd_pos st")
  case True
  then show thesis
    using that emit_deliver [OF assms(1,2) True, of e] dent_size_pos [of "snd (snd e)"]
    by (auto split: if_splits simp del: dent_size_pos)
next
  case False
  then show thesis using that assms(3) emit_skip [of st start K e] by auto
qed

lemma emit_all_flow:
  assumes "uiomove_out_law (kio_move K)" "uiomove_out_nofault (kio_move K)"
  shows "0 < uio_resid (rd_uio st) \<or> start \<le> rd_pos st \<Longrightarrow> fst (emit_all K start es st) \<in> {Proceed, Stop 0}"
proof (induction es arbitrary: st)
  case (Cons e es)
  show ?case
  proof (cases rule: emit_cases [OF assms Cons.prems, where e = e])
    case (2 st')
    then show ?thesis using Cons.IH [of st'] by simp
  qed simp
qed simp

text \<open>The three kinds of turns of the loop.\<close>

lemma readdir_skip:
  "0 < uio_resid (rd_uio st) \<Longrightarrow> child_hidden E dir c \<Longrightarrow>
   readdir_loop E dir start (c # cs) st = readdir_loop E dir start cs st"
  by (auto simp: child_hidden_def version_hidden_gate Let_def)

lemma readdir_static:
  "0 < uio_resid (rd_uio st) \<Longrightarrow> \<not> child_hidden E dir c \<Longrightarrow> child_ready E dir c \<Longrightarrow>
   \<not> dynamic_type (psn_node_type (ve_heap E ! c)) \<Longrightarrow>
   readdir_loop E dir start (c # cs) st = (case emit (ve_kio E) start (static_entry E dir (ve_heap E ! c)) st of
       (Stop error, st') \<Rightarrow> Some (error, False, st')
     | (Proceed, st') \<Rightarrow> readdir_loop E dir start cs st')"
  by (auto simp: child_hidden_def child_ready_def dynamic_type_def version_hidden_gate Let_def)

lemma readdir_marker:
  "0 < uio_resid (rd_uio st) \<Longrightarrow> \<not> child_hidden E dir c \<Longrightarrow> child_ready E dir c \<Longrightarrow>
   dynamic_type (psn_node_type (ve_heap E ! c)) \<Longrightarrow>
   \<exists>eof. readdir_loop E dir start (c # cs) st = (case emit_all (ve_kio E) start (runtime_entries E dir (ve_heap E ! c)) st of
       (Stop error, st') \<Rightarrow> Some (error, False, st')
     | (Proceed, st') \<Rightarrow> Some (0, eof, st'))"
  by (auto simp: child_hidden_def child_ready_def dynamic_type_def runtime_entries_def version_hidden_gate Let_def
      split: prod.splits rd_flow.splits)

declare readdir_loop.simps(2) [simp del]

lemma emit_all_inv:
  assumes "uiomove_out_law (kio_move K)" "uiomove_out_nofault (kio_move K)"
  shows "0 < uio_resid (rd_uio st) \<or> start \<le> rd_pos st \<Longrightarrow> emit_all K start es st = (Proceed, st') \<Longrightarrow>
    0 < uio_resid (rd_uio st') \<or> start \<le> rd_pos st'"
proof (induction es arbitrary: st)
  case (Cons e es)
  show ?case
  proof (cases rule: emit_cases [OF assms Cons.prems(1), where e = e])
    case (2 st1)
    then show ?thesis using Cons.IH [of st1] Cons.prems(2) by simp
  qed (use Cons.prems(2) in simp)
qed simp

lemma readdir_loop_entries:
  assumes "uiomove_out_law (kio_move (ve_kio E))" "uiomove_out_nofault (kio_move (ve_kio E))"
  shows "marker_last (ve_heap E) cs \<Longrightarrow> list_all (child_ready E dir) cs \<Longrightarrow> 0 < uio_resid (rd_uio st) \<or> start \<le> rd_pos st \<Longrightarrow>
    \<exists>eof. readdir_loop E dir start cs st =
      Some (0, eof, snd (emit_all (ve_kio E) start (concat (map (child_entries E dir) cs)) st)) \<and>
    (eof \<longrightarrow> fst (emit_all (ve_kio E) start (concat (map (child_entries E dir) cs)) st) = Proceed)"
proof (induction cs arbitrary: st)
  case (Cons c cs)
  let ?snode = "ve_heap E ! c"
  have ready: "child_ready E dir c" "list_all (child_ready E dir) cs" "marker_last (ve_heap E) cs"
    using Cons.prems(1,2) by (simp_all add: marker_last_def)
  consider (full) "uio_resid (rd_uio st) \<le> 0"
    | (skip) "0 < uio_resid (rd_uio st)" "child_hidden E dir c"
    | (marker) "0 < uio_resid (rd_uio st)" "\<not> child_hidden E dir c" "dynamic_type (psn_node_type ?snode)"
    | (static) "0 < uio_resid (rd_uio st)" "\<not> child_hidden E dir c" "\<not> dynamic_type (psn_node_type ?snode)"
    by linarith
  then show ?case
  proof cases
    case full
    then show ?thesis using Cons.prems(3)
      by (intro exI [of _ False]) (simp add: emit_full readdir_loop.simps(2) Let_def)
  next
    case skip
    then show ?thesis using Cons.IH Cons.prems(3) ready(2,3) by (simp add: readdir_skip child_entries_def [of E dir c])
  next
    case marker
    then have "cs = []" using Cons.prems(1) by (cases cs) (auto simp: marker_last_def)
    moreover have "fst (emit_all (ve_kio E) start (runtime_entries E dir ?snode) st) \<in> {Proceed, Stop 0}"
      using emit_all_flow [OF assms Cons.prems(3)] .
    ultimately show ?thesis
      using marker readdir_marker [OF marker(1,2) ready(1) marker(3), of start cs]
      by (cases "emit_all (ve_kio E) start (runtime_entries E dir ?snode) st") (auto simp: child_entries_def)
  next
    case static
    note turn = readdir_static [OF static(1,2) ready(1) static(3), of start cs]
    show ?thesis
    proof (cases rule: emit_cases [OF assms Cons.prems(3), where e = "static_entry E dir ?snode"])
      case (1 st')
      then show ?thesis using static turn by (intro exI [of _ False]) (simp add: child_entries_def)
    next
      case (2 st')
      then show ?thesis using static turn ready(2,3) Cons.IH [of st'] by (simp add: child_entries_def [of E dir c])
    qed
  qed
qed (auto intro: exI [of _ True])

lemma sysctl_loop_entries:
  fixes E :: vfs_env and dir :: pfsnode
  assumes "uiomove_out_law (kio_move (ve_kio E))" "uiomove_out_nofault (kio_move (ve_kio E))"
  defines "es \<equiv> map (sysctl_dent E dir) (sysctl_entries (ve_oids E) (nodeid_objectid (node_id dir)))"
  shows "0 < uio_resid (rd_uio st) \<or> start \<le> rd_pos st \<Longrightarrow>
    \<exists>eof. sysctl_loop E dir start i st = (0, eof, snd (emit_all (ve_kio E) start (drop i es) st)) \<and>
      (eof \<longrightarrow> fst (emit_all (ve_kio E) start (drop i es) st) = Proceed)"
proof (induction "length es - i" arbitrary: i st rule: less_induct)
  case less
  consider (full) "uio_resid (rd_uio st) \<le> 0"
    | (over) "0 < uio_resid (rd_uio st)" "length es \<le> i" | (more) "0 < uio_resid (rd_uio st)" "i < length es"
    by linarith
  then show ?case
  proof cases
    case full
    then show ?thesis using less.prems by (subst sysctl_loop.simps) (auto simp: emit_full)
  next
    case over
    then show ?thesis by (subst sysctl_loop.simps) (auto simp: es_def child_at_entries)
  next
    case more
    let ?c = "sysctl_entries (ve_oids E) (nodeid_objectid (node_id dir)) ! i"
    have e: "es ! i = sysctl_dent E dir ?c"
      and at: "procfs_sysctl_child_at (ve_oids E) (nodeid_objectid (node_id dir)) i = Some ?c"
      using more by (simp_all add: es_def child_at_entries)
    have d: "drop i es = es ! i # drop (Suc i) es" using more(2) by (rule Cons_nth_drop_Suc [symmetric])
    have turn: "sysctl_loop E dir start i st = (case emit (ve_kio E) start (es ! i) st of
        (Stop error, st') \<Rightarrow> (error, False, st') | (Proceed, st') \<Rightarrow> sysctl_loop E dir start (i + 1) st')"
      using more by (subst sysctl_loop.simps) (cases ?c, simp add: at e sysctl_dent_def)
    show ?thesis
    proof (cases rule: emit_cases [OF assms(1,2) less.prems, where e = "es ! i"])
      case (1 st')
      then show ?thesis by (auto simp: turn d)
    next
      case (2 st')
      then show ?thesis using less.hyps [of "Suc i" st'] more by (simp add: turn d)
    qed
  qed
qed

context layout_tree
begin

lemma child_parent: "i < length h \<Longrightarrow> c \<in> set (psn_children (h ! i)) \<longleftrightarrow> c < length h \<and> psn_parent (h ! c) = Some i"
  by (auto simp: children_eq)

lemma children_marker_last:
  assumes "i < length h"
  shows "marker_last h (psn_children (h ! i))"
proof -
  have "sorted_wrt (<) (psn_children (h ! i))"
    unfolding children_eq [OF assms] by (intro sorted_wrt_filter) simp
  then show ?thesis
    unfolding marker_last_def
  proof (rule sorted_wrt_mono_rel [rotated])
    fix c d
    assume "c \<in> set (psn_children (h ! i))" "d \<in> set (psn_children (h ! i))" "c < d"
    then show "\<not> dynamic_type (psn_node_type (h ! c))"
      using siblings [of c d] child_parent [OF assms] by simp
  qed
qed

end

text \<open>The process and the threads behind the run-time entries are there.\<close>

definition dir_ready :: "vfs_env \<Rightarrow> pfsnode \<Rightarrow> bool" where
  "dir_ready E dir \<longleftrightarrow> psn_node_type (snode_of E dir) = PFSsysctl \<or> list_all (child_ready E dir) (psn_children (snode_of E dir))"

lemma readdir_entries:
  assumes "uiomove_out_law (kio_move (ve_kio E))" "uiomove_out_nofault (kio_move (ve_kio E))"
    and "ve_heap E = procfs_heap" "node_structure_node dir < length procfs_heap"
    and "node_vtype E (node_structure_node dir) (node_id dir) = VDIR" "dir_ready E dir" "0 < uio_resid u"
  shows "\<exists>eof. procfs_vnop_readdir E dir u =
      Some (rd_done (0, eof, snd (emit_all (ve_kio E) (uio_offset u) (dir_entries E dir) (rd_init u)))) \<and>
    (eof \<longrightarrow> fst (emit_all (ve_kio E) (uio_offset u) (dir_entries E dir) (rd_init u)) = Proceed)"
proof (cases "psn_node_type (snode_of E dir) = PFSsysctl")
  case False
  then have "list_all (child_ready E dir) (psn_children (snode_of E dir))" using assms(6) by (simp add: dir_ready_def)
  moreover have "marker_last (ve_heap E) (psn_children (snode_of E dir))"
    using procfs.children_marker_last [OF assms(4)] assms(3) by simp
  ultimately show ?thesis
    using readdir_loop_entries [OF assms(1,2), of "psn_children (snode_of E dir)" dir "rd_init u" "uio_offset u"]
      assms(5,7) False by (auto simp: procfs_vnop_readdir_def dir_entries_def rd_init_def)
next
  case True
  obtain fl st where dots: "emit_all (ve_kio E) (uio_offset u) (dot_entries E dir) (rd_init u) = (fl, st)" by fastforce
  have init: "0 < uio_resid (rd_uio (rd_init u)) \<or> uio_offset u \<le> rd_pos (rd_init u)"
    using assms(7) by (simp add: rd_init_def)
  have "fl = Proceed \<or> fl = Stop 0" using emit_all_flow [OF assms(1,2) init, of "dot_entries E dir"] dots by simp
  then show ?thesis
  proof
    assume fl: "fl = Proceed"
    with sysctl_loop_entries [OF assms(1,2) emit_all_inv [OF assms(1,2) init dots [unfolded fl]], of dir 0] dots True assms(5)
    show ?thesis by (auto simp: procfs_vnop_readdir_def procfs_sysctl_readdir_def dir_entries_def emit_all_append)
  next
    assume "fl = Stop 0"
    with dots True assms(5) show ?thesis
      by (auto simp: procfs_vnop_readdir_def procfs_sysctl_readdir_def dir_entries_def emit_all_append)
  qed
qed

end
