(* ===== verification/Paths.thy ===== *)
theory Paths
  imports Directory
begin

text \<open>
  Lookup against listing, and paths from the root. The table of the tree is checked once for the
  facts the proofs need (flags are inherited, names do not begin with a digit, \<open>.\<close> and \<open>..\<close> are so
  named); from them every id a path reaches is well-formed, which gives the access property and
  the way back by \<open>..\<close>, and the scan of lookup finds what readdir lists.
\<close>

section \<open>Facts of the layout table\<close>

text \<open>The rows of the nodes that have children.\<close>

lemma rows_at:
  "procfs_rows ! 0 = (None, ''/'', PFSroot, 0)" "procfs_rows ! 3 = (Some 0, ''byname'', PFSdir, 0)"
  "procfs_rows ! 46 = (Some 0, ''irq'', PFSdir, 0)" "procfs_rows ! 51 = (Some 0, ''tty'', PFSdir, 0)"
  "procfs_rows ! 56 = (Some 0, ''ide'', PFSdir, 0)" "procfs_rows ! 60 = (Some 0, ''video'', PFSdir, 0)"
  "procfs_rows ! 63 = (Some 60, ''bttv'', PFSdir, 0)" "procfs_rows ! 67 = (Some 0, ''scsi'', PFSdir, 0)"
  "procfs_rows ! 71 = (Some 0, ''sysvipc'', PFSdir, 0)" "procfs_rows ! 77 = (Some 0, ''fs'', PFSdir, 0)"
  "procfs_rows ! 80 = (Some 77, ''nfs'', PFSdir, 0)" "procfs_rows ! 84 = (Some 0, ''driver'', PFSdir, 0)"
  "procfs_rows ! 88 = (Some 0, ''bus'', PFSdir, 0)" "procfs_rows ! 91 = (Some 88, ''pci'', PFSdir, 0)"
  "procfs_rows ! 97 = (Some 0, ''net'', PFSdir, 0)" "procfs_rows ! 110 = (Some 3, ''__Process_N__'', PFSprocnamedir, 1)"
  "procfs_rows ! 113 = (Some 0, ''__Process__'', PFSproc, 1)" "procfs_rows ! 116 = (Some 113, ''fd'', PFSdir, 1)"
  "procfs_rows ! 119 = (Some 116, ''__File__'', PFSfd, 1)" "procfs_rows ! 122 = (Some 113, ''threads'', PFSdir, 1)"
  "procfs_rows ! 125 = (Some 122, ''__Thread__'', PFSthread, 3)" "procfs_rows ! 128 = (Some 113, ''task'', PFSdir, 1)"
  "procfs_rows ! 131 = (Some 128, ''__Thread__'', PFSthread, 3)"
  by (simp_all add: rows_defs)

text \<open>
  A row against the row of its parent: flags are inherited and cover the run-time entries, names
  do not begin with a digit, \<open>.\<close> and \<open>..\<close> are so named, and a descriptor directory holds no
  further directories.
\<close>

fun row_ok :: "layout_row \<Rightarrow> bool" where
  "row_ok (None, nm, t, f) \<longleftrightarrow> \<not> is_digit (hd nm) \<and> t = PFSroot \<and> f = 0"
| "row_ok (Some q, nm, t, f) \<longleftrightarrow> (case procfs_rows ! q of (qq, qnm, qt, qf) \<Rightarrow>
     nm \<noteq> [] \<and> \<not> is_digit (hd nm) \<and> t \<noteq> PFSroot \<and>
     (t = PFSdirthis \<longleftrightarrow> nm = ''.'') \<and> (t = PFSdirparent \<longleftrightarrow> nm = ''..'') \<and>
     (f AND PSN_FLAG_PROCESS = 0 \<longrightarrow> qf AND PSN_FLAG_PROCESS = 0) \<and>
     (f AND PSN_FLAG_THREAD = 0 \<longrightarrow> qf AND PSN_FLAG_THREAD = 0) \<and>
     (t = PFSproc \<or> t = PFSprocnamedir \<longrightarrow>
        f AND PSN_FLAG_PROCESS \<noteq> 0 \<and> f AND PSN_FLAG_THREAD = 0 \<and> qf AND PSN_FLAG_PROCESS = 0) \<and>
     (t = PFSthread \<longrightarrow> f AND PSN_FLAG_PROCESS \<noteq> 0 \<and> f AND PSN_FLAG_THREAD \<noteq> 0 \<and> qf AND PSN_FLAG_THREAD = 0) \<and>
     (t = PFSfd \<longrightarrow> f AND PSN_FLAG_PROCESS \<noteq> 0 \<and> qf AND PSN_FLAG_THREAD = 0) \<and>
     (t = PFSsysctl \<longrightarrow> f = 0 \<and> q = 0) \<and>
     qt \<noteq> PFSsysctl \<and>
     (qt = PFSfd \<longrightarrow> t \<in> {PFSdirthis, PFSdirparent, PFSfile}) \<and>
     (case qq of None \<Rightarrow> True | Some q2 \<Rightarrow> fst (snd (snd (procfs_rows ! q2))) \<noteq> PFSfd))"

lemma rows_ok: "list_all row_ok procfs_rows"
proof -
  have "list_all row_ok rows_root" "list_all row_ok rows_root_files" "list_all row_ok rows_device_files"
    "list_all row_ok rows_subdirs" "list_all row_ok rows_net" "list_all row_ok rows_process_dirs"
    "list_all row_ok rows_process_files" "list_all row_ok rows_object_files"
    by (simp_all add: rows_root_def rows_root_files_def rows_device_files_def rows_subdirs_def rows_net_def
        rows_process_dirs_def rows_process_files_def rows_object_files_def rows_at is_digit_def flag_defs)
  then show ?thesis by (simp add: procfs_rows_def)
qed

definition process_node :: "pfssnode \<Rightarrow> bool" where
  "process_node n \<longleftrightarrow> psn_flags n AND PSN_FLAG_PROCESS \<noteq> 0"

definition thread_node :: "pfssnode \<Rightarrow> bool" where
  "thread_node n \<longleftrightarrow> psn_flags n AND PSN_FLAG_THREAD \<noteq> 0"

text \<open>A node type whose nodes, and the files below them, carry a descriptor as object id.\<close>

definition carries_fd :: "pfssnode \<Rightarrow> bool" where
  "carries_fd n \<longleftrightarrow> psn_node_type n = PFSfd \<or>
     (case psn_parent n of None \<Rightarrow> False | Some q \<Rightarrow> psn_node_type (procfs_heap ! q) = PFSfd)"

lemma child_facts:
  assumes "c < length procfs_heap" "psn_parent (procfs_heap ! c) = Some q"
  defines "n \<equiv> procfs_heap ! c" and "d \<equiv> procfs_heap ! q"
  shows "q < length procfs_heap" "psn_name n \<noteq> []" "\<not> is_digit (hd (psn_name n))" "psn_node_type n \<noteq> PFSroot"
    and "psn_node_type n = PFSdirthis \<longleftrightarrow> psn_name n = ''.''" "psn_node_type n = PFSdirparent \<longleftrightarrow> psn_name n = ''..''"
    and "process_node d \<Longrightarrow> process_node n" "thread_node d \<Longrightarrow> thread_node n"
    and "psn_node_type n = PFSproc \<or> psn_node_type n = PFSprocnamedir \<Longrightarrow>
      process_node n \<and> \<not> thread_node n \<and> \<not> process_node d"
    and "psn_node_type n = PFSthread \<Longrightarrow> process_node n \<and> thread_node n \<and> \<not> thread_node d"
    and "psn_node_type n = PFSfd \<Longrightarrow> process_node n \<and> \<not> thread_node d"
    and "psn_node_type n = PFSsysctl \<Longrightarrow> \<not> process_node n \<and> \<not> thread_node n \<and> q = 0"
    and "psn_node_type d \<noteq> PFSsysctl"
    and "psn_node_type d = PFSfd \<Longrightarrow> psn_node_type n \<in> {PFSdirthis, PFSdirparent, PFSfile}"
    and "carries_fd d \<Longrightarrow> psn_node_type d = PFSfd"
proof -
  show q: "q < length procfs_heap" using procfs.parent_lt [OF assms(1,2)] assms(1) by simp
  have row: "procfs_rows ! c = (Some q, psn_name n, psn_node_type n, psn_flags n)"
    using procfs_heap_row [of c] assms(1,2) by (simp add: length_procfs_heap snode_row_def n_def)
  have prow: "procfs_rows ! q = (psn_parent d, psn_name d, psn_node_type d, psn_flags d)"
    using procfs_heap_row [of q] q by (simp add: length_procfs_heap snode_row_def d_def)
  have "row_ok (procfs_rows ! c)" using rows_ok assms(1) by (simp add: list_all_length length_procfs_heap)
  note ok = this [unfolded row, simplified, unfolded prow, simplified]
  from ok show "psn_name n \<noteq> []" "\<not> is_digit (hd (psn_name n))" "psn_node_type n \<noteq> PFSroot"
    "psn_node_type n = PFSdirthis \<longleftrightarrow> psn_name n = ''.''" "psn_node_type n = PFSdirparent \<longleftrightarrow> psn_name n = ''..''"
    "process_node d \<Longrightarrow> process_node n" "thread_node d \<Longrightarrow> thread_node n"
    "psn_node_type n = PFSproc \<or> psn_node_type n = PFSprocnamedir \<Longrightarrow>
      process_node n \<and> \<not> thread_node n \<and> \<not> process_node d"
    "psn_node_type n = PFSthread \<Longrightarrow> process_node n \<and> thread_node n \<and> \<not> thread_node d"
    "psn_node_type n = PFSfd \<Longrightarrow> process_node n \<and> \<not> thread_node d"
    "psn_node_type n = PFSsysctl \<Longrightarrow> \<not> process_node n \<and> \<not> thread_node n \<and> q = 0"
    "psn_node_type d \<noteq> PFSsysctl"
    "psn_node_type d = PFSfd \<Longrightarrow> psn_node_type n \<in> {PFSdirthis, PFSdirparent, PFSfile}"
    by (auto simp: process_node_def thread_node_def)
  have "psn_node_type (procfs_heap ! q2) \<noteq> PFSfd" if "psn_parent d = Some q2" for q2
  proof -
    have "q2 < q" using procfs.parent_lt [OF q] that by (simp add: d_def)
    then have "procfs_rows ! q2 = snode_row (procfs_heap ! q2)" using procfs_heap_row [of q2] q by (simp add: length_procfs_heap)
    with ok that show ?thesis by (simp add: snode_row_def)
  qed
  then show "carries_fd d \<Longrightarrow> psn_node_type d = PFSfd" by (auto simp: carries_fd_def split: option.splits)
qed

section \<open>Paths\<close>

definition may_see :: "vfs_env \<Rightarrow> int \<Rightarrow> bool" where
  "may_see E pid \<longleftrightarrow> (\<exists>p. ve_proc_find E pid = Some p \<and> (check_access E \<longrightarrow> procfs_check_can_access_process (ve_cred E) p = 0))"

text \<open>What a match can be.\<close>

inductive matched :: "vfs_env \<Rightarrow> pfsid \<Rightarrow> cstring \<Rightarrow> match \<Rightarrow> bool" for E :: vfs_env and d :: pfsid and name :: cstring where
  by_name: "name = psn_name (ve_heap E ! c) \<Longrightarrow>
    matched E d name (c, mk_id (nodeid_pid d) (nodeid_objectid d) (psn_base_node_id (ve_heap E ! c)))"
| by_fd: "psn_node_type (ve_heap E ! c) = PFSfd \<Longrightarrow>
    matched E d name (c, mk_id (nodeid_pid d) i (psn_base_node_id (ve_heap E ! c)))"
| by_pid: "psn_node_type (ve_heap E ! c) = PFSproc \<or> psn_node_type (ve_heap E ! c) = PFSprocnamedir \<Longrightarrow> may_see E pid \<Longrightarrow>
    matched E d name (c, mk_id pid (nodeid_objectid d) (psn_base_node_id (ve_heap E ! c)))"
| by_thread: "psn_node_type (ve_heap E ! c) = PFSthread \<Longrightarrow> may_see E (nodeid_pid d) \<Longrightarrow>
    matched E d name (c, mk_id (nodeid_pid d) i (psn_base_node_id (ve_heap E ! c)))"

lemma lookup_proc_matched:
  assumes "lookup_proc E dir name c i = Inr (Some m)"
    and "psn_node_type (ve_heap E ! c) \<in> {PFSproc, PFSprocnamedir, PFSthread}"
  shows "matched E (node_id dir) name m \<and> fst m = c"
  using assms
  by (auto simp: lookup_proc_def Let_def may_see_def split: option.splits sum.splits if_splits
      intro!: matched.by_pid matched.by_thread)

lemma lookup_scan_matched:
  "lookup_scan E dir name cs = Some (Inr (Some m)) \<Longrightarrow> matched E (node_id dir) name m \<and> fst m \<in> set cs"
proof (induction cs)
  case (Cons c cs)
  let ?n = "ve_heap E ! c"
  consider "version_gate (ve_version E) (psn_name ?n)" | "\<not> version_gate (ve_version E) (psn_name ?n)" "name = psn_name ?n"
    | "\<not> version_gate (ve_version E) (psn_name ?n)" "name \<noteq> psn_name ?n" by blast
  then show ?case
  proof cases
    case 1
    then show ?thesis using Cons by (simp add: version_hidden_gate Let_def)
  next
    case 2
    then show ?thesis using Cons.prems by (auto simp: version_hidden_gate Let_def intro: matched.by_name)
  next
    case 3
    then show ?thesis using Cons lookup_proc_matched [of E dir name c _ m]
      by (auto simp: version_hidden_gate Let_def lookup_fd_def split: if_splits prod.splits intro: matched.by_fd)
  qed
qed simp

text \<open>The node of an id, and the ids that paths from the root lead to.\<close>

definition as_node :: "vfs_env \<Rightarrow> match \<Rightarrow> pfsnode" where
  "as_node E m = \<lparr>node_vnode = None, node_attaching_vnode = False, node_thread_waiting_attach = False,
     node_mnt_id = pmnt_id (ve_mount E), node_id = snd m, node_structure_node = fst m\<rparr>"

inductive resolves :: "vfs_env \<Rightarrow> match \<Rightarrow> bool" for E :: vfs_env where
  root: "resolves E (0, PROCFS_ROOT_NODE_ID)"
| step: "resolves E m \<Longrightarrow> node_vtype E (fst m) (snd m) = VDIR \<Longrightarrow>
    lookup_match E (as_node E m) name = Some (Inr (Some m')) \<Longrightarrow> name \<notin> {''.'', ''..''} \<Longrightarrow> resolves E m'"

text \<open>The invariant of ids: the fields a structure node does not use are empty.\<close>

definition id_ok :: "vfs_env \<Rightarrow> match \<Rightarrow> bool" where
  "id_ok E m \<longleftrightarrow> (let n = procfs_heap ! fst m in
     fst m < length procfs_heap \<and> nodeid_base_id (snd m) = psn_base_node_id n \<and>
     (\<not> process_node n \<longrightarrow> nodeid_pid (snd m) = PRNODE_NO_PID) \<and>
     (\<not> thread_node n \<and> \<not> carries_fd n \<and> psn_node_type n \<noteq> PFSsysctl \<longrightarrow> nodeid_objectid (snd m) = PRNODE_NO_OBJECTID) \<and>
     (psn_node_type n = PFSsysctl \<longrightarrow> nodeid_pid (snd m) = PRNODE_NO_PID) \<and>
     (nodeid_pid (snd m) \<noteq> PRNODE_NO_PID \<longrightarrow> may_see E (nodeid_pid (snd m))))"

lemma as_node_simps [simp]: "node_id (as_node E m) = snd m" "node_structure_node (as_node E m) = fst m"
  by (simp_all add: as_node_def)

lemma root_type: "psn_node_type (procfs_heap ! 0) = PFSroot" "psn_flags (procfs_heap ! 0) = 0" "psn_parent (procfs_heap ! 0) = None"
  using procfs_heap_row [of 0] rows_at(1) by (simp_all add: snode_row_def)

lemma root_id_ok: "id_ok E (0, PROCFS_ROOT_NODE_ID)"
proof -
  have "psn_base_node_id (procfs_heap ! 0) = 1"
    using arg_cong [OF init_layout(2), of "\<lambda>xs. xs ! 0"] length_procfs_heap by (simp add: nth_append del: upt_Suc)
  then show ?thesis
    by (simp add: id_ok_def length_procfs_heap root_type PROCFS_ROOT_NODE_ID_def PROCFS_ROOT_NODE_BASE_ID_def
        process_node_def thread_node_def)
qed

lemma matched_id_ok:
  assumes "matched E (snd m) name m'" "ve_heap E = procfs_heap" "id_ok E m"
    and c: "fst m' < length procfs_heap" "psn_parent (procfs_heap ! fst m') = Some (fst m)"
  shows "id_ok E m'"
proof -
  note facts = child_facts [OF c]
  have car: "carries_fd (procfs_heap ! fst m) \<Longrightarrow> carries_fd (procfs_heap ! fst m')"
    using facts(15) c(2) by (auto simp: carries_fd_def)
  show ?thesis
    using assms(1)
  proof cases
    case (by_name c')
    then show ?thesis using facts(7,8,12,13) car c(1) assms(2,3) by (auto simp: id_ok_def Let_def)
  next
    case (by_fd c' i)
    then show ?thesis using facts(11,13) c(1) assms(2,3) by (auto simp: id_ok_def Let_def carries_fd_def)
  next
    case (by_pid c' pid)
    then show ?thesis using facts(8,9,12,13) car c(1) assms(2,3) by (auto simp: id_ok_def Let_def)
  next
    case (by_thread c' i)
    then show ?thesis using facts(10,13) c(1) assms(2,3) by (auto simp: id_ok_def Let_def)
  qed
qed

lemma lookup_match_cases:
  assumes "lookup_match E (as_node E m) name = Some (Inr (Some m'))" "ve_heap E = procfs_heap" "fst m < length procfs_heap"
  obtains (sysctl) i where "psn_node_type (procfs_heap ! fst m) = PFSsysctl"
      "procfs_sysctl_find (ve_oids E) (nodeid_objectid (snd m)) name = Some i"
      "m' = (fst m, mk_id PRNODE_NO_PID i (psn_base_node_id (procfs_heap ! fst m)))"
  | (child) "psn_node_type (procfs_heap ! fst m) \<noteq> PFSsysctl" "matched E (snd m) name m'"
      "fst m' < length procfs_heap" "psn_parent (procfs_heap ! fst m') = Some (fst m)"
proof (cases "psn_node_type (procfs_heap ! fst m) = PFSsysctl")
  case True
  with assms sysctl show thesis by (auto simp: lookup_match_def Let_def split: option.splits)
next
  case False
  with assms(1,2) have "lookup_scan E (as_node E m) name (psn_children (procfs_heap ! fst m)) = Some (Inr (Some m'))"
    by (simp add: lookup_match_def Let_def)
  from lookup_scan_matched [OF this] show thesis
    using child [OF False] procfs.child_parent [OF assms(3)] by simp
qed

lemma resolves_id_ok:
  assumes "ve_heap E = procfs_heap"
  shows "resolves E m \<Longrightarrow> id_ok E m"
proof (induction rule: resolves.induct)
  case root
  show ?case by (rule root_id_ok)
next
  case (step m name m')
  have lt: "fst m < length procfs_heap" using step.IH by (simp add: id_ok_def Let_def)
  from step(3) assms lt show ?case
  proof (cases rule: lookup_match_cases)
    case (sysctl i)
    then show ?thesis using step.IH by (auto simp: id_ok_def Let_def)
  next
    case child
    then show ?thesis using matched_id_ok [of E m name m'] step.IH assms by simp
  qed
qed

lemma find_in_entries:
  assumes "procfs_sysctl_find mib dir name = Some i"
  shows "\<exists>n nd. (n, nd, i) \<in> set (sysctl_entries mib dir)"
proof -
  define name' where "name' = (if dir = 0 \<and> name = ''kernel'' then ''kern'' else name)"
  have "procfs_sysctl_find mib dir name' = Some i"
  proof (cases "dir = 0 \<and> name = ''kernel''")
    case True
    then show ?thesis using assms by (simp add: procfs_sysctl_find_def name'_def)
  next
    case False
    then have "name' = name" by (simp only: name'_def if_False)
    then show ?thesis using assms by simp
  qed
  moreover have "\<not> (dir = 0 \<and> name' = ''kernel'')" by (auto simp: name'_def)
  ultimately obtain e where "List.find (\<lambda>e. fst e = name') (sysctl_entries mib dir) = Some e" "snd (snd e) = i"
    by (auto simp: find_entries)
  then have "e \<in> set (sysctl_entries mib dir)" "snd (snd e) = i" by (auto simp: find_Some_iff)
  then show ?thesis by (metis prod.collapse)
qed

lemma matched_parent_id:
  assumes "matched E (snd m) name m'" "ve_heap E = procfs_heap" "id_ok E m"
    and c: "fst m' < length procfs_heap" "psn_parent (procfs_heap ! fst m') = Some (fst m)"
    and dir: "node_vtype E (fst m') (snd m') = VDIR" "name \<notin> {''.'', ''..''}" "psn_node_type (procfs_heap ! fst m) \<noteq> PFSsysctl"
  shows "procfs_get_parent_node_id procfs_heap (as_node E m') = snd m"
proof -
  note facts = child_facts [OF c]
  have nofd: "psn_node_type (procfs_heap ! fst m) \<noteq> PFSfd"
  proof
    assume fd: "psn_node_type (procfs_heap ! fst m) = PFSfd"
    with facts(14) have ty: "psn_node_type (procfs_heap ! fst m') \<in> {PFSdirthis, PFSdirparent, PFSfile}" .
    from assms(1) show False
    proof cases
      case (by_name c')
      then show ?thesis using ty dir assms(2) facts(5,6) by (auto simp: node_vtype_def procfs_allocvp_def)
    qed (use ty assms(2) in auto)
  qed
  then have obj: "\<not> thread_node (procfs_heap ! fst m) \<Longrightarrow> nodeid_objectid (snd m) = PRNODE_NO_OBJECTID"
    using assms(3) facts(15) dir(3) by (auto simp: id_ok_def Let_def)
  have id: "snd m = mk_id (nodeid_pid (snd m)) (nodeid_objectid (snd m)) (psn_base_node_id (procfs_heap ! fst m))"
    using assms(3) by (simp add: id_ok_def Let_def mk_id_def)
  have "nodeid_pid (snd m') = nodeid_pid (snd m)" if "process_node (procfs_heap ! fst m)"
    using assms(1) that facts(9) assms(2) by cases auto
  moreover have "nodeid_objectid (snd m') = nodeid_objectid (snd m)" if "thread_node (procfs_heap ! fst m)"
    using assms(1) that facts(10,11) assms(2) by cases auto
  moreover have "\<not> process_node (procfs_heap ! fst m) \<Longrightarrow> nodeid_pid (snd m) = PRNODE_NO_PID"
    using assms(3) by (simp add: id_ok_def Let_def)
  ultimately show ?thesis
    using c(2) obj by (subst id) (auto simp: procfs_get_parent_node_id_def Let_def process_node_def thread_node_def)
qed

lemma dotdot_back:
  assumes "ve_heap E = procfs_heap" "mib_ok (ve_oids E)" "id_ok E m"
    and "lookup_match E (as_node E m) name = Some (Inr (Some m'))" "name \<notin> {''.'', ''..''}"
    and "node_vtype E (fst m') (snd m') = VDIR"
  shows "dotdot_id E (as_node E m') = m"
proof -
  have lt: "fst m < length procfs_heap" using assms(3) by (simp add: id_ok_def Let_def)
  from assms(4,1) lt show ?thesis
  proof (cases rule: lookup_match_cases)
    case (sysctl i)
    then obtain n nd where "(n, nd, i) \<in> set (sysctl_entries (ve_oids E) (nodeid_objectid (snd m)))"
      using find_in_entries by blast
    from entry_parent [OF assms(2) this] have par: "procfs_sysctl_parent (ve_oids E) i = Some (nodeid_objectid (snd m))" .
    then have "i \<noteq> 0" by (auto simp: procfs_sysctl_parent_def)
    moreover have "snd m = mk_id PRNODE_NO_PID (nodeid_objectid (snd m)) (psn_base_node_id (procfs_heap ! fst m))"
      using assms(3) sysctl(1) by (simp add: id_ok_def Let_def mk_id_def)
    ultimately show ?thesis using sysctl par assms(1) by (simp add: dotdot_id_def Let_def prod_eq_iff)
  next
    case child
    have "psn_node_type (procfs_heap ! fst m') = PFSsysctl \<Longrightarrow> nodeid_objectid (snd m') = 0"
    proof -
      assume ty: "psn_node_type (procfs_heap ! fst m') = PFSsysctl"
      with child_facts(12) [OF child(3,4)] have "fst m = 0" by simp
      then have "nodeid_objectid (snd m) = 0"
        using assms(3) by (simp add: id_ok_def Let_def thread_node_def carries_fd_def root_type PRNODE_NO_OBJECTID_def)
      with child(2) ty assms(1) show ?thesis by cases auto
    qed
    then show ?thesis
      using matched_parent_id [OF child(2) assms(1,3) child(3,4) assms(6,5) child(1)] child(4) assms(1)
      by (auto simp: dotdot_id_def Let_def prod_eq_iff)
  qed
qed

section \<open>Listing and lookup\<close>

text \<open>
  What the agreement needs of the kernel: a process is found under its own, nonnegative id, and the
  ids of threads and descriptors fit the \<open>int\<close> that \<open>procfs_atoi\<close> returns.
\<close>

definition procs_ok :: "vfs_env \<Rightarrow> bool" where
  "procs_ok E \<longleftrightarrow> (\<forall>pid p. ve_proc_find E pid = Some p \<longrightarrow> 0 \<le> pid \<and> kp_pid p = pid \<and>
     (case thread_ids E p of Inl _ \<Rightarrow> True | Inr ids \<Rightarrow> list_all (\<lambda>i. unat i < 2 ^ 31) ids) \<and>
     (case fd_list E p of Inl _ \<Rightarrow> True | Inr fds \<Rightarrow> list_all (\<lambda>f. 0 \<le> proc_fd f \<and> proc_fd f < 2 ^ 31) fds))"

lemma procs_okD:
  assumes "procs_ok E" "ve_proc_find E pid = Some p"
  shows "0 \<le> pid" "kp_pid p = pid" "thread_ids E p = Inr ids \<Longrightarrow> i \<in> set ids \<Longrightarrow> unat i < 2 ^ 31"
    and "fd_list E p = Inr fds \<Longrightarrow> f \<in> set fds \<Longrightarrow> 0 \<le> proc_fd f \<and> proc_fd f < 2 ^ 31"
proof -
  from assms have "0 \<le> pid \<and> kp_pid p = pid \<and>
     (case thread_ids E p of Inl _ \<Rightarrow> True | Inr ids \<Rightarrow> list_all (\<lambda>i. unat i < 2 ^ 31) ids) \<and>
     (case fd_list E p of Inl _ \<Rightarrow> True | Inr fds \<Rightarrow> list_all (\<lambda>f. 0 \<le> proc_fd f \<and> proc_fd f < 2 ^ 31) fds)"
    unfolding procs_ok_def by blast
  then show "0 \<le> pid" "kp_pid p = pid" "thread_ids E p = Inr ids \<Longrightarrow> i \<in> set ids \<Longrightarrow> unat i < 2 ^ 31"
    "fd_list E p = Inr fds \<Longrightarrow> f \<in> set fds \<Longrightarrow> 0 \<le> proc_fd f \<and> proc_fd f < 2 ^ 31"
    by (auto simp: list_all_iff)
qed

lemma scan_skip:
  "list_all (\<lambda>d. \<not> dynamic_type (psn_node_type (ve_heap E ! d)) \<and> name \<noteq> psn_name (ve_heap E ! d)) cs \<Longrightarrow>
   lookup_scan E dir name (cs @ ds) = lookup_scan E dir name ds"
  by (induction cs) (auto simp: version_hidden_gate dynamic_type_def Let_def)

lemma scan_child:
  assumes "ve_heap E = procfs_heap" "i < length procfs_heap" "c \<in> set (psn_children (procfs_heap ! i))"
    and "name = psn_name (procfs_heap ! c) \<or> is_digit (hd name)"
  shows "\<exists>cs. lookup_scan E dir name (psn_children (procfs_heap ! i)) = lookup_scan E dir name (c # cs)"
proof -
  obtain cs ds where split: "psn_children (procfs_heap ! i) = cs @ c # ds"
    using split_list [OF assms(3)] by blast
  have "sorted_wrt (<) (psn_children (procfs_heap ! i))"
    unfolding procfs.children_eq [OF assms(2)] by (intro sorted_wrt_filter) simp
  then have "d < c" if "d \<in> set cs" for d using that by (simp add: split sorted_wrt_append)
  moreover have kid: "d < length procfs_heap \<and> psn_parent (procfs_heap ! d) = Some i" if "d \<in> set cs \<union> {c}" for d
    using that procfs.child_parent [OF assms(2), of d] by (auto simp: split)
  ultimately have "list_all (\<lambda>d. \<not> dynamic_type (psn_node_type (ve_heap E ! d)) \<and> name \<noteq> psn_name (ve_heap E ! d)) cs"
    using procfs.siblings [of _ c] child_facts(3) [of _ i] assms(1,4) by (auto simp: list_all_iff)
  then show ?thesis using scan_skip [of E name cs dir "c # ds"] split by auto
qed

lemma visible_pids:
  "pid \<in> set (pid_list (procfs_get_pids a pf cs)) \<Longrightarrow>
   \<exists>p. pf pid = Some p \<and> pid < 10 ^ 5 \<and> (\<forall>c. cs = Some c \<longrightarrow> procfs_check_can_access_process c p = 0)"
  by (auto simp: pid_list_def procfs_get_pids_def get_pids_loop_eq proc_visible_def PROCFS_MAX_PID_def
      dest!: in_set_takeD split: option.splits if_splits)

text \<open>A number as an entry prints it, and as lookup reads it.\<close>

lemma printed_number:
  assumes "0 \<le> i" "i < 2 ^ 31"
  shows "snprintf PROCESS_NAME_SIZE (dec_int i) = dec (nat i)" "procfs_atoi (dec (nat i)) = (i, [])" "is_digit (hd (dec (nat i)))"
proof -
  have "length (dec (nat i)) \<le> 10" using assms by (intro dec_length_le) auto
  then show "snprintf PROCESS_NAME_SIZE (dec_int i) = dec (nat i)"
    using assms(1) by (simp add: dec_int_def snprintf_def PROCESS_NAME_SIZE_def)
  show "procfs_atoi (dec (nat i)) = (i, [])" using atoi_dec [of "nat i" "[]"] assms by simp
  show "is_digit (hd (dec (nat i)))" by (rule dec_digits [of _ "nat i"]) simp
qed

lemma printed_name:
  assumes "kp_pid p = i" "0 \<le> i" "i < 10 ^ 5"
  shows "fst (procfs_atoi (procfs_construct_process_dir_name p)) = i" "is_digit (hd (procfs_construct_process_dir_name p))"
proof -
  have "length (dec (nat i)) \<le> 5" using assms by (intro dec_length_le) auto
  then have name: "procfs_construct_process_dir_name p = dec (nat i) @ CHR '' '' # strlcpy (kp_name p) (MAXCOMLEN + 1)"
    using assms by (simp add: procfs_construct_process_dir_name_def dec_int_def snprintf_def PROCESS_NAME_SIZE_def)
  have "\<not> is_digit (CHR '' '')" by (simp add: is_digit_def)
  then show "fst (procfs_atoi (procfs_construct_process_dir_name p)) = i"
    using atoi_dec [of "nat i" "CHR '' '' # strlcpy (kp_name p) (MAXCOMLEN + 1)"] assms by (simp add: name)
  show "is_digit (hd (procfs_construct_process_dir_name p))"
    using dec_digits [of "hd (dec (nat i))" "nat i"] by (simp add: name)
qed

lemma scan_by_name:
  "name = psn_name (ve_heap E ! c) \<Longrightarrow> \<not> version_gate (ve_version E) name \<Longrightarrow> lookup_scan E dir name (c # cs) =
     Some (Inr (Some (c, mk_id (nodeid_pid (node_id dir)) (nodeid_objectid (node_id dir)) (psn_base_node_id (ve_heap E ! c)))))"
  by (simp add: version_hidden_gate Let_def)

lemma scan_by_number:
  assumes "\<not> version_gate (ve_version E) (psn_name (ve_heap E ! c))" "name \<noteq> psn_name (ve_heap E ! c)"
    and "procfs_atoi name = (i, endp)" "i \<noteq> - 1"
  shows "psn_node_type (ve_heap E ! c) = PFSfd \<Longrightarrow> lookup_scan E dir name (c # cs) = Some (lookup_fd E dir name c)"
    and "psn_node_type (ve_heap E ! c) = PFSprocnamedir \<or> psn_node_type (ve_heap E ! c) \<in> {PFSproc, PFSthread} \<and> endp = [] \<Longrightarrow>
      lookup_scan E dir name (c # cs) = Some (lookup_proc E dir name c i)"
  using assms by (auto simp: version_hidden_gate Let_def)

text \<open>
  A run-time entry: its name begins with a digit and reads back as the number under which
  \<open>lookup_fd\<close> or \<open>lookup_proc\<close> finds the node with its file id.
\<close>

definition entry_found :: "vfs_env \<Rightarrow> pfsnode \<Rightarrow> sptr \<Rightarrow> dent \<Rightarrow> bool" where
  "entry_found E dir c e \<longleftrightarrow> (\<exists>i endp nid. let name = snd (snd e); ty = psn_node_type (ve_heap E ! c) in
     is_digit (hd name) \<and> procfs_atoi name = (i, endp) \<and> i \<noteq> - 1 \<and> (ty = PFSprocnamedir \<or> ty = PFSfd \<or> endp = []) \<and>
     (if ty = PFSfd then lookup_fd E dir name c else lookup_proc E dir name c i) = Inr (Some (c, nid)) \<and>
     procfs_get_fileid (nodeid_pid nid) (nodeid_objectid nid) (nodeid_base_id nid) = fst (snd e))"

lemma proc_entry_found:
  assumes "procs_ok E" "psn_node_type (ve_heap E ! c) \<in> {PFSproc, PFSprocnamedir}"
    and "nodeid_objectid (node_id dir) = PRNODE_NO_OBJECTID" "e \<in> set (proc_entries E (ve_heap E ! c))"
  shows "entry_found E dir c e"
proof -
  let ?creds = "if check_access E then Some (ve_cred E) else None"
  obtain pid p where pid: "pid \<in> set (pid_list (procfs_get_pids (fst (ve_alloc E)) (ve_proc_find E) ?creds))"
    and p: "ve_proc_find E pid = Some p"
    and e: "e = (vtype_num VDIR, procfs_get_fileid pid PRNODE_NO_OBJECTID (psn_base_node_id (ve_heap E ! c)),
      if psn_node_type (ve_heap E ! c) = PFSproc then snprintf PROCESS_NAME_SIZE (dec_int pid)
      else procfs_construct_process_dir_name p)"
    using assms(2,4) visible_pids [of _ "fst (ve_alloc E)" "ve_proc_find E" ?creds]
    by (auto simp: proc_entries_def Let_def map_filter_def split: if_splits) blast+
  note ok = procs_okD(1,2) [OF assms(1) p]
  have vis: "pid < 10 ^ 5" "check_access E \<Longrightarrow> procfs_check_can_access_process (ve_cred E) p = 0"
    using visible_pids [OF pid] p by auto
  have lp: "lookup_proc E dir name c pid = Inr (Some (c, mk_id pid PRNODE_NO_OBJECTID (psn_base_node_id (ve_heap E ! c))))"
    if "psn_node_type (ve_heap E ! c) = PFSprocnamedir \<longrightarrow> name = procfs_construct_process_dir_name p" for name
    using assms(2,3) p vis(2) that by (auto simp: lookup_proc_def Let_def)
  show ?thesis
  proof (cases "psn_node_type (ve_heap E ! c) = PFSproc")
    case True
    then show ?thesis using printed_number [of pid] ok vis(1) lp by (auto simp: entry_found_def e Let_def)
  next
    case False
    then show ?thesis
      using printed_name [OF ok(2,1) vis(1)] assms(2) ok lp
      by (cases "procfs_atoi (procfs_construct_process_dir_name p)") (auto simp: entry_found_def e Let_def)
  qed
qed

lemma sint_small:
  fixes i :: u64
  assumes "unat i < 2 ^ 31"
  shows "uint i < 2 ^ 31" "sint i = uint i"
proof -
  have "int (unat i) < int (2 ^ 31)" using assms by (simp only: of_nat_less_iff)
  then have "uint i < int (2 ^ 31)" by (simp only: uint_nat)
  then show "uint i < 2 ^ 31" by simp
  then have "uint i < 2 ^ 63" by simp
  moreover have "- (2 ^ 63) \<le> uint i" by (rule order_trans [OF _ uint_ge_0]) simp
  ultimately show "sint i = uint i" by (simp add: sint_uint signed_take_bit_int_eq_self)
qed

lemma thread_entry_found:
  assumes "procs_ok E" "psn_node_type (ve_heap E ! c) = PFSthread" "\<not> child_hidden E dir c"
    and "e \<in> set (runtime_entries E dir (ve_heap E ! c))"
  shows "entry_found E dir c e"
proof -
  obtain p where p: "ve_proc_find E (nodeid_pid (node_id dir)) = Some p"
    using assms(2,4) by (cases "ve_proc_find E (nodeid_pid (node_id dir))") (simp_all add: runtime_entries_def Let_def)
  obtain ids i where ids: "thread_ids E p = Inr ids" "i \<in> set ids"
    and e: "e = (vtype_num VDIR, procfs_get_fileid (nodeid_pid (node_id dir)) i (psn_base_node_id (ve_heap E ! c)),
      snprintf PROCESS_NAME_SIZE (dec_int (sint i)))"
    using assms(2,4) p by (cases "thread_ids E p") (auto simp: runtime_entries_def thread_entries_def Let_def)
  have ok: "nodeid_pid (node_id dir) \<noteq> PRNODE_NO_PID" "unat i < 2 ^ 31"
    using procs_okD(1,3) [OF assms(1) p] ids by (auto simp: PRNODE_NO_PID_def)
  note i = sint_small [OF ok(2)]
  have "lookup_proc E dir name c (uint i) =
      Inr (Some (c, mk_id (nodeid_pid (node_id dir)) i (psn_base_node_id (ve_heap E ! c))))" for name
    using assms(2,3) p ids ok(1) by (auto simp: lookup_proc_def Let_def child_hidden_def procfs_check_can_access_proc_pid_def)
  moreover have "uint i \<noteq> - 1" by (rule less_imp_neq [THEN not_sym], rule less_le_trans [OF _ uint_ge_0]) simp
  ultimately show ?thesis
    using printed_number [OF uint_ge_0 i(1)] assms(2) by (auto simp: entry_found_def e i(2) Let_def)
qed

lemma fd_entry_found:
  assumes "procs_ok E" "psn_node_type (ve_heap E ! c) = PFSfd"
    and "e \<in> set (runtime_entries E dir (ve_heap E ! c))"
  shows "entry_found E dir c e"
proof -
  obtain p where p: "ve_proc_find E (nodeid_pid (node_id dir)) = Some p"
    using assms(2,3) by (cases "ve_proc_find E (nodeid_pid (node_id dir))") (simp_all add: runtime_entries_def Let_def)
  obtain fds f where f: "fd_list E p = Inr fds" "f \<in> set fds"
    and e: "e = (vtype_num VDIR, procfs_get_fileid (nodeid_pid (node_id dir)) (of_int (proc_fd f)) (psn_base_node_id (ve_heap E ! c)),
      snprintf PROCESS_NAME_SIZE (dec_int (proc_fd f)))"
    using assms(2,3) p by (cases "fd_list E p") (auto simp: runtime_entries_def fd_entries_def Let_def)
  have "0 \<le> proc_fd f" "proc_fd f < 2 ^ 31" using procs_okD(4) [OF assms(1) p] f by auto
  note num = printed_number [OF this] this
  have "lookup_fd E dir (dec (nat (proc_fd f))) c =
      Inr (Some (c, mk_id (nodeid_pid (node_id dir)) (of_int (proc_fd f)) (psn_base_node_id (ve_heap E ! c))))"
    using p f num by (auto simp: lookup_fd_def Let_def)
  then show ?thesis using num assms(2) by (auto simp: entry_found_def e Let_def)
qed

lemma entry_resolves:
  assumes "ve_heap E = procfs_heap" "i < length procfs_heap" "c \<in> set (psn_children (procfs_heap ! i))"
    and "\<not> child_hidden E dir c" "dynamic_type (psn_node_type (procfs_heap ! c))" "entry_found E dir c e"
  shows "\<exists>nid. lookup_scan E dir (snd (snd e)) (psn_children (procfs_heap ! i)) = Some (Inr (Some (c, nid))) \<and>
    procfs_get_fileid (nodeid_pid nid) (nodeid_objectid nid) (nodeid_base_id nid) = fst (snd e)"
proof -
  let ?ty = "psn_node_type (procfs_heap ! c)"
  obtain k endp nid where k: "is_digit (hd (snd (snd e)))" "procfs_atoi (snd (snd e)) = (k, endp)" "k \<noteq> - 1"
    "?ty = PFSprocnamedir \<or> ?ty = PFSfd \<or> endp = []"
    "(if ?ty = PFSfd then lookup_fd E dir (snd (snd e)) c else lookup_proc E dir (snd (snd e)) c k) = Inr (Some (c, nid))"
    "procfs_get_fileid (nodeid_pid nid) (nodeid_objectid nid) (nodeid_base_id nid) = fst (snd e)"
    using assms(1,6) by (auto simp: entry_found_def Let_def)
  obtain cs where cs: "lookup_scan E dir (snd (snd e)) (psn_children (procfs_heap ! i)) = lookup_scan E dir (snd (snd e)) (c # cs)"
    using scan_child [OF assms(1-3)] k(1) by blast
  have "snd (snd e) \<noteq> psn_name (ve_heap E ! c)"
    using child_facts(3) [of c i] procfs.child_parent [OF assms(2), of c] assms(1,3) k(1) by auto
  moreover have "\<not> version_gate (ve_version E) (psn_name (ve_heap E ! c))" using assms(4) by (simp add: child_hidden_def)
  ultimately show ?thesis
    using scan_by_number [OF _ _ k(2,3), of E c dir cs] k(4,5,6) cs assms(1,5) by (auto simp: dynamic_type_def split: if_splits)
qed

lemma static_resolves:
  assumes "ve_heap E = procfs_heap" "i < length procfs_heap" "c \<in> set (psn_children (procfs_heap ! i))"
    and "\<not> child_hidden E dir c" "psn_name (procfs_heap ! c) \<notin> {''.'', ''..''}"
  shows "\<exists>nid. lookup_scan E dir (psn_name (procfs_heap ! c)) (psn_children (procfs_heap ! i)) = Some (Inr (Some (c, nid))) \<and>
    procfs_get_fileid (nodeid_pid nid) (nodeid_objectid nid) (nodeid_base_id nid) = fst (snd (static_entry E dir (procfs_heap ! c)))"
proof -
  have "psn_node_type (procfs_heap ! c) \<notin> {PFSdirthis, PFSdirparent}"
    using child_facts(5,6) [of c i] procfs.child_parent [OF assms(2), of c] assms(3,5) by auto
  moreover have "\<not> version_gate (ve_version E) (psn_name (procfs_heap ! c))" using assms(1,4) by (simp add: child_hidden_def)
  ultimately show ?thesis
    using scan_child [OF assms(1-3), of "psn_name (procfs_heap ! c)" dir] scan_by_name [of "psn_name (procfs_heap ! c)" E c dir] assms(1)
    by (auto simp: static_entry_def Let_def)
qed

lemma list_lookup_agree:
  assumes "ve_heap E = procfs_heap" "procs_ok E" "id_ok E m" "psn_node_type (procfs_heap ! fst m) \<noteq> PFSsysctl"
    and "e \<in> set (dir_entries E (as_node E m))" "snd (snd e) \<notin> {''.'', ''..''}"
  shows "\<exists>m'. lookup_match E (as_node E m) (snd (snd e)) = Some (Inr (Some m')) \<and>
    procfs_get_node_fileid (ve_heap E) (as_node E m') = fst (snd e)"
proof -
  have lt: "fst m < length procfs_heap" using assms(3) by (simp add: id_ok_def Let_def)
  obtain c where c: "c \<in> set (psn_children (procfs_heap ! fst m))" "e \<in> set (child_entries E (as_node E m) c)"
    using assms(1,4,5) by (auto simp: dir_entries_def)
  have kid: "c < length procfs_heap" "psn_parent (procfs_heap ! c) = Some (fst m)"
    using procfs.child_parent [OF lt, of c] c(1) by simp_all
  have vis: "\<not> child_hidden E (as_node E m) c" using c(2) by (auto simp: child_entries_def split: if_splits)
  have "\<exists>nid. lookup_scan E (as_node E m) (snd (snd e)) (psn_children (procfs_heap ! fst m)) = Some (Inr (Some (c, nid))) \<and>
    procfs_get_fileid (nodeid_pid nid) (nodeid_objectid nid) (nodeid_base_id nid) = fst (snd e)"
  proof (cases "dynamic_type (psn_node_type (procfs_heap ! c))")
    case True
    then have e: "e \<in> set (runtime_entries E (as_node E m) (ve_heap E ! c))" using c(2) vis assms(1) by (simp add: child_entries_def)
    have "nodeid_objectid (snd m) = PRNODE_NO_OBJECTID" if "psn_node_type (procfs_heap ! c) \<in> {PFSproc, PFSprocnamedir}"
      using assms(3,4) that child_facts(8,9,14,15) [OF kid] by (auto simp: id_ok_def Let_def)
    then have "entry_found E (as_node E m) c e"
      using True e vis proc_entry_found [OF assms(2), of c "as_node E m" e] thread_entry_found [OF assms(2) _ vis e]
        fd_entry_found [OF assms(2) _ e] assms(1)
      by (auto simp: dynamic_type_def runtime_entries_def Let_def)
    then show ?thesis by (intro entry_resolves [OF assms(1) lt c(1) vis True])
  next
    case False
    then have "e = static_entry E (as_node E m) (procfs_heap ! c)" using c(2) vis assms(1) by (simp add: child_entries_def)
    moreover from this have "snd (snd e) = psn_name (procfs_heap ! c)" by (simp add: static_entry_def Let_def)
    ultimately show ?thesis using static_resolves [OF assms(1) lt c(1) vis] assms(6) by simp
  qed
  then obtain nid where nid: "lookup_match E (as_node E m) (snd (snd e)) = Some (Inr (Some (c, nid)))"
    "lookup_scan E (as_node E m) (snd (snd e)) (psn_children (procfs_heap ! fst m)) = Some (Inr (Some (c, nid)))"
    "procfs_get_fileid (nodeid_pid nid) (nodeid_objectid nid) (nodeid_base_id nid) = fst (snd e)"
    using assms(1,4) by (auto simp: lookup_match_def)
  have "nodeid_base_id nid = psn_base_node_id (procfs_heap ! c)"
    using lookup_scan_matched [OF nid(2)] assms(1) by (auto elim: matched.cases)
  then show ?thesis using nid assms(1) by (auto simp: procfs_get_node_fileid_def)
qed

section \<open>Properties\<close>

text \<open>
  A small system: no daemon, process 1 of user 0 and process 42 of user 501, who is the reader.
\<close>

definition demo_vfs :: vfs_env where
  "demo_vfs = \<lparr>ve_heap = procfs_heap, ve_mount = \<lparr>pmnt_id = 7, pmnt_flags = 0, pmnt_mp = 0, pmnt_mount_time = (0, 0)\<rparr>,
     ve_version = 0,
     ve_proc_find = (\<lambda>pid. if pid = 1 then Some demo_proc
       else if pid = 42 then Some (demo_proc\<lparr>kp_pid := 42, kp_uid := 501\<rparr>) else None),
     ve_ctl = (\<lambda>_ _ _ _ _. Inl ENOTCONN), ve_oids = demo_mib, ve_suser = False, ve_cred = \<lparr>cr_uid = 501, cr_gid = 20\<rparr>,
     ve_alloc = (True, True, True), ve_kio = \<lparr>kio_move = mv_out, kio_beyond = []\<rparr>, ve_move_in = mv_in,
     ve_sysctl = demo_sysctl_env,
     ve_task = \<lparr>te_pidtaskinfo = (\<lambda>_. Inl ESRCH), te_pidthreadinfo = (\<lambda>_ _. Inl ESRCH), te_page_size = 4096, te_alloc = (True, True)\<rparr>,
     ve_now = (0, 0), ve_current = 42, ve_vnode_get = (\<lambda>_. False), ve_vn_getpath = (\<lambda>_ _. None),
     ve_read_fn = (\<lambda>_ _ u. Some (EINVAL, u))\<rparr>"

lemma demo_vfs_simps [simp]:
  "ve_heap demo_vfs = procfs_heap" "ve_version demo_vfs = 0" "ve_cred demo_vfs = \<lparr>cr_uid = 501, cr_gid = 20\<rparr>"
  "ve_proc_find demo_vfs 42 = Some (demo_proc\<lparr>kp_pid := 42, kp_uid := 501\<rparr>)" "ve_oids demo_vfs = demo_mib"
  "ve_kio demo_vfs = \<lparr>kio_move = mv_out, kio_beyond = []\<rparr>" "fst (ve_alloc demo_vfs) = True" "check_access demo_vfs"
  by (simp_all add: demo_vfs_def check_access_def procfs_should_access_check_def)

lemma demo_procs_ok: "procs_ok demo_vfs"
  by (simp add: procs_ok_def demo_vfs_def demo_proc_def procfs_get_thread_ids_for_task_def procfs_get_fd_list_def)

lemma heap_node:
  "i < 175 \<Longrightarrow> procfs_rows ! i = (q, nm, t, f) \<Longrightarrow>
   psn_parent (procfs_heap ! i) = q \<and> psn_name (procfs_heap ! i) = nm \<and> psn_node_type (procfs_heap ! i) = t \<and>
   psn_flags (procfs_heap ! i) = f \<and> psn_base_node_id (procfs_heap ! i) = of_nat (Suc i)"
  using procfs_heap_row [of i] arg_cong [OF init_layout(2), of "\<lambda>xs. xs ! i"] length_procfs_heap
  by (auto simp: snode_row_def simp del: upt_Suc)

lemma row_sys: "procfs_rows ! 26 = (Some 0, ''sys'', PFSsysctl, 0)"
  by (simp add: rows_defs)

lemmas demo_nodes = heap_node [OF _ rows_at(1), simplified] heap_node [OF _ row_sys, simplified] heap_node [OF _ rows_at(17), simplified]

lemma demo_lookup:
  "lookup_match demo_vfs (as_node demo_vfs (0, PROCFS_ROOT_NODE_ID)) ''42'' = Some (Inr (Some (113, mk_id 42 0 114)))"
proof -
  have "113 \<in> set (psn_children (procfs_heap ! 0))"
    using procfs.child_parent [of 0 113] demo_nodes length_procfs_heap by simp
  then obtain cs where "lookup_match demo_vfs (as_node demo_vfs (0, PROCFS_ROOT_NODE_ID)) ''42'' =
      lookup_scan demo_vfs (as_node demo_vfs (0, PROCFS_ROOT_NODE_ID)) ''42'' (113 # cs)"
    using scan_child [of demo_vfs 0 113 "''42''"] demo_nodes length_procfs_heap
    by (auto simp: lookup_match_def is_digit_def)
  moreover have "procfs_atoi ''42'' = (42, [])" by code_simp
  ultimately show ?thesis
    using demo_nodes by (simp add: version_hidden_gate version_gate_def lookup_proc_def Let_def PROCFS_ROOT_NODE_ID_def
        procfs_check_can_access_process_def PRNODE_NO_OBJECTID_def)
qed

lemma demo_resolves: "resolves demo_vfs (113, mk_id 42 0 114)"
proof (rule resolves.step [OF resolves.root _ demo_lookup])
  show "node_vtype demo_vfs (fst (0, PROCFS_ROOT_NODE_ID)) (snd (0, PROCFS_ROOT_NODE_ID)) = VDIR"
    using demo_nodes(1) by (simp add: node_vtype_def procfs_allocvp_def)
qed simp

text \<open>
  C4: reading a directory in pieces delivers it whole. A \<open>readdir\<close> that resumes at the offset
  behind the first \<open>k\<close> entries copies out exactly the entries from there on that fit into the
  buffer, as packed \<open>direntry\<close> records, and leaves the offset behind the last of them, where the
  next call goes on; and when it reports the end, no entry is left. This holds of every directory
  of the tree, the run-time entries of processes, threads and descriptors and the directories of
  \<open>/proc/sys\<close> included.
\<close>

theorem readdir_resumes:
  assumes "uiomove_out_law (kio_move (ve_kio E))" "uiomove_out_nofault (kio_move (ve_kio E))"
    and "ve_heap E = procfs_heap" "node_structure_node dir < length procfs_heap"
    and "node_vtype E (node_structure_node dir) (node_id dir) = VDIR" "dir_ready E dir" "list_all dent_ok (dir_entries E dir)"
    and "k \<le> length (dir_entries E dir)" "uio_offset u = dents_size (take k (dir_entries E dir))" "0 < uio_resid u"
  shows "\<exists>eof u'. let es = dir_entries E dir; n = fitting (drop k es) (uio_resid u) in
    procfs_vnop_readdir E dir u = Some (0, eof, n, u') \<and>
    u' = uio_push (encode_dents (uio_offset u) (take n (drop k es))) u \<and>
    uio_offset u' = dents_size (take (k + n) es) \<and> (eof \<longrightarrow> k + n = length es)"
proof -
  let ?es = "dir_entries E dir" and ?start = "uio_offset u"
  let ?n = "fitting (drop k ?es) (uio_resid u)"
  let ?u = "uio_push (encode_dents ?start (take ?n (drop k ?es))) u"
  have ok: "list_all dent_ok (drop k ?es)" "list_all dent_ok (take ?n (drop k ?es))"
    using assms(7) by (auto simp: list_all_iff dest: in_set_takeD in_set_dropD)
  have emit: "emit_all (ve_kio E) ?start ?es (rd_init u) =
     (if ?n = length (drop k ?es) then Proceed else Stop 0,
      \<lparr>rd_pos = ?start + dents_size (take ?n (drop k ?es)), rd_num = ?n, rd_uio = ?u\<rparr>)"
    using emit_all_skip [of ?start "rd_init u" "take k ?es" "ve_kio E" "drop k ?es"] assms(9)
      emit_all_deliver [OF assms(1,2) _ ok(1), of ?start "rd_init u\<lparr>rd_pos := ?start\<rparr>"]
    by (simp add: rd_init_def Let_def)
  have off: "uio_offset ?u = ?start + dents_size (take ?n (drop k ?es))"
    using encode_length [OF ok(2), of ?start] by (simp add: uio_push_def)
  also have "\<dots> = dents_size (take (k + ?n) ?es)" by (simp add: assms(9) take_add)
  finally have "uio_offset ?u = dents_size (take (k + ?n) ?es)" .
  moreover have "?u\<lparr>uio_offset := ?start + dents_size (take ?n (drop k ?es))\<rparr> = ?u" using off by simp
  ultimately show ?thesis
    using readdir_entries [OF assms(1-6,10)] emit assms(8) by (auto simp: rd_done_def Let_def split: if_splits)
qed

definition demo_vm :: match where
  \<comment> \<open>\<open>/proc/sys/vm\<close>\<close>
  "demo_vm = (26, mk_id PRNODE_NO_PID 8192 27)"

lemma demo_vm_simps [simp]: "fst demo_vm = 26" "snd demo_vm = mk_id PRNODE_NO_PID 8192 27"
  by (simp_all add: demo_vm_def)

lemma demo_vm_entries:
  "dir_entries demo_vfs (as_node demo_vfs demo_vm) =
     dot_entries demo_vfs (as_node demo_vfs demo_vm) @ [(DT_REG, procfs_get_fileid PRNODE_NO_PID 8256 27, ''loadavg'')]"
proof -
  have "sysctl_entries demo_mib 8192 = [(''loadavg'', False, 8256)]" by code_simp
  then show ?thesis using demo_nodes(2) by (simp add: dir_entries_def sysctl_dent_def)
qed

theorem readdir_resumes_witness:
  "\<exists>eof u'. procfs_vnop_readdir demo_vfs (as_node demo_vfs demo_vm)
       \<lparr>uio_rw = UIO_READ, uio_offset = 64, uio_resid = 100, uio_user = []\<rparr> = Some (0, eof, 1, u') \<and>
     uio_offset u' = 96 \<and>
     uio_user u' = encode_dents 64 [(DT_REG, procfs_get_fileid PRNODE_NO_PID 8256 27, ''loadavg'')]"
proof -
  let ?u = "\<lparr>uio_rw = UIO_READ, uio_offset = 64, uio_resid = 100, uio_user = []\<rparr>"
  have "procfs_sysctl_is_node demo_mib 8192" by code_simp
  then show ?thesis
    using readdir_resumes [of demo_vfs "as_node demo_vfs demo_vm" 2 ?u] demo_nodes(2)
    by (auto simp: demo_vm_entries dot_entries_def procfs_calc_dirent_size_def dent_ok_def dir_ready_def node_vtype_def
        length_procfs_heap uio_push_def Let_def simp del: encode_dents.simps)
qed


lemma demo_listed:
  "(2, procfs_get_fileid 42 0 114, ''42'') \<in> set (dir_entries demo_vfs (as_node demo_vfs (0, PROCFS_ROOT_NODE_ID)))"
proof -
  let ?root = "as_node demo_vfs (0, PROCFS_ROOT_NODE_ID)"
  let ?xs = "filter (proc_visible (ve_proc_find demo_vfs) (Some \<lparr>cr_uid = 501, cr_gid = 20\<rparr>)) [0..<Suc PROCFS_MAX_PID]"
  have vis: "proc_visible (ve_proc_find demo_vfs) (Some \<lparr>cr_uid = 501, cr_gid = 20\<rparr>) n \<longleftrightarrow> n = 42" for n
    by (auto simp: proc_visible_def demo_vfs_def demo_proc_def procfs_check_can_access_process_def)
  have "set ?xs = {42}" by (auto simp: vis PROCFS_MAX_PID_def)
  then have "length ?xs = 1" using distinct_card [of ?xs] by (simp del: upt_Suc)
  with \<open>set ?xs = {42}\<close> have "?xs = [42]" by (cases ?xs) (auto simp del: upt_Suc)
  then have "pid_list (procfs_get_pids True (ve_proc_find demo_vfs) (Some \<lparr>cr_uid = 501, cr_gid = 20\<rparr>)) = [42]"
    by (simp add: procfs_get_pids_def get_pids_loop_eq pid_list_def PROCFS_MAX_PROCS_def del: upt_Suc)
  moreover have "snprintf PROCESS_NAME_SIZE (dec_int 42) = ''42''" by code_simp
  ultimately have "(2, procfs_get_fileid 42 0 114, ''42'') \<in> set (child_entries demo_vfs ?root 113)"
    using demo_nodes by (simp add: child_entries_def child_hidden_def version_gate_def PROCFS_ROOT_NODE_ID_def
        dynamic_type_def runtime_entries_def proc_entries_def Let_def PRNODE_NO_OBJECTID_def)
  moreover have "113 \<in> set (psn_children (procfs_heap ! 0))"
    using procfs.child_parent [of 0 113] demo_nodes length_procfs_heap by simp
  ultimately show ?thesis using demo_nodes(1) by (auto simp: dir_entries_def)
qed


text \<open>
  C3: no path leads to a process the caller may not see. Whatever node names after names reach
  from the root, if its id carries a process id then that process exists, and when the mount
  checks access and the caller is not the superuser, the caller's credentials match its own.
\<close>

theorem paths_respect_access:
  assumes "ve_heap E = procfs_heap" "resolves E (s, nid)" "nodeid_pid nid \<noteq> PRNODE_NO_PID"
  shows "\<exists>p. ve_proc_find E (nodeid_pid nid) = Some p \<and>
    (ve_suser E \<or> pmnt_flags (ve_mount E) AND PROCFS_MOPT_NOPROCPERMS \<noteq> 0 \<or>
     cr_uid (ve_cred E) \<in> {kp_uid p, kp_ruid p} \<or> cr_gid (ve_cred E) \<in> {kp_gid p, kp_rgid p})"
proof -
  from resolves_id_ok [OF assms(1,2)] assms(3) have "may_see E (nodeid_pid nid)" by (simp add: id_ok_def Let_def)
  then show ?thesis
    by (auto simp: may_see_def check_access_def procfs_should_access_check_def procfs_check_can_access_process_def Let_def
        split: if_splits)
qed

theorem paths_respect_access_witness:
  "\<exists>p. ve_proc_find demo_vfs 42 = Some p \<and>
     (cr_uid (ve_cred demo_vfs) \<in> {kp_uid p, kp_ruid p} \<or> cr_gid (ve_cred demo_vfs) \<in> {kp_gid p, kp_rgid p})"
  using paths_respect_access [OF _ demo_resolves]
  by (simp add: PRNODE_NO_PID_def demo_vfs_def)

text \<open>
  C12: \<open>..\<close> undoes a lookup. In a directory that was found under a name in another directory, \<open>..\<close>
  is the directory it was found in, with its process and object: for the directories of a process,
  of its threads and descriptors, and for the nested directories of \<open>/proc/sys\<close>.
\<close>

theorem dotdot_undoes_lookup:
  assumes "ve_heap E = procfs_heap" "mib_ok (ve_oids E)" "resolves E m" "name \<notin> {''.'', ''..''}"
    and "lookup_match E (as_node E m) name = Some (Inr (Some m'))" "node_vtype E (fst m') (snd m') = VDIR"
  shows "dotdot_id E (as_node E m') = m"
  using assms(4-6) by (intro dotdot_back [OF assms(1,2) resolves_id_ok [OF assms(1,3)]])

theorem dotdot_undoes_lookup_witness:
  "dotdot_id demo_vfs (as_node demo_vfs (113, mk_id 42 0 114)) = (0, PROCFS_ROOT_NODE_ID)"
  using dotdot_undoes_lookup [OF _ _ resolves.root _ demo_lookup] demo_nodes demo_mib_ok
  by (simp add: node_vtype_def procfs_allocvp_def)

end
