(* ===== verification/Vfsops.thy ===== *)
theory Vfsops
  imports Paths
begin

text \<open>
  Mounting and the root vnode (\<open>kext/procfs_vfsops.c\<close>), and loading and unloading of the kext
  (\<open>kext/procfs.c\<close>). Lookup on vnodes, through the node table, is shown to refine the lookup on node
  ids of \<open>Paths\<close>; a mount and its unmount are shown to balance.
\<close>

section \<open>Mounts\<close>

record vfsstatfs =
  f_bsize :: nat
  f_iosize :: nat
  f_blocks :: nat
  f_bfree :: nat
  f_bavail :: nat
  f_bused :: nat
  f_files :: nat
  f_ffree :: nat
  f_fsid :: "int \<times> int"
  f_owner :: u32
  f_mntfromname :: cstring

record vfs_attr =
  fa_objcount :: nat
  fa_filecount :: nat
  fa_dircount :: nat
  fa_maxobjcount :: nat
  fa_bsize :: nat
  fa_iosize :: nat
  fa_blocks :: nat
  fa_bfree :: nat
  fa_bavail :: nat
  fa_bused :: nat
  fa_files :: nat
  fa_ffree :: nat
  fa_fsid :: "int \<times> int"
  fa_owner :: u32
  fa_create_time :: "int \<times> int"
  fa_modify_time :: "int \<times> int"
  fa_access_time :: "int \<times> int"

text \<open>
  The static data of the file and what hangs off the kernel's mount structures, which are numbers:
  the \<open>pfsmount_t\<close> set with \<open>vfs_setfsprivate\<close>, the flags and the statfs data. The structure tree and
  the node table are shared by all mounts; \<open>ms_buckets\<close> says whether the hash buckets exist.
\<close>

record mount_sys =
  ms_mount_id :: int
  ms_instances :: int
  ms_private :: "nat \<Rightarrow> pfsmount option"
  ms_flags :: "nat \<Rightarrow> u32"
  ms_statfs :: "nat \<Rightarrow> vfsstatfs"
  ms_store :: pfs_store
  ms_buckets :: bool
  ms_nodes :: node_table

text \<open>
  What a call meets: the memory \<open>OSMalloc\<close> returns with whatever it held before, the time, the type
  number of the file system, and the vnodes that \<open>vflush\<close> reclaims, in their order.
\<close>

record mount_env =
  me_malloc :: "pfsmount option"
  me_now :: "int \<times> int"
  me_typenum :: int
  me_vflush :: "nat \<Rightarrow> node_table \<Rightarrow> nat list"

definition BLOCK_SIZE :: nat where "BLOCK_SIZE = 4096"
definition MOUNTED_DEVICE_NAME :: cstring where "MOUNTED_DEVICE_NAME = ''proc''"
definition PROCFS_MNT_FLAGS :: u32 where
  \<comment> \<open>\<open>MNT_NOSUID|MNT_NOEXEC|MNT_NODEV|MNT_NOATIME|MNT_LOCAL\<close>\<close>
  "PROCFS_MNT_FLAGS = 0x8 OR 0x4 OR 0x10 OR 0x10000000 OR 0x1000"

definition populate_statfs_info :: "mount_env \<Rightarrow> pfsmount \<Rightarrow> int \<Rightarrow> vfsstatfs \<Rightarrow> vfsstatfs" where
  "populate_statfs_info M pmp instances s = s
     \<lparr>f_bsize := BLOCK_SIZE, f_iosize := BLOCK_SIZE, f_blocks := 0, f_bfree := 0, f_bavail := 0, f_bused := 0,
      f_files := 0, f_ffree := 0, f_fsid := (pmnt_id pmp, me_typenum M),
      f_mntfromname := (if instances = 1 then MOUNTED_DEVICE_NAME
        else snprintf (MAXPATHLEN - 1) (MOUNTED_DEVICE_NAME @ dec_int instances))\<rparr>"

text \<open>\<open>data\<close> is the argument of \<open>mount(2)\<close>: no address, an address that faults, or the options.\<close>

definition mount_options :: "int res option \<Rightarrow> int" where
  "mount_options data = (case data of Some (Inr mnt_options) \<Rightarrow> mnt_options | _ \<Rightarrow> 0)"

definition procfs_mount :: "mount_env \<Rightarrow> nat \<Rightarrow> int res option \<Rightarrow> mount_sys \<Rightarrow> errno \<times> mount_sys" where
  "procfs_mount M mp data st =
     (if ms_private st mp \<noteq> None then (0, st)
      else let mnt_options = mount_options data in
        (case me_malloc M of None \<Rightarrow> (ENOMEM, st)
         | Some fresh \<Rightarrow>
             let mount_id = int32 (ms_mount_id st + 1);
                 pmp = fresh\<lparr>pmnt_id := mount_id, pmnt_mp := mp, pmnt_mount_time := me_now M\<rparr>;
                 instances = int32 (ms_instances st + 1)
             in (0, st\<lparr>ms_mount_id := mount_id, ms_instances := instances,
                  ms_private := (ms_private st)(mp := Some pmp),
                  ms_flags := (ms_flags st)(mp := ms_flags st mp OR PROCFS_MNT_FLAGS),
                  ms_statfs := (ms_statfs st)(mp := populate_statfs_info M pmp instances (ms_statfs st mp)),
                  ms_store := procfs_structure_init (ms_store st), ms_buckets := True\<rparr>)))"

definition flush_vnodes :: "mount_env \<Rightarrow> nat \<Rightarrow> node_table \<Rightarrow> node_table" where
  "flush_vnodes M mp nt = foldl (\<lambda>nt v. procfs_vnop_reclaim v nt) nt (me_vflush M mp nt)"

text \<open>The structure tree goes with every unmount. \<^const>\<open>None\<close> is a release of the tree that does not end.\<close>

definition procfs_unmount :: "mount_env \<Rightarrow> nat \<Rightarrow> mount_sys \<Rightarrow> (errno \<times> mount_sys) option" where
  "procfs_unmount M mp st =
     (let st1 = (if ms_private st mp = None then st
        else st\<lparr>ms_nodes := flush_vnodes M mp (ms_nodes st), ms_private := (ms_private st)(mp := None),
               ms_instances := int32 (ms_instances st - 1)\<rparr>)
      in map_option (\<lambda>s. (0, st1\<lparr>ms_store := s\<rparr>)) (procfs_structure_free (ms_store st1)))"

definition procfs_create_root_vnode :: "(vnode_fsparam \<Rightarrow> errno) \<Rightarrow> find_req \<Rightarrow> errno" where
  "procfs_create_root_vnode vnode_create req =
     vnode_create \<lparr>vnfs_vtype = VDIR, vnfs_dvp = None, vnfs_id = fr_id req, vnfs_markroot = True\<rparr>"

text \<open>
  The kernel asks for the root of a mounted file system only; a NULL mount or structure node would
  be dereferenced and is \<^const>\<open>None\<close>.
\<close>

definition procfs_root :: "(vnode_fsparam \<Rightarrow> errno) \<Rightarrow> find_env \<Rightarrow> nat \<Rightarrow> mount_sys \<Rightarrow> (nat res \<times> mount_sys) option" where
  "procfs_root vnode_create F mp st =
     (case (ms_private st mp, procfs_structure_root_node (ms_store st)) of
        (Some pmp, Some root) \<Rightarrow>
          (case procfsnode_find (F\<lparr>fe_create := procfs_create_root_vnode vnode_create\<rparr>)
              \<lparr>fr_mount = pmnt_id pmp, fr_id = PROCFS_ROOT_NODE_ID, fr_snode = root\<rparr> (ms_nodes st) of
             None \<Rightarrow> None
           | Some (Inl error, nt) \<Rightarrow> Some (Inl error, st\<lparr>ms_nodes := nt\<rparr>)
           | Some (Inr (p, v), nt) \<Rightarrow> Some (Inr v, st\<lparr>ms_nodes := nt\<rparr>))
      | _ \<Rightarrow> None)"

definition populate_vfs_attr :: "pfsmount \<Rightarrow> vfsstatfs \<Rightarrow> vfs_attr" where
  "populate_vfs_attr pmp s =
     \<lparr>fa_objcount = 0, fa_filecount = 0, fa_dircount = 0, fa_maxobjcount = 0, fa_bsize = BLOCK_SIZE,
      fa_iosize = BLOCK_SIZE, fa_blocks = 0, fa_bfree = 0, fa_bavail = 0, fa_bused = 0, fa_files = 0, fa_ffree = 0,
      fa_fsid = f_fsid s, fa_owner = f_owner s, fa_create_time = pmnt_mount_time pmp,
      fa_modify_time = pmnt_mount_time pmp, fa_access_time = pmnt_mount_time pmp\<rparr>"

definition procfs_getattr :: "nat \<Rightarrow> mount_sys \<Rightarrow> (errno \<times> vfs_attr) option" where
  "procfs_getattr mp st = map_option (\<lambda>pmp. (0, populate_vfs_attr pmp (ms_statfs st mp))) (ms_private st mp)"

section \<open>Loading and unloading\<close>

text \<open>
  What the kext holds of the kernel: the allocation tag, the lock group and the mutex of the node
  table, the registration of the file system, the bridge and the sysctl oids. \<open>kx_initialized\<close> is the
  static of \<open>procfs_init\<close>.
\<close>

record kext =
  kx_initialized :: bool
  kx_tag :: bool
  kx_grp :: bool
  kx_mutex :: bool
  kx_table_ref :: bool
  kx_bridge :: "ctl_locks \<times> ctl_state"
  kx_sysctl :: bool

text \<open>The outcomes of the kernel calls, as errnos or success flags.\<close>

record kext_env =
  ke_uuid :: errno
  ke_tagalloc :: bool
  ke_fsadd :: errno
  ke_fsremove :: errno
  ke_ctl :: "bool \<times> bool \<times> bool"

definition KERN_SUCCESS :: int where "KERN_SUCCESS = 0"
definition KERN_FAILURE :: int where "KERN_FAILURE = 5"

definition procfs_init :: "kext_env \<Rightarrow> kext \<Rightarrow> errno \<times> kext" where
  "procfs_init X k =
     (if kx_initialized k then (0, k)
      else if \<not> ke_tagalloc X then (ENOMEM, k\<lparr>kx_initialized := True, kx_tag := False\<rparr>)
      else (0, k\<lparr>kx_initialized := True, kx_tag := True, kx_grp := True, kx_mutex := True\<rparr>))"

definition procfs_fini :: "kext \<Rightarrow> kext" where
  "procfs_fini k = k\<lparr>kx_tag := False, kx_mutex := False, kx_grp := False\<rparr>"

definition procfs_start :: "kext_env \<Rightarrow> kext \<Rightarrow> int \<times> kext" where
  \<comment> \<open>a failure of \<open>libkext_vma_uuid\<close> is an assertion failure and not modelled\<close>
  "procfs_start X k = (case procfs_init X k of (ret, k1) \<Rightarrow>
     if ret \<noteq> 0 then (KERN_FAILURE, k1)
     else if ke_fsadd X \<noteq> 0 then (KERN_FAILURE, procfs_fini (k1\<lparr>kx_table_ref := False\<rparr>))
     else (case ke_ctl X of (grp_ok, lock_ok, reg_ok) \<Rightarrow>
       (KERN_SUCCESS, k1\<lparr>kx_table_ref := True,
          kx_bridge := snd (procfs_ctl_register grp_ok lock_ok reg_ok (kx_bridge k1)), kx_sysctl := True\<rparr>)))"

definition procfs_stop :: "kext_env \<Rightarrow> kext \<Rightarrow> int \<times> kext" where
  "procfs_stop X k =
     (if ke_uuid X \<noteq> 0 then (KERN_FAILURE, k)
      else let k1 = k\<lparr>kx_sysctl := False, kx_bridge := procfs_ctl_deregister (kx_bridge k)\<rparr> in
        if kx_table_ref k1 \<and> ke_fsremove X \<noteq> 0 then (KERN_FAILURE, k1)
        else (KERN_SUCCESS, procfs_fini k1))"

section \<open>Lookup through the node table\<close>

text \<open>A call of \<open>procfsnode_find\<close> by one thread is a run of the step relation.\<close>

definition solo :: "nt_pc \<Rightarrow> nat \<Rightarrow> nt_pc" where
  "solo pc = (\<lambda>_. NIdle)(0 := pc)"

lemma solo_simps [simp]: "solo pc 0 = pc" "(solo pc)(0 := pc') = solo pc'" "solo NIdle = (\<lambda>_. NIdle)"
  "wake p (solo (NAttach q r req new)) = solo (NAttach q r req new)"
  by (auto simp: solo_def wake_def fun_eq_iff)

text \<open>A miss: the node is allocated, inserted and marked, and the vnode is about to be created.\<close>

lemma find_claim:
  fixes g :: pfsnode
  assumes "quiescent nt" "nt_search req nt = None" "nt_nodes nt p = None"
  defines "nt1 \<equiv> nt\<lparr>nt_nodes := (nt_nodes nt)(p := Some g)\<rparr>"
  obtains nt2 where "nt_turn req (Some p) nt1 = (MustCreate p, nt2)" "nt_inv (nt2, solo (NCreate p req (Some p)))"
    and "nt_vnodes nt2 = nt_vnodes nt" "\<And>q. q \<noteq> p \<Longrightarrow> nt_nodes nt2 q = nt_nodes nt q" "\<And>q. inhash nt2 q \<longleftrightarrow> q = p \<or> inhash nt q"
    and "nt_nodes nt2 p = Some \<lparr>node_vnode = None, node_attaching_vnode = True, node_thread_waiting_attach = False,
      node_mnt_id = fr_mount req, node_id = fr_id req, node_structure_node = fr_snode req\<rparr>" "nt_vseq nt2 = nt_vseq nt"
proof -
  have out: "\<not> inhash nt p"
    using assms(1,3) hash_invD(1) [of nt p] by (fastforce simp: quiescent_def nt_inv_parts inhash_def)
  then have b: "p \<notin> set (nt_hash nt b)" for b by (auto simp: inhash_def)
  have "nt_search req nt1 = nt_search req nt" unfolding nt_search_def nt1_def by (rule find_cong) (use b in auto)
  then have none: "nt_search req nt1 = None" using assms(2) by simp
  define nt2 where "nt2 = nt_update p (\<lambda>n. n\<lparr>node_attaching_vnode := True\<rparr>) (nt_insert req p nt1)"
  have turn: "nt_turn req (Some p) nt1 = (MustCreate p, nt2)"
    using none by (simp add: nt_turn_def nt_decide_def nt_insert_def nt2_def Let_def)
  have "nt_inv (nt, solo NIdle)" using assms(1) by (simp add: quiescent_def)
  then have "nt_inv (nt, solo (NTop req None))"
    by (rule nt_inv_step [rotated]) (use nt_step.Call [of "solo NIdle" 0] in \<open>simp del: solo_simps(3)\<close>)
  then have "nt_inv (nt, solo (NAlloc req))"
    by (rule nt_inv_step [rotated]) (use nt_step.Alloc [of "solo (NTop req None)" 0 req None nt nt] assms(2) in \<open>simp add: nt_turn_def\<close>)
  then have "nt_inv (nt1, solo (NTop req (Some p)))"
    by (rule nt_inv_step [rotated]) (use nt_step.Malloc [of "solo (NAlloc req)" 0 req nt p g] assms(3) in \<open>simp add: nt1_def\<close>)
  then have "nt_inv (nt2, solo (NCreate p req (Some p)))"
    by (rule nt_inv_step [rotated]) (use nt_step.Promote [of "solo (NTop req (Some p))" 0, OF _ turn] in simp)
  with turn show thesis
  proof (rule that)
    show "inhash nt2 q \<longleftrightarrow> q = p \<or> inhash nt q" for q
      unfolding nt2_def inhash_update inhash_insert by (simp add: nt1_def inhash_def)
  qed (simp_all add: nt2_def nt_update_def nt_insert_def nt1_def Let_def)
qed

text \<open>
  What a call of \<open>procfsnode_find\<close> does to a table no other thread uses: it returns, leaves the nodes
  of existing vnodes alone, and on success hands out a vnode of a node with the identity and
  structure node of the request.
\<close>

definition keeps :: "node_table \<Rightarrow> node_table \<Rightarrow> bool" where
  "keeps nt nt' \<longleftrightarrow> (\<forall>v vn. nt_vnodes nt v = Some vn \<longrightarrow>
     nt_vnodes nt' v = Some vn \<and> nt_nodes nt' (v_fsnode vn) = nt_nodes nt (v_fsnode vn))"

definition nodes_ok :: "node_table \<Rightarrow> bool" where
  "nodes_ok nt \<longleftrightarrow> quiescent nt \<and> (\<forall>p n. inhash nt p \<longrightarrow> nt_nodes nt p = Some n \<longrightarrow>
     node_structure_node n < length procfs_heap \<and>
     nodeid_base_id (node_id n) = psn_base_node_id (procfs_heap ! node_structure_node n))"

lemma node_of_base:
  assumes "i < length procfs_heap" "j < length procfs_heap" "psn_base_node_id (procfs_heap ! i) = psn_base_node_id (procfs_heap ! j)"
  shows "i = j"
  using procfs.ids_distinct assms by (simp add: distinct_conv_nth) (metis)

lemma find_table:
  assumes ok: "nodes_ok nt" and m: "malloc_law (fe_malloc E)" and g: "\<And>v. fe_getwithvid E v = 0"
    and s: "fr_snode req < length procfs_heap" "nodeid_base_id (fr_id req) = psn_base_node_id (procfs_heap ! fr_snode req)"
  shows "\<exists>r nt'. procfsnode_find E req nt = Some (r, nt') \<and> nodes_ok nt' \<and> keeps nt nt' \<and>
    (case r of Inl e \<Rightarrow> e = ENOMEM \<and> fe_malloc E nt = None \<or> e = fe_create E req \<and> e \<noteq> 0
     | Inr (p, v) \<Rightarrow> \<exists>vn n. nt_vnodes nt' v = Some vn \<and> v_fsnode vn = p \<and> nt_nodes nt' p = Some n \<and>
         node_mnt_id n = fr_mount req \<and> node_id n = fr_id req \<and> node_structure_node n = fr_snode req)"
proof (cases "nt_search req nt")
  case (Some p)
  have q: "quiescent nt" using ok by (simp add: nodes_ok_def)
  from nt_search_Some [OF Some] obtain n where n: "inhash nt p" "nt_nodes nt p = Some n" "key n = rkey req" by blast
  have "vnode_inv nt (\<lambda>_. NIdle)" using q by (simp add: quiescent_def nt_inv_parts)
  from vnode_invD(1) [OF this n(1,2) quiescent_node(1) [OF q n(1,2)]] obtain v vn where
    v: "node_vnode n = Some v" "nt_vnodes nt v = Some vn" "v_fsnode vn = p" by blast
  have "node_structure_node n = fr_snode req"
    using ok n s by (intro node_of_base) (auto simp: nodes_ok_def key_def rkey_def)
  moreover have "procfsnode_find E req nt = Some (Inr (p, v), nt)"
    using find_hit [OF Some n(2) quiescent_node(1) [OF q n(1,2)] v(1) g, of 2]
    by (simp add: procfsnode_find_def numeral_3_eq_3 numeral_2_eq_2)
  ultimately show ?thesis using ok n v by (auto simp: keeps_def key_def rkey_def)
next
  case None
  have q: "quiescent nt" using ok by (simp add: nodes_ok_def)
  show ?thesis
  proof (cases "fe_malloc E nt")
    case None
    with \<open>nt_search req nt = None\<close> ok show ?thesis
      by (auto simp: procfsnode_find_def numeral_3_eq_3 nt_turn_def keeps_def)
  next
    case (Some pg)
    then obtain p gb where pg: "fe_malloc E nt = Some (p, gb)" by (cases pg) auto
    then have p: "nt_nodes nt p = None" using m by (auto simp: malloc_law_def)
    obtain nt2 where c: "nt_turn req (Some p) (nt\<lparr>nt_nodes := (nt_nodes nt)(p := Some gb)\<rparr>) = (MustCreate p, nt2)"
      "nt_inv (nt2, solo (NCreate p req (Some p)))" "nt_vnodes nt2 = nt_vnodes nt"
      "\<And>q. q \<noteq> p \<Longrightarrow> nt_nodes nt2 q = nt_nodes nt q" "\<And>q. inhash nt2 q \<longleftrightarrow> q = p \<or> inhash nt q"
      "nt_nodes nt2 p = Some \<lparr>node_vnode = None, node_attaching_vnode = True, node_thread_waiting_attach = False,
        node_mnt_id = fr_mount req, node_id = fr_id req, node_structure_node = fr_snode req\<rparr>" "nt_vseq nt2 = nt_vseq nt"
      using find_claim [OF q None p, where g = gb] by metis
    have live: "v_fsnode vn \<noteq> p \<and> v < nt_vseq nt" if "nt_vnodes nt v = Some vn" for v vn
    proof -
      have "vnode_inv nt (\<lambda>_. NIdle)" using q by (simp add: quiescent_def nt_inv_parts)
      from vnode_invD(2) [OF this that] p show ?thesis by auto
    qed
    have find: "procfsnode_find E req nt = (if fe_create E req = 0
        then (case nt_new_vnode p nt2 of (v, nt3) \<Rightarrow> Some (Inr (p, v), nt_discard (Some p) p (nt_attached p (Inr v) nt3)))
        else Some (Inl (fe_create E req), nt_attached p (Inl (fe_create E req)) nt2))"
      using None pg c(1) by (simp add: procfsnode_find_def numeral_3_eq_3 nt_turn_def [of req None nt])
    show ?thesis
    proof (cases "fe_create E req = 0")
      case True
      let ?v = "nt_vseq nt2"
      define nt3 where "nt3 = snd (nt_new_vnode p nt2)"
      have new: "nt_new_vnode p nt2 = (?v, nt3)" by (simp add: nt3_def nt_new_vnode_def)
      define nt' where "nt' = nt_discard (Some p) p (nt_attached p (Inr ?v) nt3)"
      have "nt_inv (nt3, solo (NAttach p (Inr ?v) req (Some p)))"
        by (rule nt_inv_step [OF _ c(2)]) (use nt_step.CreateOk [of "solo (NCreate p req (Some p))" 0, OF _ new] in simp)
      then have "nt_inv (nt', solo (NRet req (Inr (p, ?v))))"
        by (rule nt_inv_step [rotated])
          (use nt_step.AttachOk [of "solo (NAttach p (Inr ?v) req (Some p))" 0 p ?v req "Some p" nt3] in \<open>simp add: nt'_def split: if_splits\<close>)
      then have "quiescent nt'"
        unfolding quiescent_def
        by (rule nt_inv_step [rotated]) (use nt_step.Put [of "solo (NRet req (Inr (p, ?v)))" 0 req "Inr (p, ?v)" nt'] in simp)
      moreover have nodes: "nt_vnodes nt' = (nt_vnodes nt)(?v := Some \<lparr>v_fsnode = p, v_dying = False\<rparr>)"
        "q \<noteq> p \<Longrightarrow> nt_nodes nt' q = nt_nodes nt q" "inhash nt' q \<longleftrightarrow> q = p \<or> inhash nt q"
        "nt_nodes nt' p = Some \<lparr>node_vnode = Some ?v, node_attaching_vnode = False, node_thread_waiting_attach = False,
          node_mnt_id = fr_mount req, node_id = fr_id req, node_structure_node = fr_snode req\<rparr>" for q
        using c(3-6) by (simp_all add: nt'_def nt3_def nt_discard_def nt_attached_def nt_new_vnode_def nt_update_def Let_def inhash_def)
      ultimately have "nodes_ok nt'" using ok s unfolding nodes_ok_def by (metis (no_types, lifting) option.inject pfsnode.select_convs(5,6))
      moreover have "keeps nt nt'" using live nodes(1,2) c(7) by (auto simp: keeps_def)
      ultimately show ?thesis using find True new nodes(1,4) by (auto simp: nt'_def)
    next
      case False
      let ?e = "fe_create E req"
      define nt' where "nt' = nt_attached p (Inl ?e) nt2"
      have "nt_inv (nt2, solo (NAttach p (Inl ?e) req (Some p)))"
        by (rule nt_inv_step [OF _ c(2)]) (use nt_step.CreateFail [of "solo (NCreate p req (Some p))" 0 p req "Some p" ?e nt2] False in simp)
      then have "nt_inv (nt', solo (NRet req (Inl ?e)))"
        by (rule nt_inv_step [rotated])
          (use nt_step.AttachFail [of "solo (NAttach p (Inl ?e) req (Some p))" 0 p ?e req "Some p" nt2] in \<open>simp add: nt'_def split: if_splits\<close>)
      then have "quiescent nt'"
        unfolding quiescent_def
        by (rule nt_inv_step [rotated]) (use nt_step.Put [of "solo (NRet req (Inl ?e))" 0 req "Inl ?e" nt'] in simp)
      moreover have nodes: "nt_vnodes nt' = nt_vnodes nt" "q \<noteq> p \<Longrightarrow> nt_nodes nt' q = nt_nodes nt q" "nt_nodes nt' p = None" for q
        using c(3,4) by (simp_all add: nt'_def nt_attached_def procfsnode_free_node_def nt_update_def Let_def)
      moreover have "q = p \<or> inhash nt q" if h: "inhash nt' q" for q
      proof -
        obtain b where "q \<in> set (remove1 p (nt_hash nt2 b))"
          using h by (auto simp: inhash_def nt'_def nt_attached_def procfsnode_free_node_def nt_update_def Let_def)
        then have "inhash nt2 q" unfolding inhash_def by (blast dest: subsetD [OF set_remove1_subset])
        then show ?thesis using c(5) by simp
      qed
      ultimately have "nodes_ok nt'" using ok unfolding nodes_ok_def by (metis option.distinct(1))
      moreover have "keeps nt nt'" using live nodes(1,2) by (auto simp: keeps_def)
      ultimately show ?thesis using find False by (auto simp: nt'_def)
    qed
  qed
qed

text \<open>The vnode of a node id, and lookup on vnodes against lookup on ids.\<close>

definition vnode_for :: "vfs_env \<Rightarrow> node_table \<Rightarrow> nat \<Rightarrow> match \<Rightarrow> bool" where
  "vnode_for E nt v m \<longleftrightarrow> (\<exists>vn n. nt_vnodes nt v = Some vn \<and> nt_nodes nt (v_fsnode vn) = Some n \<and>
     node_mnt_id n = pmnt_id (ve_mount E) \<and> node_id n = snd m \<and> node_structure_node n = fst m)"

lemma vnode_for_keeps: "vnode_for E nt v m \<Longrightarrow> keeps nt nt' \<Longrightarrow> vnode_for E nt' v m"
  unfolding vnode_for_def keeps_def by metis

lemma lookup_scan_dir:
  assumes "node_id d = node_id d'"
  shows "lookup_scan E d name cs = lookup_scan E d' name cs"
proof -
  have "lookup_fd E d name c = lookup_fd E d' name c" "lookup_proc E d name c i = lookup_proc E d' name c i" for c i
    unfolding lookup_fd_def lookup_proc_def assms by (rule refl)+
  then show ?thesis by (induction cs) (simp_all add: version_hidden_gate assms Let_def split: prod.split)
qed

lemma lookup_match_dir:
  "node_id d = node_id d' \<Longrightarrow> node_structure_node d = node_structure_node d' \<Longrightarrow> lookup_match E d name = lookup_match E d' name"
  using lookup_scan_dir [of d d' E name] by (simp add: lookup_match_def Let_def split: option.split)

lemma lookup_scan_returns: "lookup_scan E d name cs \<noteq> None"
  by (induction cs) (auto simp: version_hidden_gate Let_def split: prod.splits)

lemma lookup_match_returns: "lookup_match E d name \<noteq> None"
  using lookup_scan_returns [of E d name] by (simp add: lookup_match_def Let_def)

lemma find_vnode_ok:
  assumes "nodes_ok nt" "malloc_law (fe_malloc F)" "\<And>v. fe_getwithvid F v = 0" "id_ok E m"
  shows "\<exists>r nt'. find_vnode vc E F dvp m nt = Some (r, nt') \<and> nodes_ok nt' \<and> keeps nt nt' \<and>
    (case r of Inl e \<Rightarrow> e = ENOMEM \<and> fe_malloc F nt = None \<or>
        e \<noteq> 0 \<and> e = vc \<lparr>vnfs_vtype = node_vtype E (fst m) (snd m), vnfs_dvp = dvp, vnfs_id = snd m, vnfs_markroot = False\<rparr>
     | Inr v \<Rightarrow> vnode_for E nt' v m)"
proof -
  let ?F = "F\<lparr>fe_create := procfs_create_vnode vc E dvp\<rparr>"
  let ?req = "\<lparr>fr_mount = pmnt_id (ve_mount E), fr_id = snd m, fr_snode = fst m\<rparr>"
  have "fst m < length procfs_heap" "nodeid_base_id (snd m) = psn_base_node_id (procfs_heap ! fst m)"
    using assms(4) by (simp_all add: id_ok_def Let_def)
  then obtain r nt' where r: "procfsnode_find ?F ?req nt = Some (r, nt')" "nodes_ok nt'" "keeps nt nt'"
    "case r of Inl e \<Rightarrow> e = ENOMEM \<and> fe_malloc ?F nt = None \<or> e = fe_create ?F ?req \<and> e \<noteq> 0
     | Inr (p, v) \<Rightarrow> \<exists>vn n. nt_vnodes nt' v = Some vn \<and> v_fsnode vn = p \<and> nt_nodes nt' p = Some n \<and>
         node_mnt_id n = fr_mount ?req \<and> node_id n = fr_id ?req \<and> node_structure_node n = fr_snode ?req"
    using find_table [OF assms(1), of ?F ?req] assms(2,3) by auto
  then show ?thesis
    by (cases r) (auto simp: find_vnode_def procfs_create_vnode_def vnode_for_def split: prod.splits)
qed

lemma lookup_refines:
  assumes "ve_heap E = procfs_heap" "nodes_ok nt" "malloc_law (fe_malloc F)" "\<And>v. fe_getwithvid F v = 0"
    and m: "id_ok E m" "vnode_for E nt d m" "node_vtype E (fst m) (snd m) = VDIR"
    and name: "name \<noteq> []" "length name \<le> 255" "name \<notin> {''.'', ''..''}"
  shows "\<exists>r nt'. procfs_vnop_lookup vc E F (Some d) name False nt = Some (r, nt') \<and> nodes_ok nt' \<and> keeps nt nt' \<and>
    (case the (lookup_match E (as_node E m) name) of
       Inl e \<Rightarrow> r = Inl e
     | Inr None \<Rightarrow> r = Inl ENOENT
     | Inr (Some m') \<Rightarrow> (case r of
         Inl e \<Rightarrow> e = ENOMEM \<and> fe_malloc F nt = None \<or>
           e \<noteq> 0 \<and> e = vc \<lparr>vnfs_vtype = node_vtype E (fst m') (snd m'), vnfs_dvp = Some d, vnfs_id = snd m', vnfs_markroot = False\<rparr>
       | Inr v \<Rightarrow> vnode_for E nt' v m'))"
proof -
  obtain vn n where n: "nt_vnodes nt d = Some vn" "nt_nodes nt (v_fsnode vn) = Some n"
    "node_id n = snd m" "node_structure_node n = fst m" using m(2) by (auto simp: vnode_for_def)
  have t: "take NAME_MAX name = name" using name(2) by (simp add: NAME_MAX_def)
  have lm: "lookup_match E n name = lookup_match E (as_node E m) name" by (rule lookup_match_dir) (simp_all add: n)
  have step: "procfs_vnop_lookup vc E F (Some d) name False nt = (case lookup_match E (as_node E m) name of
      None \<Rightarrow> None | Some (Inl error) \<Rightarrow> Some (Inl error, nt) | Some (Inr None) \<Rightarrow> Some (Inl ENOENT, nt)
    | Some (Inr (Some m')) \<Rightarrow> find_vnode vc E F (Some d) m' nt)"
    using n m(3) name by (simp add: procfs_vnop_lookup_def dir_node_def t lm)
  have keep: "keeps nt nt" by (simp add: keeps_def)
  obtain r where r: "lookup_match E (as_node E m) name = Some r" using lookup_match_returns by blast
  consider e where "r = Inl e" | "r = Inr None" | m' where "r = Inr (Some m')"
    by (cases r; cases "projr r") simp_all
  then show ?thesis
  proof cases
    case (3 m')
    have lt: "fst m < length procfs_heap" using m(1) by (simp add: id_ok_def Let_def)
    have "id_ok E m'"
      using r [unfolded 3] assms(1) lt
    proof (cases rule: lookup_match_cases)
      case (sysctl i)
      then show ?thesis using m(1) by (auto simp: id_ok_def Let_def)
    next
      case child
      then show ?thesis using matched_id_ok [of E m name m'] m(1) assms(1) by simp
    qed
    from find_vnode_ok [OF assms(2-4) this, of vc "Some d"] show ?thesis using r 3 step by simp
  qed (use r step assms(2) keep in simp_all)
qed

section \<open>The life of mounts\<close>

text \<open>
  Mounts and unmounts are serialised by the kernel, so a history is a sequence of whole operations;
  between them vnode operations may change the node table. The number counts the mounts so far.
\<close>

definition ms_boot :: "mount_sys \<Rightarrow> bool" where
  "ms_boot st \<longleftrightarrow> ms_mount_id st = 0 \<and> ms_instances st = 0 \<and> ms_private st = (\<lambda>_. None) \<and>
     ms_store st = structure_initial \<and> \<not> ms_buckets st \<and> ms_nodes st = nt_initial"

inductive vfs_run :: "nat \<Rightarrow> mount_sys \<Rightarrow> bool" where
  boot: "ms_boot st \<Longrightarrow> vfs_run 0 st"
| mount: "vfs_run k st \<Longrightarrow> procfs_mount M mp data st = (e, st') \<Longrightarrow> vfs_run (Suc k) st'"
| unmount: "vfs_run k st \<Longrightarrow> procfs_unmount M mp st = Some (e, st') \<Longrightarrow> vfs_run k st'"
| root: "vfs_run k st \<Longrightarrow> procfs_root vc F mp st = Some (r, st') \<Longrightarrow> vfs_run k st'"
| vnops: "vfs_run k st \<Longrightarrow> vfs_run k (st\<lparr>ms_nodes := nt\<rparr>)"

abbreviation mounted :: "mount_sys \<Rightarrow> nat set" where
  "mounted st \<equiv> dom (ms_private st)"

definition mounts_inv :: "nat \<Rightarrow> mount_sys \<Rightarrow> bool" where
  "mounts_inv k st \<longleftrightarrow> 0 \<le> ms_mount_id st \<and> ms_mount_id st \<le> int k \<and>
     finite (mounted st) \<and> ms_instances st = int (card (mounted st)) \<and> ms_instances st \<le> ms_mount_id st \<and>
     (\<forall>mp pmp. ms_private st mp = Some pmp \<longrightarrow> 0 < pmnt_id pmp \<and> pmnt_id pmp \<le> ms_mount_id st \<and> pmnt_mp pmp = mp \<and>
        fst (f_fsid (ms_statfs st mp)) = pmnt_id pmp) \<and>
     inj_on (\<lambda>mp. pmnt_id (the (ms_private st mp))) (mounted st) \<and>
     (sn_root (ms_store st) \<noteq> None \<longrightarrow> mounted st \<noteq> {})"

lemma mounts_inv_mount:
  assumes "mounts_inv k st" "procfs_mount M mp data st = (e, st')" "int k < 2 ^ 31 - 1"
  shows "mounts_inv (Suc k) st'"
proof (cases "ms_private st mp = None \<and> me_malloc M \<noteq> None")
  case False
  then have "st' = st" using assms(2) by (auto simp: procfs_mount_def Let_def split: if_splits option.splits)
  then show ?thesis using assms(1) by (auto simp: mounts_inv_def)
next
  case True
  then obtain fresh where mem: "me_malloc M = Some fresh" by blast
  have b: "0 \<le> ms_mount_id st" "ms_mount_id st \<le> int k" "ms_instances st = int (card (mounted st))"
    "ms_instances st \<le> ms_mount_id st" "finite (mounted st)" using assms(1) by (auto simp: mounts_inv_def)
  have w: "int32 (ms_mount_id st + 1) = ms_mount_id st + 1" "int32 (ms_instances st + 1) = ms_instances st + 1"
    using b assms(3) by (auto intro!: int32_id)
  define pmp where "pmp = fresh\<lparr>pmnt_id := ms_mount_id st + 1, pmnt_mp := mp, pmnt_mount_time := me_now M\<rparr>"
  have st': "ms_mount_id st' = ms_mount_id st + 1" "ms_instances st' = ms_instances st + 1"
    "ms_private st' = (ms_private st)(mp := Some pmp)" "f_fsid (ms_statfs st' mp) = (ms_mount_id st + 1, me_typenum M)"
    "\<And>q. q \<noteq> mp \<Longrightarrow> ms_statfs st' q = ms_statfs st q"
    using assms(2) True mem by (auto simp: procfs_mount_def Let_def w pmp_def populate_statfs_info_def)
  have new: "mp \<notin> mounted st" using True by auto
  have old: "0 < pmnt_id p \<and> pmnt_id p \<le> ms_mount_id st \<and> pmnt_mp p = q \<and> fst (f_fsid (ms_statfs st q)) = pmnt_id p"
    if "ms_private st q = Some p" for q p using assms(1) that by (auto simp: mounts_inv_def)
  have "inj_on (\<lambda>q. pmnt_id (the (ms_private st' q))) (insert mp (mounted st))"
  proof (rule inj_on_insert [THEN iffD2], intro conjI)
    have "inj_on (\<lambda>q. pmnt_id (the (ms_private st q))) (mounted st)" using assms(1) by (simp add: mounts_inv_def)
    then show "inj_on (\<lambda>q. pmnt_id (the (ms_private st' q))) (mounted st)"
      by (rule inj_on_cong [THEN iffD1, rotated]) (use new in \<open>auto simp: st'(3)\<close>)
    show "pmnt_id (the (ms_private st' mp)) \<notin> (\<lambda>q. pmnt_id (the (ms_private st' q))) ` (mounted st - {mp})"
    proof
      assume "pmnt_id (the (ms_private st' mp)) \<in> (\<lambda>q. pmnt_id (the (ms_private st' q))) ` (mounted st - {mp})"
      then obtain q where q: "q \<in> mounted st - {mp}" "pmnt_id (the (ms_private st' mp)) = pmnt_id (the (ms_private st' q))"
        by (rule imageE)
      then obtain p where "ms_private st q = Some p" by blast
      with old [of q p] q show False by (simp add: st'(3) pmp_def)
    qed
  qed
  moreover have "0 < pmnt_id p \<and> pmnt_id p \<le> ms_mount_id st' \<and> pmnt_mp p = q \<and> fst (f_fsid (ms_statfs st' q)) = pmnt_id p"
    if "ms_private st' q = Some p" for q p
    using that old [of q p] b(1) st' by (cases "q = mp") (auto simp: pmp_def)
  ultimately show ?thesis
    using b new by (simp add: mounts_inv_def st'(1-3))
qed

lemma mounts_inv_unmount:
  assumes "mounts_inv k st" "procfs_unmount M mp st = Some (e, st')" "int k < 2 ^ 31"
  shows "mounts_inv k st'"
proof (cases "ms_private st mp")
  case None
  then obtain s where "st' = st\<lparr>ms_store := s\<rparr>" "procfs_structure_free (ms_store st) = Some s"
    using assms(2) by (auto simp: procfs_unmount_def)
  moreover from this have "sn_root s = None" by (auto simp: procfs_structure_free_def split: option.splits)
  ultimately show ?thesis using assms(1) by (auto simp: mounts_inv_def)
next
  case (Some pmp)
  then obtain s where s: "procfs_structure_free (ms_store st) = Some s"
    "st' = st\<lparr>ms_nodes := flush_vnodes M mp (ms_nodes st), ms_private := (ms_private st)(mp := None),
       ms_instances := int32 (ms_instances st - 1), ms_store := s\<rparr>"
    using assms(2) by (auto simp: procfs_unmount_def)
  have root: "sn_root s = None" using s(1) by (auto simp: procfs_structure_free_def split: option.splits)
  have b: "finite (mounted st)" "ms_instances st = int (card (mounted st))" "ms_instances st \<le> int k" "mp \<in> mounted st"
    using assms(1) Some by (auto simp: mounts_inv_def)
  then have c: "0 < card (mounted st)" by (auto simp: card_gt_0_iff)
  have le: "int (card (mounted st) - Suc 0) \<le> ms_mount_id st"
  proof -
    have "int (card (mounted st)) \<le> ms_mount_id st" using assms(1) by (simp add: mounts_inv_def)
    then show ?thesis by linarith
  qed
  have "int32 (ms_instances st - 1) = int (card (mounted st - {mp}))"
    using b c assms(3) by (simp add: int32_id card_Diff_singleton of_nat_diff)
  moreover have "inj_on (\<lambda>q. pmnt_id (the (((ms_private st)(mp := None)) q))) (mounted st - {mp})"
  proof -
    have "inj_on (\<lambda>q. pmnt_id (the (ms_private st q))) (mounted st - {mp})"
      using assms(1) by (auto simp: mounts_inv_def intro: inj_on_diff)
    then show ?thesis by (rule inj_on_cong [THEN iffD1, rotated]) auto
  qed
  ultimately show ?thesis
    using assms(1) b root le unfolding mounts_inv_def s(2) by (simp add: card_Diff_singleton)
qed

lemma vfs_run_inv: "vfs_run k st \<Longrightarrow> int k < 2 ^ 31 \<Longrightarrow> mounts_inv k st"
proof (induction rule: vfs_run.induct)
  case (boot st)
  then show ?case by (simp add: ms_boot_def mounts_inv_def structure_initial_def)
next
  case (mount k st M mp data e st')
  from mount.prems have k: "int k < 2 ^ 31 - 1" by simp
  then have "int k < 2 ^ 31" by simp
  from mounts_inv_mount [OF mount.IH [OF this] mount.hyps(2) k] show ?case .
next
  case (unmount k st M mp e st')
  from mounts_inv_unmount [OF unmount.IH [OF unmount.prems] unmount.hyps(2) unmount.prems] show ?case .
next
  case (root k st vc F mp r st')
  then obtain nt where "st' = st\<lparr>ms_nodes := nt\<rparr>"
    by (auto simp: procfs_root_def split: option.splits prod.splits sum.splits)
  then show ?case using root by (simp add: mounts_inv_def)
next
  case (vnops k st nt)
  then show ?case by (simp add: mounts_inv_def)
qed

text \<open>
  Facts of the source that the headings of its functions do not say: the options of a mount are
  read and never used, and the unmount of one instance takes the tree from all others.
\<close>

lemma mount_ignores_options: "procfs_mount M mp data st = procfs_mount M mp data' st"
  by (simp add: procfs_mount_def)

lemma unmount_takes_shared_tree:
  assumes "procfs_unmount M mp st = Some (e, st')" "q \<noteq> mp"
  shows "ms_private st' q = ms_private st q \<and> procfs_root vc F q st' = None"
proof -
  have "sn_root (ms_store st') = None \<and> ms_private st' q = ms_private st q"
    using assms by (auto simp: procfs_unmount_def procfs_structure_free_def Let_def split: option.splits if_splits)
  then show ?thesis by (simp add: procfs_root_def procfs_structure_root_node_def split: option.split)
qed

text \<open>A load that fails leaves nothing registered, and an unload that succeeds gives everything back.\<close>

definition kext_fresh :: "kext \<Rightarrow> bool" where
  "kext_fresh k \<longleftrightarrow> \<not> kx_initialized k \<and> \<not> kx_tag k \<and> \<not> kx_grp k \<and> \<not> kx_mutex k \<and> \<not> kx_table_ref k \<and> \<not> kx_sysctl k \<and>
     \<not> ctl_grp (fst (kx_bridge k)) \<and> \<not> ctl_lock (fst (kx_bridge k)) \<and> \<not> ctl_ref (snd (kx_bridge k))"

definition kext_released :: "kext \<Rightarrow> bool" where
  "kext_released k \<longleftrightarrow> \<not> kx_tag k \<and> \<not> kx_grp k \<and> \<not> kx_mutex k \<and> \<not> kx_sysctl k \<and>
     \<not> ctl_grp (fst (kx_bridge k)) \<and> \<not> ctl_lock (fst (kx_bridge k)) \<and> \<not> ctl_ref (snd (kx_bridge k))"

lemma start_fails_clean:
  "kext_fresh k \<Longrightarrow> procfs_start X k = (KERN_FAILURE, k') \<Longrightarrow> kext_released k' \<and> \<not> kx_table_ref k'"
  by (auto simp: kext_fresh_def kext_released_def procfs_start_def procfs_init_def procfs_fini_def KERN_SUCCESS_def KERN_FAILURE_def
      split: if_splits prod.splits)

lemma stop_releases: "procfs_stop X k = (KERN_SUCCESS, k') \<Longrightarrow> kext_released k'"
  by (auto simp: kext_released_def procfs_stop_def procfs_fini_def procfs_ctl_deregister_def Let_def KERN_SUCCESS_def KERN_FAILURE_def
      split: if_splits prod.splits)

section \<open>Properties\<close>

text \<open>
  C13: lookup on vnodes refines lookup on node ids. On a table no other thread is using, the lookup
  of a name in the vnode of a directory always returns; it reports the error that the lookup on
  ids reports, or \<open>ENOENT\<close> where that finds nothing; and where that finds a node, the result is a
  vnode of exactly this node, unless memory or the creation of the vnode fails. Vnodes handed out
  before keep their nodes, and the table stays well-formed.
\<close>

theorem vnop_lookup_refines:
  assumes "ve_heap E = procfs_heap" "nodes_ok nt" "malloc_law (fe_malloc F)" "\<And>v. fe_getwithvid F v = 0"
    and "resolves E m" "vnode_for E nt d m" "node_vtype E (fst m) (snd m) = VDIR"
    and "name \<noteq> []" "length name \<le> 255" "name \<notin> {''.'', ''..''}"
  shows "\<exists>r nt' res. procfs_vnop_lookup vc E F (Some d) name False nt = Some (r, nt') \<and> nodes_ok nt' \<and>
    (\<forall>v m. vnode_for E nt v m \<longrightarrow> vnode_for E nt' v m) \<and> lookup_match E (as_node E m) name = Some res \<and>
    (case res of
       Inl e \<Rightarrow> r = Inl e
     | Inr None \<Rightarrow> r = Inl ENOENT
     | Inr (Some m') \<Rightarrow> resolves E m' \<and> (case r of
         Inl e \<Rightarrow> e = ENOMEM \<and> fe_malloc F nt = None \<or>
           e \<noteq> 0 \<and> e = vc \<lparr>vnfs_vtype = node_vtype E (fst m') (snd m'), vnfs_dvp = Some d, vnfs_id = snd m', vnfs_markroot = False\<rparr>
       | Inr v \<Rightarrow> vnode_for E nt' v m'))"
proof -
  obtain res where res: "lookup_match E (as_node E m) name = Some res" using lookup_match_returns by blast
  have "resolves E m'" if "res = Inr (Some m')" for m'
    using resolves.step [OF assms(5,7) res [unfolded that] assms(10)] .
  moreover obtain r nt' where r: "procfs_vnop_lookup vc E F (Some d) name False nt = Some (r, nt')" "nodes_ok nt'" "keeps nt nt'"
    "case the (lookup_match E (as_node E m) name) of
       Inl e \<Rightarrow> r = Inl e
     | Inr None \<Rightarrow> r = Inl ENOENT
     | Inr (Some m') \<Rightarrow> (case r of
         Inl e \<Rightarrow> e = ENOMEM \<and> fe_malloc F nt = None \<or>
           e \<noteq> 0 \<and> e = vc \<lparr>vnfs_vtype = node_vtype E (fst m') (snd m'), vnfs_dvp = Some d, vnfs_id = snd m', vnfs_markroot = False\<rparr>
       | Inr v \<Rightarrow> vnode_for E nt' v m')"
    using lookup_refines [OF assms(1-4) resolves_id_ok [OF assms(1,5)] assms(6-10), of vc] by blast
  ultimately have "case res of Inl e \<Rightarrow> r = Inl e | Inr None \<Rightarrow> r = Inl ENOENT
     | Inr (Some m') \<Rightarrow> resolves E m' \<and> (case r of
         Inl e \<Rightarrow> e = ENOMEM \<and> fe_malloc F nt = None \<or>
           e \<noteq> 0 \<and> e = vc \<lparr>vnfs_vtype = node_vtype E (fst m') (snd m'), vnfs_dvp = Some d, vnfs_id = snd m', vnfs_markroot = False\<rparr>
       | Inr v \<Rightarrow> vnode_for E nt' v m')"
    using res by (cases res; cases "projr res") simp_all
  with r(1-3) res show ?thesis using vnode_for_keeps [OF _ r(3)] by blast
qed

definition demo_find :: find_env where
  \<comment> \<open>memory is handed out at the first of two free addresses\<close>
  "demo_find = \<lparr>fe_malloc = (\<lambda>nt. if nt_nodes nt 7 = None then Some (7, demo_node False False None)
       else if nt_nodes nt 8 = None then Some (8, demo_node False False None) else None),
     fe_getwithvid = (\<lambda>_. 0), fe_create = (\<lambda>_. 0)\<rparr>"

lemma demo_find_law: "malloc_law (fe_malloc demo_find)" "fe_getwithvid demo_find v = 0"
  by (auto simp: malloc_law_def demo_find_def split: if_splits)

text \<open>The table in which the root has just been found.\<close>

definition demo_nodes_table :: node_table where
  "demo_nodes_table = nt_initial
     \<lparr>nt_nodes := (nt_nodes nt_initial)(7 := Some \<lparr>node_vnode = Some 0, node_attaching_vnode = False,
        node_thread_waiting_attach = False, node_mnt_id = 7, node_id = PROCFS_ROOT_NODE_ID, node_structure_node = 0\<rparr>),
      nt_hash := (nt_hash nt_initial)(bucket_of 7 PROCFS_ROOT_NODE_ID := [7]),
      nt_vnodes := (nt_vnodes nt_initial)(0 := Some \<lparr>v_fsnode = 7, v_dying = False\<rparr>), nt_vseq := 1\<rparr>"

lemma initial_nodes_ok: "nodes_ok nt_initial"
  unfolding nodes_ok_def quiescent_def using nt_reachable_inv [OF nt_reachable.Init] by (simp add: inhash_def nt_initial_def)

lemma demo_root_found:
  "procfsnode_find demo_find \<lparr>fr_mount = 7, fr_id = PROCFS_ROOT_NODE_ID, fr_snode = 0\<rparr> nt_initial =
     Some (Inr (7, 0), demo_nodes_table)"
  by (simp add: procfsnode_find_def numeral_3_eq_3 nt_turn_def nt_search_def nt_initial_def demo_find_def nt_insert_def nt_decide_def
      nt_update_def nt_new_vnode_def nt_attached_def nt_discard_def demo_nodes_table_def Let_def fun_eq_iff)

lemma demo_table_ok: "nodes_ok demo_nodes_table" "vnode_for demo_vfs demo_nodes_table 0 (0, PROCFS_ROOT_NODE_ID)"
proof -
  have "nodeid_base_id PROCFS_ROOT_NODE_ID = psn_base_node_id (procfs_heap ! 0)" "0 < length procfs_heap"
    using demo_nodes(1) length_procfs_heap by (simp_all add: PROCFS_ROOT_NODE_ID_def PROCFS_ROOT_NODE_BASE_ID_def)
  with find_table [OF initial_nodes_ok demo_find_law, of "\<lparr>fr_mount = 7, fr_id = PROCFS_ROOT_NODE_ID, fr_snode = 0\<rparr>"]
  show "nodes_ok demo_nodes_table" by (simp add: demo_root_found)
  show "vnode_for demo_vfs demo_nodes_table 0 (0, PROCFS_ROOT_NODE_ID)"
    by (simp add: vnode_for_def demo_nodes_table_def demo_vfs_def)
qed

theorem vnop_lookup_refines_witness:
  "\<exists>v nt'. procfs_vnop_lookup (\<lambda>_. 0) demo_vfs demo_find (Some 0) ''42'' False demo_nodes_table = Some (Inr v, nt') \<and>
     vnode_for demo_vfs nt' v (113, mk_id 42 0 114)"
proof -
  have dir: "node_vtype demo_vfs (fst (0, PROCFS_ROOT_NODE_ID)) (snd (0, PROCFS_ROOT_NODE_ID)) = VDIR"
    using demo_nodes(1) by (simp add: node_vtype_def procfs_allocvp_def)
  have mem: "fe_malloc demo_find demo_nodes_table \<noteq> None"
    by (simp add: demo_find_def demo_nodes_table_def nt_initial_def)
  from vnop_lookup_refines [OF _ demo_table_ok(1) demo_find_law resolves.root demo_table_ok(2) dir, of "''42''" "\<lambda>_. 0"]
  obtain r nt' where "procfs_vnop_lookup (\<lambda>_. 0) demo_vfs demo_find (Some 0) ''42'' False demo_nodes_table = Some (r, nt')"
    "case r of Inl e \<Rightarrow> e = ENOMEM \<and> fe_malloc demo_find demo_nodes_table = None \<or> e \<noteq> 0 \<and> e = 0
     | Inr v \<Rightarrow> vnode_for demo_vfs nt' v (113, mk_id 42 0 114)"
    using demo_lookup by auto
  then show ?thesis using mem by (cases r) auto
qed

text \<open>
  C14: mount ids identify mounts. After any sequence of fewer than \<open>2 ^ 31\<close> mounts, with unmounts
  and other operations between them, the instance count is the number of mounted instances, two
  mounted instances have different ids and the statfs data of each carries its own, and no
  structure tree is left when nothing is mounted.
\<close>

theorem mount_ids_unique:
  assumes "vfs_run k st" "int k < 2 ^ 31"
  shows "ms_instances st = int (card (mounted st)) \<and>
    (\<forall>p q pmp qmp. ms_private st p = Some pmp \<longrightarrow> ms_private st q = Some qmp \<longrightarrow>
       fst (f_fsid (ms_statfs st p)) = pmnt_id pmp \<and> (pmnt_id pmp = pmnt_id qmp \<longrightarrow> p = q)) \<and>
    (mounted st = {} \<longrightarrow> procfs_structure_root_node (ms_store st) = None)"
proof -
  have inv: "mounts_inv k st" by (rule vfs_run_inv [OF assms])
  have "p = q" if "ms_private st p = Some pmp" "ms_private st q = Some qmp" "pmnt_id pmp = pmnt_id qmp" for p q pmp qmp
  proof -
    have "inj_on (\<lambda>mp. pmnt_id (the (ms_private st mp))) (mounted st)" using inv by (simp add: mounts_inv_def)
    then show ?thesis by (rule inj_onD) (use that in auto)
  qed
  moreover have "fst (f_fsid (ms_statfs st p)) = pmnt_id pmp" if "ms_private st p = Some pmp" for p pmp
    using inv that by (simp add: mounts_inv_def)
  ultimately show ?thesis using inv by (auto simp: mounts_inv_def procfs_structure_root_node_def)
qed

definition demo_mount :: mount_env where
  "demo_mount = \<lparr>me_malloc = Some \<lparr>pmnt_id = 0, pmnt_flags = 0, pmnt_mp = 0, pmnt_mount_time = (0, 0)\<rparr>, me_now = (5, 0),
     me_typenum = 17, me_vflush = (\<lambda>_ _. [])\<rparr>"

definition demo_boot :: mount_sys where
  "demo_boot = \<lparr>ms_mount_id = 0, ms_instances = 0, ms_private = (\<lambda>_. None), ms_flags = (\<lambda>_. 0),
     ms_statfs = (\<lambda>_. \<lparr>f_bsize = 0, f_iosize = 0, f_blocks = 0, f_bfree = 0, f_bavail = 0, f_bused = 0, f_files = 0, f_ffree = 0,
       f_fsid = (0, 0), f_owner = 0, f_mntfromname = []\<rparr>),
     ms_store = structure_initial, ms_buckets = False, ms_nodes = nt_initial\<rparr>"

theorem mount_ids_unique_witness:
  "ms_instances (snd (procfs_mount demo_mount 3 None (snd (procfs_mount demo_mount 4 None demo_boot)))) = int (card {3 :: nat, 4})"
proof -
  let ?one = "procfs_mount demo_mount 4 None demo_boot"
  let ?two = "procfs_mount demo_mount 3 None (snd ?one)"
  have "vfs_run 0 demo_boot" by (rule vfs_run.boot) (simp add: ms_boot_def demo_boot_def)
  then have "vfs_run (Suc 0) (snd ?one)" by (rule vfs_run.mount [where e = "fst ?one"]) simp
  then have "vfs_run (Suc (Suc 0)) (snd ?two)" by (rule vfs_run.mount [where e = "fst ?two"]) simp
  from mount_ids_unique [OF this] have "ms_instances (snd ?two) = int (card (mounted (snd ?two)))" by simp
  moreover have "mounted (snd ?two) = {3, 4}" by (auto simp: procfs_mount_def demo_mount_def demo_boot_def Let_def)
  ultimately show ?thesis by simp
qed

end
