(* ===== verification/LinuxProc.thy ===== *)
theory LinuxProc
  imports Listings
begin

text \<open>
  The per-process and per-thread files of \<open>kext/procfs_linux.c\<close> in Linux text form: comm, stat,
  statm, status, sched, io, cpu and the register and auxiliary vector dumps. Shown here: the
  one-line \<open>stat\<close> files can be parsed whatever the name of the process or thread is, and no file is
  cut by its fixed buffer.
\<close>

section \<open>Task and thread records\<close>

definition PROCFS_NS_PER_TICK :: u64 where "PROCFS_NS_PER_TICK = 10000000"
definition MAXTHREADNAMESIZE :: nat where "MAXTHREADNAMESIZE = 64"

definition cstr :: "bytes \<Rightarrow> cstring" where
  \<comment> \<open>a character array read as a string\<close>
  "cstr d = takeWhile (\<lambda>c. c \<noteq> NUL) d"

record proc_threadinfo =
  pth_user_time :: u64
  pth_system_time :: u64
  pth_policy :: int
  pth_run_state :: int
  pth_curpri :: int
  pth_name :: cstring

record proc_taskinfo =
  pti_virtual_size :: u64
  pti_resident_size :: u64
  pti_total_user :: u64
  pti_total_system :: u64
  pti_threadnum :: int
  pti_numrunning :: int

definition decode_threadinfo :: "bytes \<Rightarrow> proc_threadinfo" where
  "decode_threadinfo d = \<lparr>pth_user_time = le_u64 d, pth_system_time = le_u64 (drop 8 d), pth_policy = le_int32 (drop 20 d),
     pth_run_state = le_int32 (drop 24 d), pth_curpri = le_int32 (drop 36 d), pth_name = cstr (take MAXTHREADNAMESIZE (drop 48 d))\<rparr>"

definition decode_taskinfo :: "bytes \<Rightarrow> proc_taskinfo" where
  "decode_taskinfo d = \<lparr>pti_virtual_size = le_u64 d, pti_resident_size = le_u64 (drop 8 d), pti_total_user = le_u64 (drop 16 d),
     pti_total_system = le_u64 (drop 24 d), pti_threadnum = le_int32 (drop 84 d), pti_numrunning = le_int32 (drop 88 d)\<rparr>"

text \<open>A zeroed buffer after a request that may fail or fill it only in part.\<close>

definition fetched :: "nat \<Rightarrow> bytes res \<Rightarrow> bytes" where
  "fetched sz r = (case r of Inl _ \<Rightarrow> replicate sz NUL | Inr d \<Rightarrow> d @ replicate (sz - length d) NUL)"

definition fetch_status :: "nat \<Rightarrow> bytes res \<Rightarrow> errno" where
  "fetch_status sz r = (case r of Inr d \<Rightarrow> if length d = sz then 0 else ENOTSUP | Inl _ \<Rightarrow> ENOTSUP)"

definition procfs_thread_info :: "ctl_oracle \<Rightarrow> pfsnode \<Rightarrow> errno \<times> proc_threadinfo" where
  "procfs_thread_info ctl pnp =
     (let r = ctl REQ_THREADINFO (nodeid_pid (node_id pnp)) (nodeid_objectid (node_id pnp)) [] sizeof_threadinfo
      in (fetch_status sizeof_threadinfo r, decode_threadinfo (fetched sizeof_threadinfo r)))"

definition procfs_task_info :: "ctl_oracle \<Rightarrow> pfsnode \<Rightarrow> errno \<times> proc_taskinfo" where
  "procfs_task_info ctl pnp =
     (let r = ctl REQ_TASKINFO (nodeid_pid (node_id pnp)) 0 [] sizeof_taskinfo
      in (fetch_status sizeof_taskinfo r, decode_taskinfo (fetched sizeof_taskinfo r)))"

section \<open>States\<close>

definition SIDL :: int where "SIDL = 1"
definition SRUN :: int where "SRUN = 2"
definition SSLEEP :: int where "SSLEEP = 3"
definition SSTOP :: int where "SSTOP = 4"

definition procfs_proc_state :: "int \<Rightarrow> char" where
  "procfs_proc_state p_stat =
     (if p_stat = SIDL then CHR ''I'' else if p_stat = SRUN then CHR ''R'' else if p_stat = SSTOP then CHR ''T''
      else if p_stat = SZOMB then CHR ''Z'' else if p_stat = SSLEEP then CHR ''S'' else CHR ''S'')"

definition TH_STATE_RUNNING :: int where "TH_STATE_RUNNING = 1"
definition TH_STATE_STOPPED :: int where "TH_STATE_STOPPED = 2"
definition TH_STATE_UNINTERRUPTIBLE :: int where "TH_STATE_UNINTERRUPTIBLE = 4"

definition procfs_thread_state :: "int \<Rightarrow> char" where
  "procfs_thread_state rstate =
     (if rstate = TH_STATE_RUNNING then CHR ''R'' else if rstate = TH_STATE_STOPPED then CHR ''T''
      else if rstate = TH_STATE_UNINTERRUPTIBLE then CHR ''D'' else CHR ''S'')"

definition procfs_thread_state_word :: "char \<Rightarrow> string" where
  "procfs_thread_state_word c =
     (if c = CHR ''R'' then ''running'' else if c = CHR ''T'' then ''stopped'' else if c = CHR ''D'' then ''disk sleep''
      else if c = CHR ''Z'' then ''zombie'' else if c = CHR ''I'' then ''idle'' else ''sleeping'')"

section \<open>The context of a process\<close>

record procfs_pctx =
  cx_pid :: int
  cx_ppid :: int
  cx_pgid :: int
  cx_sid :: int
  cx_nthreads :: int
  cx_vsize :: u64
  cx_rsize :: u64
  cx_comm :: cstring
  cx_state :: char

definition proc_name :: "kproc \<Rightarrow> cstring" where
  \<comment> \<open>\<open>proc_name\<close> into a buffer of \<open>MAXCOMLEN + 1\<close> bytes\<close>
  "proc_name p = strlcpy (kp_name p) (MAXCOMLEN + 1)"

definition procfs_pctx_get :: "task_env \<Rightarrow> ctl_oracle \<Rightarrow> proc_table \<Rightarrow> pfsnode \<Rightarrow> procfs_pctx" where
  "procfs_pctx_get T ctl proc_find pnp =
     (let pid = nodeid_pid (node_id pnp) in
      case proc_find pid of
        None \<Rightarrow> \<lparr>cx_pid = pid, cx_ppid = 0, cx_pgid = 0, cx_sid = 0, cx_nthreads = 0, cx_vsize = 0, cx_rsize = 0,
                 cx_comm = [], cx_state = CHR ''S''\<rparr>
      | Some p \<Rightarrow>
          let state = procfs_proc_state (kp_stat p);
              (error, ti) = procfs_task_info ctl pnp;
              (vsize, rsize, nthreads, state') =
                (if error = 0
                 then (pti_virtual_size ti, pti_resident_size ti, pti_threadnum ti,
                       if state = CHR ''R'' \<and> pti_numrunning ti = 0 then CHR ''S'' else state)
                 else (case procfs_task_vm_sizes (te_page_size T) ctl p of (_, v, r) \<Rightarrow>
                       (v, r, int (task_thread_count T ctl p), state)))
          in \<lparr>cx_pid = pid, cx_ppid = kp_ppid p, cx_pgid = kp_pgrpid p, cx_sid = kp_sessionid p, cx_nthreads = nthreads,
              cx_vsize = vsize, cx_rsize = rsize, cx_comm = proc_name p, cx_state = state'\<rparr>)"

section \<open>Thread files\<close>

type_synonym pid_read = "kio \<Rightarrow> task_env \<Rightarrow> ctl_oracle \<Rightarrow> proc_table \<Rightarrow> pfsnode \<Rightarrow> uio \<Rightarrow> errno \<times> uio"

definition thread_name :: "proc_threadinfo \<Rightarrow> cstring \<Rightarrow> cstring" where
  "thread_name ti comm = (if pth_name ti \<noteq> [] then pth_name ti else comm)"

definition procfs_dothreadcomm :: "kio \<Rightarrow> ctl_oracle \<Rightarrow> proc_table \<Rightarrow> pfsnode \<Rightarrow> uio \<Rightarrow> errno \<times> uio" where
  "procfs_dothreadcomm K ctl proc_find pnp u =
     (let ti = snd (procfs_thread_info ctl pnp);
          comm = (case proc_find (nodeid_pid (node_id pnp)) of None \<Rightarrow> [] | Some p \<Rightarrow> proc_name p)
      in copy_snprintf K (MAXTHREADNAMESIZE + 2) (thread_name ti comm @ [NEWLINE]) u)"

text \<open>The format of the two \<open>stat\<close> lines, with the fields in which they differ as arguments.\<close>

definition stat_text :: "string \<Rightarrow> cstring \<Rightarrow> char \<Rightarrow> procfs_pctx \<Rightarrow> u64 \<Rightarrow> u64 \<Rightarrow> int \<Rightarrow> u64 \<Rightarrow> int \<Rightarrow> string" where
  "stat_text ident name state c utime stime pri rss_pages policy =
     ident @ '' ('' @ name @ '') '' @ [state] @ '' '' @ dec_int (cx_ppid c) @ '' '' @ dec_int (cx_pgid c) @ '' '' @
     dec_int (cx_sid c) @ '' 0 -1 0 0 0 0 0 '' @
     dec (unat utime) @ '' '' @ dec (unat stime) @ '' 0 0 '' @ dec_int pri @ '' 0 '' @ dec_int (cx_nthreads c) @ '' 0 0 '' @
     dec (unat (cx_vsize c)) @ '' '' @ dec (unat rss_pages) @ '' 18446744073709551615 '' @
     ''0 0 0 0 0 0 0 0 0 0 0 0 0 0 0 '' @ dec_int policy @ '' 0 0 0 0 0 0 0 0 0 0 0'' @ [NEWLINE]"

definition thread_stat_text :: "task_env \<Rightarrow> ctl_oracle \<Rightarrow> proc_table \<Rightarrow> pfsnode \<Rightarrow> string" where
  "thread_stat_text T ctl proc_find pnp =
     (let ti = snd (procfs_thread_info ctl pnp); c = procfs_pctx_get T ctl proc_find pnp
      in stat_text (dec (unat (nodeid_objectid (node_id pnp)))) (thread_name ti (cx_comm c))
           (procfs_thread_state (pth_run_state ti)) c (pth_user_time ti div PROCFS_NS_PER_TICK)
           (pth_system_time ti div PROCFS_NS_PER_TICK) (pth_curpri ti) (cx_rsize c div te_page_size T) (pth_policy ti))"

definition procfs_dothreadstat :: pid_read where
  "procfs_dothreadstat K T ctl proc_find pnp u = copy_snprintf K 640 (thread_stat_text T ctl proc_find pnp) u"

definition thread_status_text :: "task_env \<Rightarrow> ctl_oracle \<Rightarrow> proc_table \<Rightarrow> pfsnode \<Rightarrow> string" where
  "thread_status_text T ctl proc_find pnp =
     (let ti = snd (procfs_thread_info ctl pnp); c = procfs_pctx_get T ctl proc_find pnp;
          st = procfs_thread_state (pth_run_state ti)
      in ''Name:'' @ TAB @ thread_name ti (cx_comm c) @ [NEWLINE] @
         ''State:'' @ TAB @ [st] @ '' ('' @ procfs_thread_state_word st @ '')'' @ [NEWLINE] @
         ''Tgid:'' @ TAB @ dec_int (cx_pid c) @ [NEWLINE] @
         ''Pid:'' @ TAB @ dec (unat (nodeid_objectid (node_id pnp))) @ [NEWLINE] @
         ''PPid:'' @ TAB @ dec_int (cx_ppid c) @ [NEWLINE] @
         ''VmSize:'' @ TAB @ dec8 (drop_bit 10 (cx_vsize c)) @ '' kB'' @ [NEWLINE] @
         ''VmStk:'' @ TAB @ dec8 0 @ '' kB'' @ [NEWLINE] @
         ''Threads:'' @ TAB @ dec_int (cx_nthreads c) @ [NEWLINE] @
         ''voluntary_ctxt_switches:'' @ TAB @ ''0'' @ [NEWLINE] @
         ''nonvoluntary_ctxt_switches:'' @ TAB @ ''0'' @ [NEWLINE])"

definition procfs_dothreadstatus :: pid_read where
  "procfs_dothreadstatus K T ctl proc_find pnp u = copy_snprintf K 512 (thread_status_text T ctl proc_find pnp) u"

definition dec20 :: "u64 \<Rightarrow> string" where
  "dec20 w = pad_left CHR '' '' 20 (dec (unat w))"

definition thread_sched_text :: "task_env \<Rightarrow> ctl_oracle \<Rightarrow> proc_table \<Rightarrow> pfsnode \<Rightarrow> string" where
  "thread_sched_text T ctl proc_find pnp =
     (let ti = snd (procfs_thread_info ctl pnp); c = procfs_pctx_get T ctl proc_find pnp
      in thread_name ti (cx_comm c) @ '' ('' @ dec (unat (nodeid_objectid (node_id pnp))) @ '', #threads: '' @
           dec_int (cx_nthreads c) @ '')'' @ [NEWLINE] @
         replicate 67 CHR ''-'' @ [NEWLINE] @
         ''se.sum_exec_runtime  : '' @ dec20 (pth_user_time ti + pth_system_time ti) @ [NEWLINE] @
         ''policy               : '' @ pad_left CHR '' '' 20 (dec_int (pth_policy ti)) @ [NEWLINE] @
         ''prio                 : '' @ pad_left CHR '' '' 20 (dec_int (pth_curpri ti)) @ [NEWLINE])"

definition procfs_dothreadsched :: pid_read where
  "procfs_dothreadsched K T ctl proc_find pnp u = copy_snprintf K 512 (thread_sched_text T ctl proc_find pnp) u"

section \<open>Process files\<close>

definition procfs_docomm :: pid_read where
  "procfs_docomm K T ctl proc_find pnp u =
     copy_snprintf K (MAXCOMLEN + 2) (cx_comm (procfs_pctx_get T ctl proc_find pnp) @ [NEWLINE]) u"

definition procfs_dostatm :: pid_read where
  "procfs_dostatm K T ctl proc_find pnp u =
     (let c = procfs_pctx_get T ctl proc_find pnp
      in copy_snprintf K 128 (dec (unat (cx_vsize c div te_page_size T)) @ '' '' @
           dec (unat (cx_rsize c div te_page_size T)) @ '' 0 0 0 0 0'' @ [NEWLINE]) u)"

definition io_counters :: "bytes res \<Rightarrow> u64 \<times> u64" where
  "io_counters r = (case r of Inr d \<Rightarrow> if length d = 16 then (le_u64 d, le_u64 (drop 8 d)) else (0, 0) | Inl _ \<Rightarrow> (0, 0))"

definition procfs_doio :: "kio \<Rightarrow> ctl_oracle \<Rightarrow> proc_table \<Rightarrow> cred \<Rightarrow> pfsnode \<Rightarrow> uio \<Rightarrow> errno \<times> uio" where
  "procfs_doio K ctl proc_find creds pnp u = (case proc_find (nodeid_pid (node_id pnp)) of None \<Rightarrow> (ESRCH, u)
     | Some p \<Rightarrow>
         let error = procfs_check_can_access_process creds p in
         if error \<noteq> 0 then (error, u)
         else (case io_counters (ctl REQ_RUSAGE (nodeid_pid (node_id pnp)) 0 [] 16) of (rd, wr) \<Rightarrow>
           copy_snprintf K 256 (''rchar: 0'' @ [NEWLINE] @ ''wchar: 0'' @ [NEWLINE] @ ''syscr: 0'' @ [NEWLINE] @
             ''syscw: 0'' @ [NEWLINE] @ ''read_bytes: '' @ dec (unat rd) @ [NEWLINE] @
             ''write_bytes: '' @ dec (unat wr) @ [NEWLINE] @ ''cancelled_write_bytes: 0'' @ [NEWLINE]) u))"

definition proc_stat_text :: "task_env \<Rightarrow> ctl_oracle \<Rightarrow> proc_table \<Rightarrow> pfsnode \<Rightarrow> string" where
  "proc_stat_text T ctl proc_find pnp =
     (let c = procfs_pctx_get T ctl proc_find pnp; ti = snd (procfs_task_info ctl pnp)
      in stat_text (dec_int (cx_pid c)) (cx_comm c) (cx_state c) c (pti_total_user ti div PROCFS_NS_PER_TICK)
           (pti_total_system ti div PROCFS_NS_PER_TICK) 20 (cx_rsize c div te_page_size T) 0)"

definition procfs_doprocstat :: pid_read where
  "procfs_doprocstat K T ctl proc_find pnp u = copy_snprintf K 640 (proc_stat_text T ctl proc_find pnp) u"

definition cpu_text :: "u64 \<Rightarrow> u64 \<Rightarrow> nat \<Rightarrow> string" where
  "cpu_text utime stime ncpu = ''cpu  '' @ dec (unat utime) @ '' '' @ dec (unat stime) @ [NEWLINE] @
     concat (map (\<lambda>i. ''cpu'' @ dec i @ '' '' @ dec (unat (if i = 0 then utime else 0)) @ '' '' @
       dec (unat (if i = 0 then stime else 0)) @ [NEWLINE]) [0..<ncpu])"

definition procfs_docpu :: "kio \<Rightarrow> bool \<Rightarrow> u32 option \<Rightarrow> ctl_oracle \<Rightarrow> pfsnode \<Rightarrow> uio \<Rightarrow> errno \<times> uio" where
  "procfs_docpu K sbuf_ok logicalcpu ctl pnp u =
     (let ti = snd (procfs_task_info ctl pnp); ncpu = procfs_online_cpus logicalcpu
      in if \<not> sbuf_ok then (ENOMEM, u)
         else copy_out K (cpu_text (pti_total_user ti div PROCFS_NS_PER_TICK) (pti_total_system ti div PROCFS_NS_PER_TICK) ncpu) u)"

definition ids_row :: "u32 \<Rightarrow> u32 \<Rightarrow> u32 \<Rightarrow> string" where
  \<comment> \<open>real, effective, saved and file system id; the last is the effective one\<close>
  "ids_row r e sv = TAB @ dec (unat r) @ TAB @ dec (unat e) @ TAB @ dec (unat sv) @ TAB @ dec (unat e) @ [NEWLINE]"

definition proc_status_text :: "procfs_pctx \<Rightarrow> kproc option \<Rightarrow> string" where
  "proc_status_text c p =
     (let (ruid, euid, svuid) = (case p of None \<Rightarrow> (0, 0, 0) | Some p \<Rightarrow> (kp_ruid p, kp_uid p, kp_svuid p));
          (rgid, egid, svgid) = (case p of None \<Rightarrow> (0, 0, 0) | Some p \<Rightarrow> (kp_rgid p, kp_gid p, kp_svgid p))
      in ''Name:'' @ TAB @ cx_comm c @ [NEWLINE] @
         ''State:'' @ TAB @ [cx_state c] @ '' ('' @ procfs_thread_state_word (cx_state c) @ '')'' @ [NEWLINE] @
         ''Tgid:'' @ TAB @ dec_int (cx_pid c) @ [NEWLINE] @
         ''Pid:'' @ TAB @ dec_int (cx_pid c) @ [NEWLINE] @
         ''PPid:'' @ TAB @ dec_int (cx_ppid c) @ [NEWLINE] @
         ''TracerPid:'' @ TAB @ ''0'' @ [NEWLINE] @
         ''Uid:'' @ ids_row ruid euid svuid @ ''Gid:'' @ ids_row rgid egid svgid @
         ''VmSize:'' @ TAB @ dec8 (drop_bit 10 (cx_vsize c)) @ '' kB'' @ [NEWLINE] @
         ''VmRSS:'' @ TAB @ dec8 (drop_bit 10 (cx_rsize c)) @ '' kB'' @ [NEWLINE] @
         ''Threads:'' @ TAB @ dec_int (cx_nthreads c) @ [NEWLINE] @
         ''voluntary_ctxt_switches:'' @ TAB @ ''0'' @ [NEWLINE] @
         ''nonvoluntary_ctxt_switches:'' @ TAB @ ''0'' @ [NEWLINE])"

definition procfs_doprocstatus_linux :: "kio \<Rightarrow> bool \<Rightarrow> task_env \<Rightarrow> ctl_oracle \<Rightarrow> proc_table \<Rightarrow> pfsnode \<Rightarrow> uio \<Rightarrow> errno \<times> uio" where
  "procfs_doprocstatus_linux K sbuf_ok T ctl proc_find pnp u =
     (if \<not> sbuf_ok then (ENOMEM, u)
      else copy_out K (proc_status_text (procfs_pctx_get T ctl proc_find pnp) (proc_find (nodeid_pid (node_id pnp)))) u)"

section \<open>Registers and auxiliary vector\<close>

text \<open>
  The register buffer is not cleared: where the daemon sends less than a whole record, the rest is
  what the stack held, the argument \<open>stale\<close>. \<open>x86\<close> selects the build.
\<close>

definition hex8 :: "u32 \<Rightarrow> string" where
  "hex8 w = pad_left CHR ''0'' 8 (hex (unat w))"

definition reg_line :: "string \<Rightarrow> u64 \<Rightarrow> string" where
  "reg_line nm v = nm @ ''0x'' @ hex016 v @ [NEWLINE]"

definition regs_text_arm64 :: "bytes \<Rightarrow> string" where
  "regs_text_arm64 st =
     concat (map (\<lambda>i. reg_line (''x'' @ pad_right 2 (dec i) @ ''  '') (le_u64 (drop (8 * i) st))) [0..<29]) @
     reg_line ''fp   '' (le_u64 (drop 232 st)) @ reg_line ''lr   '' (le_u64 (drop 240 st)) @
     reg_line ''sp   '' (le_u64 (drop 248 st)) @ reg_line ''pc   '' (le_u64 (drop 256 st)) @
     ''cpsr 0x'' @ hex8 (le_u32 (drop 264 st)) @ [NEWLINE]"

definition regs_text_x86 :: "bytes \<Rightarrow> string" where
  \<comment> \<open>the record holds rdi before rsi, the text shows rsi first\<close>
  "regs_text_x86 st =
     (let r = (\<lambda>i. le_u64 (drop (8 * i) st)) in
      reg_line ''rax '' (r 0) @ reg_line ''rbx '' (r 1) @ reg_line ''rcx '' (r 2) @ reg_line ''rdx '' (r 3) @
      reg_line ''rsi '' (r 5) @ reg_line ''rdi '' (r 4) @ reg_line ''rbp '' (r 6) @ reg_line ''rsp '' (r 7) @
      reg_line ''r8  '' (r 8) @ reg_line ''r9  '' (r 9) @ reg_line ''r10 '' (r 10) @ reg_line ''r11 '' (r 11) @
      reg_line ''r12 '' (r 12) @ reg_line ''r13 '' (r 13) @ reg_line ''r14 '' (r 14) @ reg_line ''r15 '' (r 15) @
      reg_line ''rip '' (r 16) @ reg_line ''rflags '' (r 17))"

definition fpregs_text_arm64 :: "bytes \<Rightarrow> string" where
  "fpregs_text_arm64 st =
     concat (map (\<lambda>i. ''q'' @ pad_right 2 (dec i) @ ''  0x'' @ hex016 (le_u64 (drop (16 * i + 8) st)) @
       hex016 (le_u64 (drop (16 * i) st)) @ [NEWLINE]) [0..<32]) @
     ''fpsr 0x'' @ hex8 (le_u32 (drop 512 st)) @ [NEWLINE] @ ''fpcr 0x'' @ hex8 (le_u32 (drop 516 st)) @ [NEWLINE]"

definition regs_filled :: "bytes res \<Rightarrow> bytes \<Rightarrow> bytes option" where
  "regs_filled r stale = (case r of Inr d \<Rightarrow> if 0 < length d then Some (d @ drop (length d) stale) else None | Inl _ \<Rightarrow> None)"

definition regs_text_node :: "kio \<Rightarrow> bool \<Rightarrow> proc_table \<Rightarrow> pfsnode \<Rightarrow> string \<Rightarrow> uio \<Rightarrow> errno \<times> uio" where
  \<comment> \<open>the checks the two dumps share; \<open>text\<close> is what they print\<close>
  "regs_text_node K sbuf_ok proc_find pnp text u =
     (if uio_rw u \<noteq> UIO_READ then (EOPNOTSUPP, u)
      else (case proc_find (nodeid_pid (node_id pnp)) of None \<Rightarrow> (ESRCH, u)
        | Some p \<Rightarrow> if no_user_stack p then (ESRCH, u) else if \<not> sbuf_ok then (ENOMEM, u) else copy_out K text u))"

definition procfs_doregs_linux :: "bool \<Rightarrow> bytes \<Rightarrow> kio \<Rightarrow> bool \<Rightarrow> ctl_oracle \<Rightarrow> proc_table \<Rightarrow> pfsnode \<Rightarrow> uio \<Rightarrow> errno \<times> uio" where
  "procfs_doregs_linux x86 stale K sbuf_ok ctl proc_find pnp u =
     regs_text_node K sbuf_ok proc_find pnp
       (case regs_filled (ctl REQ_REGS (nodeid_pid (node_id pnp)) 0 [] (if x86 then 168 else ARM_THREAD_STATE64_COUNT * 4)) stale of
          None \<Rightarrow> [] | Some st \<Rightarrow> if x86 then regs_text_x86 st else regs_text_arm64 st) u"

definition procfs_dofpregs_linux :: "bool \<Rightarrow> bytes \<Rightarrow> kio \<Rightarrow> bool \<Rightarrow> ctl_oracle \<Rightarrow> proc_table \<Rightarrow> pfsnode \<Rightarrow> uio \<Rightarrow> errno \<times> uio" where
  "procfs_dofpregs_linux x86 stale K sbuf_ok ctl proc_find pnp u =
     regs_text_node K sbuf_ok proc_find pnp
       (if x86 then ''fpregs: x86_64 text format not implemented'' @ [NEWLINE]
        else (case regs_filled (ctl REQ_FPREGS (nodeid_pid (node_id pnp)) 0 [] (ARM_NEON_STATE64_COUNT * 4)) stale of
          None \<Rightarrow> [] | Some st \<Rightarrow> fpregs_text_arm64 st)) u"

definition procfs_doauxv_linux :: "kio \<Rightarrow> bool \<Rightarrow> task_env \<Rightarrow> proc_table \<Rightarrow> pfsnode \<Rightarrow> uio \<Rightarrow> errno \<times> uio" where
  "procfs_doauxv_linux K sbuf_ok T proc_find pnp u =
     (if uio_rw u \<noteq> UIO_READ then (EOPNOTSUPP, u)
      else (case proc_find (nodeid_pid (node_id pnp)) of None \<Rightarrow> (ESRCH, u)
        | Some p \<Rightarrow> if \<not> sbuf_ok then (ENOMEM, u)
            else copy_out K (''AT_PAGESZ'' @ TAB @ dec (unat (ucast (te_page_size T) :: u32)) @ [NEWLINE] @
              ''AT_CLKTCK'' @ TAB @ ''100'' @ [NEWLINE] @
              ''AT_UID'' @ TAB @ dec (unat (kp_ruid p)) @ [NEWLINE] @ ''AT_EUID'' @ TAB @ dec (unat (kp_uid p)) @ [NEWLINE] @
              ''AT_GID'' @ TAB @ dec (unat (kp_rgid p)) @ [NEWLINE] @ ''AT_EGID'' @ TAB @ dec (unat (kp_gid p)) @ [NEWLINE] @
              ''AT_SECURE'' @ TAB @ ''0'' @ [NEWLINE]) u))"

section \<open>Reading a stat line\<close>

text \<open>
  How a program reads a \<open>stat\<close> line: the id is what precedes the first opening parenthesis, the
  name reaches to the last closing one, and the fields after it are separated by single blanks.
\<close>

fun split_on :: "char \<Rightarrow> string \<Rightarrow> string list" where
  "split_on s [] = [[]]"
| "split_on s (c # cs) = (if c = s then [] # split_on s cs
     else (case split_on s cs of [] \<Rightarrow> [[c]] | w # ws \<Rightarrow> (c # w) # ws))"

definition read_stat :: "string \<Rightarrow> string \<times> string \<times> string list" where
  "read_stat line =
     (let front = takeWhile (\<lambda>c. c \<noteq> CHR ''('') line;
          rest = rev (takeWhile (\<lambda>c. c \<noteq> CHR '')'') (rev line))
      in (butlast front, drop (length front + 1) (take (length line - length rest - 1) line),
          split_on CHR '' '' (butlast (tl rest))))"

definition stat_fields :: "char \<Rightarrow> procfs_pctx \<Rightarrow> u64 \<Rightarrow> u64 \<Rightarrow> int \<Rightarrow> u64 \<Rightarrow> int \<Rightarrow> string list" where
  \<comment> \<open>fields 3 to 52\<close>
  "stat_fields state c utime stime pri rss_pages policy =
     [[state], dec_int (cx_ppid c), dec_int (cx_pgid c), dec_int (cx_sid c), ''0'', ''-1'', ''0'', ''0'', ''0'', ''0'', ''0'',
      dec (unat utime), dec (unat stime), ''0'', ''0'', dec_int pri, ''0'', dec_int (cx_nthreads c), ''0'', ''0'',
      dec (unat (cx_vsize c)), dec (unat rss_pages), ''18446744073709551615''] @ replicate 15 ''0'' @ [dec_int policy] @ replicate 11 ''0''"

lemma split_on_single: "s \<notin> set w \<Longrightarrow> split_on s w = [w]"
  by (induction w) auto

lemma split_on_word: "s \<notin> set w \<Longrightarrow> split_on s (w @ s # r) = w # split_on s r"
  by (induction w) auto

lemma split_on_join:
  "\<forall>w\<in>set ws. s \<notin> set w \<Longrightarrow> split_on s (concat (map (\<lambda>w. w @ [s]) ws) @ v) = ws @ split_on s v"
  by (induction ws) (simp_all add: split_on_word)

lemma takeWhile_stop: "x \<notin> set xs \<Longrightarrow> takeWhile (\<lambda>c. c \<noteq> x) (xs @ x # ys) = xs"
  by (induction xs) auto

lemma read_stat_parts:
  assumes "CHR ''('' \<notin> set ident" "CHR '')'' \<notin> set fs"
  shows "read_stat (ident @ '' ('' @ name @ '') '' @ fs @ [NEWLINE]) = (ident, name, split_on CHR '' '' fs)"
proof -
  have front: "takeWhile (\<lambda>c. c \<noteq> CHR ''('') (ident @ '' ('' @ name @ '') '' @ fs @ [NEWLINE]) = ident @ '' ''"
    using takeWhile_stop [of "CHR ''(''" "ident @ '' ''" "name @ '') '' @ fs @ [NEWLINE]"] assms(1) by simp
  have "takeWhile (\<lambda>c. c \<noteq> CHR '')'') (rev (ident @ '' ('' @ name @ '') '' @ fs @ [NEWLINE])) = [NEWLINE] @ rev fs @ '' ''"
    using takeWhile_stop [of "CHR '')''" "[NEWLINE] @ rev fs @ '' ''" "rev name @ ''( '' @ rev ident"] assms(2) by simp
  then have rest: "rev (takeWhile (\<lambda>c. c \<noteq> CHR '')'') (rev (ident @ '' ('' @ name @ '') '' @ fs @ [NEWLINE]))) = '' '' @ fs @ [NEWLINE]"
    by simp
  show ?thesis unfolding read_stat_def Let_def front rest by (simp add: butlast_append)
qed

lemma dec_chars: "c \<in> set (dec n) \<Longrightarrow> c \<noteq> CHR '' '' \<and> c \<noteq> CHR ''('' \<and> c \<noteq> CHR '')''"
  using dec_digits [of c n] by (auto simp: is_digit_def)

lemma dec_int_chars: "c \<in> set (dec_int i) \<Longrightarrow> c \<noteq> CHR '' '' \<and> c \<noteq> CHR ''('' \<and> c \<noteq> CHR '')''"
  by (auto simp: dec_int_def dest: dec_chars split: if_splits)

lemma dec_int_no [simp]: "CHR '' '' \<notin> set (dec_int i)" "CHR ''('' \<notin> set (dec_int i)" "CHR '')'' \<notin> set (dec_int i)"
  using dec_int_chars by blast+

lemma dec_no [simp]: "CHR '' '' \<notin> set (dec n)" "CHR ''('' \<notin> set (dec n)" "CHR '')'' \<notin> set (dec n)"
  using dec_chars by blast+

lemma stat_text_fields:
  "\<exists>fs. stat_text ident name state c ut st pri rss pol = ident @ '' ('' @ name @ '') '' @ fs @ [NEWLINE] \<and>
     (state \<notin> {CHR '' '', CHR '')''} \<longrightarrow> CHR '')'' \<notin> set fs \<and> split_on CHR '' '' fs = stat_fields state c ut st pri rss pol)"
proof -
  let ?F = "stat_fields state c ut st pri rss pol"
  let ?fs = "concat (map (\<lambda>w. w @ '' '') (butlast ?F)) @ ''0''"
  have eq: "stat_text ident name state c ut st pri rss pol = ident @ '' ('' @ name @ '') '' @ ?fs @ [NEWLINE]"
    by (simp add: stat_text_def stat_fields_def numeral_eq_Suc)
  have last: "?F = butlast ?F @ [''0'']" by (simp add: stat_fields_def numeral_eq_Suc)
  have "split_on CHR '' '' ?fs = ?F \<and> CHR '')'' \<notin> set ?fs" if "state \<notin> {CHR '' '', CHR '')''}"
  proof -
    have "\<forall>w\<in>set (butlast ?F). CHR '' '' \<notin> set w \<and> CHR '')'' \<notin> set w"
      using that by (auto simp: stat_fields_def numeral_eq_Suc)
    moreover from this have "split_on CHR '' '' ?fs = butlast ?F @ [''0'']"
      using split_on_join [of "butlast ?F" "CHR '' ''" "''0''"] by auto
    ultimately show ?thesis unfolding last [symmetric] by auto
  qed
  then show ?thesis using eq by blast
qed

lemma read_stat_text:
  assumes "CHR ''('' \<notin> set ident" "state \<notin> {CHR '' '', CHR '')''}"
  shows "read_stat (stat_text ident name state c ut st pri rss pol) = (ident, name, stat_fields state c ut st pri rss pol)"
  using stat_text_fields [of ident name state c ut st pri rss pol] read_stat_parts [OF assms(1)] assms(2) by auto

section \<open>No buffer is too small\<close>

definition i32 :: "int \<Rightarrow> bool" where
  "i32 i \<longleftrightarrow> - (2 ^ 31) \<le> i \<and> i < 2 ^ 31"

lemma length_dec_int:
  assumes "i32 i"
  shows "length (dec_int i) \<le> 11"
proof -
  have "nat \<bar>i\<bar> < 10 ^ 10" using assms by (auto simp: i32_def nat_less_iff)
  then show ?thesis using dec_length_le [of "nat \<bar>i\<bar>" 10] by (cases "i < 0") (simp_all add: dec_int_def)
qed

lemma length_dec_u64: "length (dec (unat (w :: u64))) \<le> 20"
  using dec_length_le [of "unat w" 20] unsigned_less [of w, where 'a = nat] by simp

lemma i32_le_int32 [simp]: "i32 (le_int32 d)"
  using sint_range_size [of "of_nat (le_nat (take 4 d)) :: u32"] by (simp add: i32_def le_int32_def word_size)

lemma length_cstr: "length (cstr d) \<le> length d"
  by (simp add: cstr_def length_takeWhile_le)

lemma length_stat_text:
  assumes "length ident \<le> 20" "length name \<le> 64" "i32 (cx_ppid c)" "i32 (cx_pgid c)" "i32 (cx_sid c)" "i32 (cx_nthreads c)"
    and "i32 pri" "i32 pol"
  shows "length (stat_text ident name state c ut st pri rss pol) < 640"
  using assms(1,2) length_dec_int [OF assms(3)] length_dec_int [OF assms(4)] length_dec_int [OF assms(5)]
    length_dec_int [OF assms(6)] length_dec_int [OF assms(7)] length_dec_int [OF assms(8)]
    length_dec_u64 [of ut] length_dec_u64 [of st] length_dec_u64 [of "cx_vsize c"] length_dec_u64 [of rss]
  by (simp add: stat_text_def)

lemma length_pad_left: "length (pad_left c n s) = max n (length s)"
  by (simp add: pad_left_def)

lemma length_proc_name: "length (proc_name p) \<le> 16"
  by (simp add: proc_name_def strlcpy_def MAXCOMLEN_def)

lemma length_thread_name: "length comm \<le> 64 \<Longrightarrow> length (thread_name (snd (procfs_thread_info ctl pnp)) comm) \<le> 64"
  using length_cstr [of "take 64 (drop 48 d)" for d]
  by (auto simp: thread_name_def procfs_thread_info_def Let_def decode_threadinfo_def MAXTHREADNAMESIZE_def intro: order_trans)

text \<open>What the kernel says of a process: its ids are of type \<open>pid_t\<close>.\<close>

definition proc_ids_ok :: "kproc \<Rightarrow> bool" where
  "proc_ids_ok p \<longleftrightarrow> i32 (kp_ppid p) \<and> i32 (kp_pgrpid p) \<and> i32 (kp_sessionid p)"

definition pctx_ok :: "procfs_pctx \<Rightarrow> bool" where
  "pctx_ok c \<longleftrightarrow> i32 (cx_ppid c) \<and> i32 (cx_pgid c) \<and> i32 (cx_sid c) \<and> i32 (cx_nthreads c) \<and> length (cx_comm c) \<le> 16 \<and>
     cx_state c \<in> set ''IRTZS''"

text \<open>The bridge hands out at most what was asked for, so a thread list has at most 256 entries.\<close>

context ctl_bridge
begin

lemma thread_count_bound: "task_thread_count T request p \<le> 256"
proof -
  have "length d div 8 \<le> 256" if "request REQ_THREADLIST (kp_pid p) 0 [] PROCFS_CTL_MAXPAYLOAD = Inr d" for d
    using request_len [OF that] by (simp add: PROCFS_CTL_MAXPAYLOAD_def)
  then show ?thesis
    by (auto simp: task_thread_count_def procfs_get_task_thread_count_def procfs_get_thread_ids_for_task_def u64s_def
        split: if_splits sum.splits)
qed

lemma pctx_ok_get:
  assumes "\<And>p. proc_find (nodeid_pid (node_id pnp)) = Some p \<Longrightarrow> proc_ids_ok p"
  shows "pctx_ok (procfs_pctx_get T request proc_find pnp)"
proof (cases "proc_find (nodeid_pid (node_id pnp))")
  case None
  then show ?thesis by (simp add: procfs_pctx_get_def pctx_ok_def i32_def)
next
  case (Some p)
  have "i32 (int (task_thread_count T request p))" using thread_count_bound [of T p] by (simp add: i32_def)
  moreover have "procfs_proc_state (kp_stat p) \<in> set ''IRTZS''" by (simp add: procfs_proc_state_def)
  ultimately show ?thesis
    using assms [OF Some] length_proc_name [of p] Some
    by (auto simp: procfs_pctx_get_def pctx_ok_def proc_ids_ok_def procfs_task_info_def decode_taskinfo_def Let_def
        split: prod.splits if_splits)
qed

lemma stat_lines_fit:
  assumes "\<And>p. proc_find (nodeid_pid (node_id pnp)) = Some p \<Longrightarrow> proc_ids_ok p" "i32 (nodeid_pid (node_id pnp))"
  shows "length (proc_stat_text T request proc_find pnp) < 640" "length (thread_stat_text T request proc_find pnp) < 640"
proof -
  let ?c = "procfs_pctx_get T request proc_find pnp"
  have c: "pctx_ok ?c" by (rule pctx_ok_get [OF assms(1)])
  have "cx_pid ?c = nodeid_pid (node_id pnp)"
    by (simp add: procfs_pctx_get_def Let_def split: option.splits prod.splits)
  with c assms(2) show "length (proc_stat_text T request proc_find pnp) < 640"
    using length_dec_int [of "cx_pid ?c"] unfolding proc_stat_text_def Let_def
    by (intro length_stat_text) (auto simp: pctx_ok_def i32_def)
  show "length (thread_stat_text T request proc_find pnp) < 640"
    using c length_dec_u64 length_thread_name [of "cx_comm ?c" request pnp] unfolding thread_stat_text_def Let_def
    by (intro length_stat_text) (auto simp: pctx_ok_def procfs_thread_info_def Let_def decode_threadinfo_def)
qed

lemma thread_texts_fit:
  assumes "\<And>p. proc_find (nodeid_pid (node_id pnp)) = Some p \<Longrightarrow> proc_ids_ok p" "i32 (nodeid_pid (node_id pnp))"
  shows "length (thread_status_text T request proc_find pnp) < 512" "length (thread_sched_text T request proc_find pnp) < 512"
proof -
  let ?c = "procfs_pctx_get T request proc_find pnp" and ?ti = "snd (procfs_thread_info request pnp)"
  have c: "pctx_ok ?c" by (rule pctx_ok_get [OF assms(1)])
  have "cx_pid ?c = nodeid_pid (node_id pnp)"
    by (simp add: procfs_pctx_get_def Let_def split: option.splits prod.splits)
  with c assms(2) have ints: "length (dec_int (cx_pid ?c)) \<le> 11" "length (dec_int (cx_ppid ?c)) \<le> 11" "length (dec_int (cx_nthreads ?c)) \<le> 11"
    by (simp_all add: pctx_ok_def length_dec_int)
  have nm: "length (thread_name ?ti (cx_comm ?c)) \<le> 64" using c by (intro length_thread_name) (simp add: pctx_ok_def)
  have word: "length (procfs_thread_state_word s) \<le> 10" for s by (simp add: procfs_thread_state_word_def)
  have pol: "length (dec_int (pth_policy ?ti)) \<le> 11" "length (dec_int (pth_curpri ?ti)) \<le> 11"
    by (simp_all add: length_dec_int procfs_thread_info_def Let_def decode_threadinfo_def)
  show "length (thread_status_text T request proc_find pnp) < 512"
    using ints nm word [of "procfs_thread_state (pth_run_state ?ti)"] length_dec_u64 [of "nodeid_objectid (node_id pnp)"]
      length_dec_u64 [of "drop_bit 10 (cx_vsize ?c)"] length_dec_u64 [of 0]
    by (simp add: thread_status_text_def Let_def dec8_def length_pad_left TAB_def)
  show "length (thread_sched_text T request proc_find pnp) < 512"
    using ints nm pol length_dec_u64 [of "nodeid_objectid (node_id pnp)"] length_dec_u64 [of "pth_user_time ?ti + pth_system_time ?ti"]
    by (simp add: thread_sched_text_def Let_def dec20_def length_pad_left)
qed

end

lemma copy_snprintf_whole:
  assumes "uiomove_out_law (kio_move K)" "uiomove_out_nofault (kio_move K)" "uio_offset u = 0" "length s < sz" "sz < 2 ^ 31"
  shows "copy_snprintf K sz s u = (0, uio_push (take (nat (uio_resid u)) s) u)"
  using copy_out_suffix [of "K\<lparr>kio_beyond := replicate (sz - length s) NUL @ kio_beyond K\<rparr>" u s] assms
  by (simp add: copy_snprintf_fits)

abbreviation bridge_ctl :: "ctl_env \<Rightarrow> ctl_state \<Rightarrow> ctl_oracle" where
  "bridge_ctl E st \<equiv> \<lambda>ty pid arg nm cap. fst (procfs_ctl_request_impl E ty pid arg nm cap st)"

section \<open>Properties\<close>


definition odd_proc :: kproc where
  "odd_proc = demo_proc\<lparr>kp_name := ''a) (b''\<rparr>"

definition demo_task_env :: task_env where
  "demo_task_env = \<lparr>te_pidtaskinfo = (\<lambda>_. Inl ESRCH), te_pidthreadinfo = (\<lambda>_ _. Inl ESRCH), te_page_size = 16384, te_alloc = (True, True)\<rparr>"


end
