(* ===== verification/Ksyms.thy ===== *)
theory Ksyms
  imports Listings "HOL-Library.Multiset"
begin

text \<open>
  Kernel symbols in the daemon (\<open>tools/procfsd.c\<close>): the Mach-O symbol table of the kernel image,
  the texts of \<open>ksyms\<close> and \<open>kallsyms\<close>, and the sorted table with which the address a thread is
  blocked at is turned into a name. Shown here: the binary search finds the nearest preceding
  symbol, and no address of the symbol tables reaches an ordinary reader.

  An image is the bytes of its file; what lies behind their end reads as zero.
\<close>

section \<open>Mach-O images\<close>

definition MH_MAGIC_64 :: u32 where "MH_MAGIC_64 = 0xfeedfacf"
definition FAT_MAGIC :: u32 where "FAT_MAGIC = 0xcafebabe"
definition FAT_CIGAM :: u32 where "FAT_CIGAM = 0xbebafeca"
definition LC_SYMTAB :: u32 where "LC_SYMTAB = 0x2"
definition LC_SEGMENT_64 :: u32 where "LC_SEGMENT_64 = 0x19"
definition N_STAB :: u8 where "N_STAB = 0xe0"
definition N_TYPE :: u8 where "N_TYPE = 0x0e"
definition N_EXT :: u8 where "N_EXT = 0x01"
definition N_UNDF :: u8 where "N_UNDF = 0x0"
definition N_ABS :: u8 where "N_ABS = 0x2"
definition N_INDR :: u8 where "N_INDR = 0xa"
definition N_PBUD :: u8 where "N_PBUD = 0xc"
definition N_SECT :: u8 where "N_SECT = 0xe"

definition u32_at :: "bytes \<Rightarrow> nat \<Rightarrow> u32" where
  "u32_at b off = le_u32 (drop off b)"

definition byte_at :: "bytes \<Rightarrow> nat \<Rightarrow> u8" where
  "byte_at b off = of_nat (le_nat (take 1 (drop off b)))"

definition string_at :: "bytes \<Rightarrow> nat \<Rightarrow> cstring" where
  "string_at b off = takeWhile (\<lambda>c. c \<noteq> NUL) (drop off b)"

fun has_substring :: "string \<Rightarrow> string \<Rightarrow> bool" where
  \<comment> \<open>\<open>strstr\<close> finds something\<close>
  "has_substring [] sub \<longleftrightarrow> sub = []"
| "has_substring (c # cs) sub \<longleftrightarrow> take (length sub) (c # cs) = sub \<or> has_substring cs sub"

text \<open>The walk over the load commands, as the offsets of the commands it looks at.\<close>

fun load_commands :: "bytes \<Rightarrow> nat \<Rightarrow> nat \<Rightarrow> nat \<Rightarrow> nat list" where
  "load_commands b sz 0 p = []"
| "load_commands b sz (Suc k) p =
     (if sz < p + 8 then []
      else let cmdsize = unat (u32_at b (p + 4))
           in if cmdsize < 8 \<or> sz < p + cmdsize then [] else p # load_commands b sz k (p + cmdsize))"

record symtab_command =
  symoff :: nat
  nsyms :: nat
  stroff :: nat
  strsize :: nat

text \<open>The section headers in the order of their numbers, which start at 1, and the last symbol table command.\<close>

definition macho_sections :: "bytes \<Rightarrow> nat list \<Rightarrow> nat list" where
  "macho_sections b cmds = concat (map (\<lambda>p. if u32_at b p = LC_SEGMENT_64
     then map (\<lambda>s. p + 72 + 80 * s) [0..<unat (u32_at b (p + 64))] else []) cmds)"

definition macho_symtab :: "bytes \<Rightarrow> nat list \<Rightarrow> symtab_command option" where
  "macho_symtab b cmds = (case rev (filter (\<lambda>p. u32_at b p = LC_SYMTAB) cmds) of [] \<Rightarrow> None
     | p # _ \<Rightarrow> Some \<lparr>symoff = unat (u32_at b (p + 8)), nsyms = unat (u32_at b (p + 12)),
                     stroff = unat (u32_at b (p + 16)), strsize = unat (u32_at b (p + 20))\<rparr>)"

record nlist =
  n_strx :: nat
  n_type :: u8
  n_sect :: nat
  n_value :: u64

definition nlist_at :: "bytes \<Rightarrow> nat \<Rightarrow> nlist" where
  "nlist_at b p = \<lparr>n_strx = unat (u32_at b p), n_type = byte_at b (p + 4), n_sect = unat (byte_at b (p + 5)),
     n_value = le_u64 (drop (p + 8) b)\<rparr>"

text \<open>
  What the two passes over an image share: the checks of the header and of the symbol table
  command, and then the sections and the symbols with their names. \<open>cpu\<close> is \<open>PROCFS_NATIVE_CPUTYPE\<close>.
\<close>

definition macho_parse :: "u32 \<Rightarrow> bytes \<Rightarrow> nat \<Rightarrow> (nat list \<times> symtab_command \<times> nlist list) option" where
  "macho_parse cpu b sz =
     (if sz < 32 then None
      else if u32_at b 0 \<noteq> MH_MAGIC_64 \<or> u32_at b 4 \<noteq> cpu then None
      else let cmds = load_commands b sz (unat (u32_at b 16)) 32 in
        (case macho_symtab b cmds of None \<Rightarrow> None
         | Some st \<Rightarrow>
             if nsyms st = 0 \<or> sz < symoff st + nsyms st * 16 \<or> sz < stroff st + strsize st then None
             else Some (macho_sections b cmds, st, map (\<lambda>i. nlist_at b (symoff st + 16 * i)) [0..<nsyms st])))"

definition symbol_name :: "bytes \<Rightarrow> symtab_command \<Rightarrow> nlist \<Rightarrow> cstring option" where
  "symbol_name b st n =
     (if n_strx n = 0 \<or> strsize st \<le> n_strx n then None
      else let name = string_at b (stroff st + n_strx n) in if name = [] then None else Some name)"

section \<open>ksyms and kallsyms\<close>

definition section_type :: "bytes \<Rightarrow> nat list \<Rightarrow> nat \<Rightarrow> char" where
  "section_type b secs k =
     (if 1 \<le> k \<and> k \<le> length secs \<and> k < 256 then
        let sec = secs ! (k - 1) in
        if take 6 (drop (sec + 16) b) = ''__DATA''
        then (if has_substring (string_at b sec) ''bss'' \<or> has_substring (string_at b sec) ''common''
              then CHR ''b'' else CHR ''d'')
        else CHR ''t''
      else CHR ''t'')"

definition toupper :: "char \<Rightarrow> char" where
  "toupper c = (if 97 \<le> (of_char c :: nat) \<and> (of_char c :: nat) \<le> 122 then char_of ((of_char c :: nat) - 32) else c)"

definition tolower :: "char \<Rightarrow> char" where
  "tolower c = (if 65 \<le> (of_char c :: nat) \<and> (of_char c :: nat) \<le> 90 then char_of ((of_char c :: nat) + 32) else c)"

definition symbol_type :: "bytes \<Rightarrow> nat list \<Rightarrow> nlist \<Rightarrow> char option" where
  \<comment> \<open>\<^const>\<open>None\<close> for a symbol that is not listed\<close>
  "symbol_type b secs n =
     (let ntype = n_type n AND N_TYPE;
          ty = (if ntype = N_ABS then CHR ''a'' else if ntype = N_INDR then CHR ''i''
                else if ntype = N_SECT then section_type b secs (n_sect n) else CHR ''?'')
      in if ntype = N_UNDF \<or> ntype = N_PBUD then None
         else Some (if n_type n AND N_EXT \<noteq> 0 then toupper ty else ty))"

definition emit_symbol :: "bytes \<Rightarrow> nat list \<Rightarrow> symtab_command \<Rightarrow> nlist \<Rightarrow> (string \<times> string) list" where
  \<comment> \<open>address and rest of the line\<close>
  "emit_symbol b secs st n =
     (if n_type n AND N_STAB \<noteq> 0 then []
      else (case symbol_name b st n of None \<Rightarrow> []
        | Some name \<Rightarrow> (case symbol_type b secs n of None \<Rightarrow> [] | Some ty \<Rightarrow> [(hex016 (n_value n), ty # '' '' @ name)])))"

definition ksyms_emit_macho :: "u32 \<Rightarrow> bytes \<Rightarrow> nat \<Rightarrow> (string \<times> string) list" where
  "ksyms_emit_macho cpu b sz = (case macho_parse cpu b sz of None \<Rightarrow> []
     | Some (secs, st, syms) \<Rightarrow> concat (map (emit_symbol b secs st) syms))"

text \<open>The slice of a universal image for the running architecture; its header is big endian.\<close>

definition be32_at :: "bytes \<Rightarrow> nat \<Rightarrow> u32" where
  "be32_at b off = le_u32 (rev (take 4 (drop off b)))"

definition macho_slice :: "u32 \<Rightarrow> bytes \<Rightarrow> (bytes \<times> nat) option" where
  "macho_slice cpu b =
     (let magic = u32_at b 0 in
      if magic = FAT_MAGIC \<or> magic = FAT_CIGAM then
        (case List.find (\<lambda>p. be32_at b p = cpu) (map (\<lambda>i. 8 + 20 * i) [0..<unat (be32_at b 4)]) of None \<Rightarrow> None
         | Some p \<Rightarrow> let off = unat (be32_at b (p + 8)); asz = unat (be32_at b (p + 12))
                     in if off + asz \<le> length b then Some (drop off b, asz) else None)
      else if magic = MH_MAGIC_64 then Some (b, length b) else None)"

text \<open>
  The files the daemon looks at: \<open>kern.version\<close> and \<open>kern.osversion\<close>, which paths exist, the names in
  the directory of the debug kits, and the contents of a file that can be mapped and is not empty.
\<close>

record image_env =
  ie_cpu :: u32
  ie_version :: "cstring option"
  ie_build :: cstring
  ie_exists :: "cstring \<Rightarrow> bool"
  ie_kdks :: "cstring list"
  ie_file :: "cstring \<Rightarrow> bytes option"

definition is_alnum :: "char \<Rightarrow> bool" where
  "is_alnum c \<longleftrightarrow> is_digit c \<or> 65 \<le> (of_char c :: nat) \<and> (of_char c :: nat) \<le> 90 \<or> 97 \<le> (of_char c :: nat) \<and> (of_char c :: nat) \<le> 122"

fun after_substring :: "string \<Rightarrow> string \<Rightarrow> string option" where
  "after_substring [] sub = (if sub = [] then Some [] else None)"
| "after_substring (c # cs) sub = (if take (length sub) (c # cs) = sub then Some (drop (length sub) (c # cs))
     else after_substring cs sub)"

definition soc_name :: "cstring option \<Rightarrow> cstring" where
  "soc_name version = (case version of None \<Rightarrow> []
     | Some ver \<Rightarrow> (case after_substring ver ''ARM64_'' of None \<Rightarrow> []
         | Some m \<Rightarrow> map tolower (take 31 (takeWhile is_alnum m))))"

definition ksyms_kernel_path :: "image_env \<Rightarrow> cstring" where
  "ksyms_kernel_path I =
     (let soc = soc_name (ie_version I); path = ''/System/Library/Kernels/kernel.release.'' @ soc
      in if soc \<noteq> [] \<and> ie_exists I path then path else ''/System/Library/Kernels/kernel'')"

definition ksyms_emit_kernel :: "image_env \<Rightarrow> (string \<times> string) list" where
  "ksyms_emit_kernel I = (case ie_file I (ksyms_kernel_path I) of None \<Rightarrow> []
     | Some b \<Rightarrow> (case macho_slice (ie_cpu I) b of None \<Rightarrow> [] | Some (b', sz) \<Rightarrow> ksyms_emit_macho (ie_cpu I) b' sz))"

definition blob_of :: "string \<Rightarrow> bytes option" where
  "blob_of text = (if text \<noteq> [] then Some text else None)"

definition build_ksyms_blob :: "image_env \<Rightarrow> bytes option" where
  "build_ksyms_blob I = blob_of (concat (map sym_line (ksyms_emit_kernel I)))"

text \<open>\<open>extra\<close> is the generated array of names without an address.\<close>

definition build_kallsyms_blob :: "cstring list \<Rightarrow> image_env \<Rightarrow> bytes option" where
  "build_kallsyms_blob extra I = blob_of (concat (map sym_line
     (ksyms_emit_kernel I @ map (\<lambda>nm. (''0000000000000000'', ''t '' @ nm)) extra)))"

section \<open>The lookup table\<close>

record ksym_ent =
  ks_val :: u64
  ks_name :: cstring

definition is_text :: "bytes \<Rightarrow> nat list \<Rightarrow> nat \<Rightarrow> bool" where
  "is_text b secs k \<longleftrightarrow> 1 \<le> k \<and> k \<le> length secs \<and> k < 256 \<and> take 6 (drop (secs ! (k - 1) + 16) b) = ''__TEXT''"

definition text_symbol :: "bytes \<Rightarrow> nat list \<Rightarrow> symtab_command \<Rightarrow> nlist \<Rightarrow> ksym_ent option" where
  "text_symbol b secs st n =
     (if n_type n AND N_STAB \<noteq> 0 \<or> n_type n AND N_TYPE \<noteq> N_SECT then None
      else if \<not> is_text b secs (n_sect n) then None
      else map_option (\<lambda>name. \<lparr>ks_val = n_value n, ks_name = strlcpy name 96\<rparr>) (symbol_name b st n))"

text \<open>The array grows by doubling; when \<open>realloc\<close> fails for a capacity, the walk ends there.\<close>

fun collect_loop :: "(nat \<Rightarrow> bool) \<Rightarrow> nat \<Rightarrow> ksym_ent list \<Rightarrow> ksym_ent option list \<Rightarrow> ksym_ent list" where
  "collect_loop realloc_ok cap tab [] = tab"
| "collect_loop realloc_ok cap tab (None # es) = collect_loop realloc_ok cap tab es"
| "collect_loop realloc_ok cap tab (Some e # es) =
     (if length tab = cap then
        let nc = (if cap = 0 then 4096 else cap * 2)
        in if realloc_ok nc then collect_loop realloc_ok nc (tab @ [e]) es else tab
      else collect_loop realloc_ok cap (tab @ [e]) es)"

definition ksym_collect_macho :: "(nat \<Rightarrow> bool) \<Rightarrow> u32 \<Rightarrow> bytes \<Rightarrow> nat \<Rightarrow> ksym_ent list" where
  "ksym_collect_macho realloc_ok cpu b sz = (case macho_parse cpu b sz of None \<Rightarrow> []
     | Some (secs, st, syms) \<Rightarrow> collect_loop realloc_ok 0 [] (map (text_symbol b secs st) syms))"

definition ksyms_wchan_source_path :: "image_env \<Rightarrow> cstring" where
  "ksyms_wchan_source_path I =
     (let soc = soc_name (ie_version I);
          kdk = (\<lambda>nm. ''/Library/Developer/KDKs/'' @ nm @ ''/System/Library/Kernels/kernel.release.'' @ soc @
            ''.dSYM/Contents/Resources/DWARF/kernel.release.'' @ soc)
      in case (if soc \<noteq> [] \<and> ie_build I \<noteq> []
               then List.find (\<lambda>nm. has_substring nm (ie_build I) \<and> ie_exists I (snprintf MAXPATHLEN (kdk nm))) (ie_kdks I)
               else None) of
           Some nm \<Rightarrow> snprintf MAXPATHLEN (kdk nm)
         | None \<Rightarrow> ksyms_kernel_path I)"

text \<open>\<open>qsort\<close> is the C library's, which orders equal elements as it likes.\<close>

definition qsort_law :: "(ksym_ent list \<Rightarrow> ksym_ent list) \<Rightarrow> bool" where
  "qsort_law qs \<longleftrightarrow> (\<forall>xs. mset (qs xs) = mset xs \<and> sorted (map ks_val (qs xs)))"

definition ksym_table_build :: "(ksym_ent list \<Rightarrow> ksym_ent list) \<Rightarrow> (nat \<Rightarrow> bool) \<Rightarrow> image_env \<Rightarrow> ksym_ent list \<Rightarrow> ksym_ent list" where
  "ksym_table_build qs realloc_ok I tab =
     (if tab \<noteq> [] then tab
      else (case ie_file I (ksyms_wchan_source_path I) of None \<Rightarrow> []
        | Some b \<Rightarrow> (case macho_slice (ie_cpu I) b of None \<Rightarrow> []
            | Some (b', sz) \<Rightarrow> let t = ksym_collect_macho realloc_ok (ie_cpu I) b' sz in if t = [] then [] else qs t)))"

function ksym_bsearch :: "ksym_ent list \<Rightarrow> u64 \<Rightarrow> nat \<Rightarrow> nat \<Rightarrow> nat" where
  "ksym_bsearch tab addr lo hi =
     (if lo < hi then
        let mid = lo + (hi - lo) div 2
        in if ks_val (tab ! mid) \<le> addr then ksym_bsearch tab addr (mid + 1) hi else ksym_bsearch tab addr lo mid
      else lo)"
  by pat_completeness auto

termination
  by (relation "measure (\<lambda>(tab, addr, lo, hi). hi - lo)") auto

declare ksym_bsearch.simps [simp del]

definition ksym_lookup :: "ksym_ent list \<Rightarrow> u64 \<Rightarrow> nat \<Rightarrow> cstring" where
  \<comment> \<open>in a table that has been built\<close>
  "ksym_lookup tab addr cap =
     (if tab = [] then []
      else let lo = ksym_bsearch tab addr 0 (length tab) in
        if lo = 0 then []
        else let e = tab ! (lo - 1) in if 0x100000 < addr - ks_val e then [] else strlcpy (ks_name e) cap)"

definition ksym_addr_of :: "ksym_ent list \<Rightarrow> cstring \<Rightarrow> u64" where
  "ksym_addr_of tab name = (case List.find (\<lambda>e. ks_name e = name) tab of None \<Rightarrow> 0 | Some e \<Rightarrow> ks_val e)"

text \<open>The two requests of the kext.\<close>

definition handle_ksym :: "ksym_ent list \<Rightarrow> ctl_req \<Rightarrow> bytes res" where
  "handle_ksym tab req =
     (if req_type req = REQ_KSYM_LOOKUP then Inr (take PROCFS_CTL_MAXPAYLOAD (ksym_lookup tab (req_arg req) 128))
      else Inr (u64_bytes (ksym_addr_of tab ''_proc_pid'')))"

section \<open>Lemmas\<close>

lemma bsearch_bounds:
  assumes "sorted (map ks_val tab)" "lo \<le> hi" "hi \<le> length tab"
    and "\<forall>i<lo. ks_val (tab ! i) \<le> addr" "\<forall>i<length tab. hi \<le> i \<longrightarrow> addr < ks_val (tab ! i)"
  shows "ksym_bsearch tab addr lo hi \<le> length tab \<and> (\<forall>i<ksym_bsearch tab addr lo hi. ks_val (tab ! i) \<le> addr) \<and>
    (\<forall>i<length tab. ksym_bsearch tab addr lo hi \<le> i \<longrightarrow> addr < ks_val (tab ! i))"
  using assms(2-5)
proof (induction "hi - lo" arbitrary: lo hi rule: less_induct)
  case less
  have mono: "ks_val (tab ! i) \<le> ks_val (tab ! j)" if "i \<le> j" "j < length tab" for i j
    using sorted_nth_mono [OF assms(1), of i j] that by simp
  let ?mid = "lo + (hi - lo) div 2"
  show ?case
  proof (cases "lo < hi")
    case True
    then have mid: "lo \<le> ?mid" "?mid < hi" by auto
    show ?thesis
    proof (cases "ks_val (tab ! ?mid) \<le> addr")
      case le: True
      have "ks_val (tab ! i) \<le> addr" if "i < ?mid + 1" for i
        using mono [of i ?mid] that mid less.prems(2) le by fastforce
      with less.hyps [of hi "?mid + 1"] less.prems mid True le show ?thesis
        by (subst (1 2 3) ksym_bsearch.simps) (simp add: Let_def)
    next
      case gt: False
      have "addr < ks_val (tab ! i)" if "i < length tab" "?mid \<le> i" for i
        using mono [of ?mid i] that gt by fastforce
      with less.hyps [of ?mid lo] less.prems mid True gt show ?thesis
        by (subst (1 2 3) ksym_bsearch.simps) (simp add: Let_def)
    qed
  next
    case False
    with less.prems show ?thesis by (subst (1 2 3) ksym_bsearch.simps) auto
  qed
qed

text \<open>The lookup finds the symbol nearest below the address, if there is one within a megabyte.\<close>

lemma ksym_lookup_nearest:
  assumes "sorted (map ks_val tab)"
  shows "(\<forall>e\<in>set tab. addr < ks_val e) \<and> ksym_lookup tab addr cap = [] \<or>
    (\<exists>e\<in>set tab. ks_val e \<le> addr \<and> (\<forall>e'\<in>set tab. ks_val e' \<le> addr \<longrightarrow> ks_val e' \<le> ks_val e) \<and>
      ksym_lookup tab addr cap = (if addr - ks_val e \<le> 0x100000 then strlcpy (ks_name e) cap else []))"
proof -
  let ?r = "ksym_bsearch tab addr 0 (length tab)"
  have b: "?r \<le> length tab" "\<And>i. i < ?r \<Longrightarrow> ks_val (tab ! i) \<le> addr"
    "\<And>i. i < length tab \<Longrightarrow> ?r \<le> i \<Longrightarrow> addr < ks_val (tab ! i)"
    using bsearch_bounds [OF assms, of 0 "length tab" addr] by simp_all
  show ?thesis
  proof (cases "?r = 0")
    case True
    then have "\<forall>e\<in>set tab. addr < ks_val e" using b(3) by (metis in_set_conv_nth le0)
    with True show ?thesis by (simp add: ksym_lookup_def Let_def)
  next
    case False
    let ?e = "tab ! (?r - 1)"
    have e: "?e \<in> set tab" "ks_val ?e \<le> addr" using False b(1,2) by simp_all
    have "ks_val e' \<le> ks_val ?e" if e': "e' \<in> set tab" "ks_val e' \<le> addr" for e'
    proof -
      obtain i where i: "i < length tab" "e' = tab ! i" using e'(1) by (metis in_set_conv_nth)
      then have "\<not> ?r \<le> i" using b(3) [of i] e'(2) by (auto simp: not_le [symmetric])
      then have "i \<le> ?r - 1" by linarith
      then show ?thesis using sorted_nth_mono [OF assms, of i "?r - 1"] b(1) False i by simp
    qed
    moreover have "ksym_lookup tab addr cap = (if addr - ks_val ?e \<le> 0x100000 then strlcpy (ks_name ?e) cap else [])"
      using False e(1) by (auto simp: ksym_lookup_def Let_def not_le)
    ultimately show ?thesis using e by blast
  qed
qed

lemma ksym_lookup_entry:
  assumes "sorted (map ks_val tab)" "e \<in> set tab" "length (ks_name e) < 128" "\<And>e'. e' \<in> set tab \<Longrightarrow> ks_val e' = ks_val e \<Longrightarrow> e' = e"
  shows "ksym_lookup tab (ks_val e) 128 = ks_name e"
proof -
  from ksym_lookup_nearest [OF assms(1), of "ks_val e" 128] assms(2) obtain e' where
    e': "e' \<in> set tab" "ks_val e' \<le> ks_val e" "ks_val e \<le> ks_val e'"
      "ksym_lookup tab (ks_val e) 128 = (if ks_val e - ks_val e' \<le> 0x100000 then strlcpy (ks_name e') 128 else [])"
    by auto
  then have "e' = e" using assms(4) by simp
  with e'(4) assms(3) show ?thesis by (simp add: strlcpy_def)
qed

text \<open>The lines of the symbol tables start with 16 hexadecimal digits.\<close>

lemma length_hex: "n < 16 ^ k \<Longrightarrow> 0 < k \<Longrightarrow> length (hex n) \<le> k"
proof (induction k arbitrary: n)
  case (Suc k)
  show ?case
  proof (cases "n < 16")
    case False
    with Suc.prems have "n div 16 < 16 ^ k" by (simp add: less_mult_imp_div_less)
    moreover from False Suc.prems have "0 < k" by (cases k) auto
    ultimately have "length (hex (n div 16)) \<le> k" by (rule Suc.IH)
    with False show ?thesis by (simp add: hex.simps [of n])
  qed (simp add: hex.simps [of n])
qed simp

lemma hex_char_chars: "d < 16 \<Longrightarrow> hex_char d \<noteq> CHR '' '' \<and> hex_char d \<noteq> NEWLINE"
proof -
  assume "d < 16"
  then have "48 \<le> (of_char (hex_char d) :: nat)" by (simp add: hex_char_def digit_char_def)
  then show ?thesis by auto
qed

lemma hex_chars: "c \<in> set (hex n) \<Longrightarrow> c \<noteq> CHR '' '' \<and> c \<noteq> NEWLINE"
proof (induction n rule: hex.induct)
  case (1 n)
  then show ?case
    using hex_char_chars [of n] hex_char_chars [of "n mod 16"] by (auto simp: hex.simps [of n] split: if_splits)
qed

lemma hex016_column: "length (hex016 w) = 16" "CHR '' '' \<notin> set (hex016 w)" "NEWLINE \<notin> set (hex016 w)"
proof -
  have "length (hex (unat w)) \<le> 16" using length_hex [of "unat w" 16] unsigned_less [of w, where 'a = nat] by simp
  then show "length (hex016 w) = 16" by (simp add: hex016_def pad_left_def)
  show "CHR '' '' \<notin> set (hex016 w)" "NEWLINE \<notin> set (hex016 w)"
    by (auto simp: hex016_def pad_left_def dest: hex_chars)
qed

text \<open>
  Where no symbol name of the kernel image contains a line break, the lines of \<open>ksyms\<close> have the form
  for which the kext hides the addresses.
\<close>

definition names_ok :: "u32 \<Rightarrow> bytes \<Rightarrow> nat \<Rightarrow> bool" where
  "names_ok cpu b sz \<longleftrightarrow> (case macho_parse cpu b sz of None \<Rightarrow> True
     | Some (secs, st, syms) \<Rightarrow> \<forall>n\<in>set syms. \<forall>name. symbol_name b st n = Some name \<longrightarrow> NEWLINE \<notin> set name)"

lemma section_type_chars: "section_type b secs k \<in> {CHR ''t'', CHR ''d'', CHR ''b''}"
  by (simp add: section_type_def Let_def)

lemma toupper_newline:
  assumes "toupper c = NEWLINE"
  shows "c = NEWLINE"
proof (cases "97 \<le> (of_char c :: nat) \<and> (of_char c :: nat) \<le> 122")
  case True
  then have "(of_char (toupper c) :: nat) = of_char c - 32" by (auto simp: toupper_def intro!: mod_less)
  then have "(10 :: nat) = of_char c - 32" unfolding assms by simp
  with True show ?thesis by linarith
qed (use assms in \<open>auto simp: toupper_def split: if_splits\<close>)

lemma symbol_type_chars: "symbol_type b secs n = Some ty \<Longrightarrow> ty \<noteq> NEWLINE"
  using section_type_chars [of b secs "n_sect n"]
  by (auto simp: symbol_type_def Let_def dest!: toupper_newline split: if_splits)

lemma ksyms_lines_ok:
  assumes "names_ok cpu b sz" "s \<in> set (ksyms_emit_macho cpu b sz)"
  shows "sym_ok s \<and> length (fst s) = 16"
proof -
  obtain secs st syms n where p: "macho_parse cpu b sz = Some (secs, st, syms)" "n \<in> set syms" "s \<in> set (emit_symbol b secs st n)"
    using assms(2) by (cases "macho_parse cpu b sz") (auto simp: ksyms_emit_macho_def)
  then obtain name ty where s: "symbol_name b st n = Some name" "symbol_type b secs n = Some ty" "s = (hex016 (n_value n), ty # '' '' @ name)"
    by (cases "symbol_name b st n"; cases "symbol_type b secs n") (auto simp: emit_symbol_def split: if_splits)
  have "NEWLINE \<notin> set name" using assms(1) p s(1) by (auto simp: names_ok_def)
  with s symbol_type_chars [OF s(2)] hex016_column show ?thesis by auto
qed

end
