(* ===== verification/LinuxSys.thy ===== *)
theory LinuxSys
  imports Kern
begin

text \<open>
  The system-wide Linux files of \<open>kext/procfs_linux.c\<close> that are formatted from a few numbers: load
  average, processor and memory statistics, disks and file systems, network interfaces, boot
  arguments and cpuinfo, with the device enumeration of \<open>kext/procfs_iokit.cpp\<close>. Shown here: the free
  blocks of \<open>buddyinfo\<close> account for exactly the free pages, the totals of \<open>stat\<close> are the sums of its
  rows, mounts and file systems are listed faithfully, and how cpuinfo goes on after its end.
\<close>

section \<open>Load and processor time\<close>

text \<open>Division of signed integers truncates towards zero; the \<open>%02d\<close> conversion pads behind the sign.\<close>

definition c_div :: "int \<Rightarrow> int \<Rightarrow> int" where "c_div a b = sgn a * (\<bar>a\<bar> div b)"
definition c_mod :: "int \<Rightarrow> int \<Rightarrow> int" where "c_mod a b = sgn a * (\<bar>a\<bar> mod b)"

definition dec02_int :: "int \<Rightarrow> string" where
  "dec02_int i = (if i < 0 then CHR ''-'' # dec (nat (- i)) else dec0 2 (nat i))"

definition load_values :: "bytes res \<Rightarrow> int \<times> int \<times> int" where
  "load_values r = (case r of Inl _ \<Rightarrow> (0, 0, 0)
     | Inr d \<Rightarrow> if length d = 12 then (le_int32 d, le_int32 (drop 4 d), le_int32 (drop 8 d)) else (0, 0, 0))"

definition load_column :: "int \<Rightarrow> string" where
  "load_column l = dec_int (c_div l 100) @ ''.'' @ dec02_int (c_mod l 100)"

text \<open>The text is moved from its beginning whatever the offset; only the length is reduced.\<close>

definition move_page :: "kio \<Rightarrow> nat \<Rightarrow> int \<Rightarrow> string \<Rightarrow> uio \<Rightarrow> errno \<times> uio" where
  "move_page K sz pgoff s u = kio_move K (snprintf sz s @ NUL # kio_beyond K) (int32 (int (length s) - pgoff)) u"

definition page_offset :: "u64 \<Rightarrow> uio \<Rightarrow> int" where
  "page_offset page u = uio_offset u mod int (unat page)"

definition procfs_doloadavg :: "kio \<Rightarrow> u64 \<Rightarrow> bool \<Rightarrow> ctl_oracle \<Rightarrow> proc_table \<Rightarrow> cred \<Rightarrow> uio \<Rightarrow> errno \<times> uio" where
  "procfs_doloadavg K page alloc ctl proc_find creds u =
     (case load_values (ctl REQ_LOADAVG 0 0 [] 12) of (l1, l5, l15) \<Rightarrow>
        move_page K LBFSZ (page_offset page u) (load_column l1 @ '' '' @ load_column l5 @ '' '' @ load_column l15 @ '' 1/'' @
          dec (procfs_get_process_count alloc proc_find creds) @ '' 0'' @ [NEWLINE]) u)"

record cpuline =
  cl_user :: u64
  cl_nice :: u64
  cl_sys :: u64
  cl_idle :: u64

definition cpuline_zero :: cpuline where
  "cpuline_zero = \<lparr>cl_user = 0, cl_nice = 0, cl_sys = 0, cl_idle = 0\<rparr>"

definition cpu_load_at :: "bytes \<Rightarrow> nat \<Rightarrow> cpuline" where
  "cpu_load_at d i = \<lparr>cl_user = le_u64 (drop (32 * i) d), cl_nice = le_u64 (drop (32 * i + 8) d),
     cl_sys = le_u64 (drop (32 * i + 16) d), cl_idle = le_u64 (drop (32 * i + 24) d)\<rparr>"

definition cpuline_add :: "cpuline \<Rightarrow> cpuline \<Rightarrow> cpuline" where
  "cpuline_add a c = \<lparr>cl_user = cl_user a + cl_user c, cl_nice = cl_nice a + cl_nice c, cl_sys = cl_sys a + cl_sys c,
     cl_idle = cl_idle a + cl_idle c\<rparr>"

definition logical_cpus :: "int option \<Rightarrow> nat" where
  \<comment> \<open>the argument is what \<open>sysctlbyname\<close> reports for \<open>hw.logicalcpu\<close>\<close>
  "logical_cpus r = (case r of None \<Rightarrow> 1 | Some n \<Rightarrow> if n \<le> 0 then 1 else nat n)"

text \<open>The rows the daemon reports and the zeroed ones behind them; the total is of the former.\<close>

definition cpu_lines :: "nat \<Rightarrow> bytes res \<Rightarrow> cpuline \<times> cpuline list" where
  "cpu_lines ncpu r =
     (let rows = (case r of Inl _ \<Rightarrow> [] | Inr d \<Rightarrow> map (cpu_load_at d) [0..<min ncpu (length d div 32)])
      in (foldl cpuline_add cpuline_zero rows, rows @ replicate (ncpu - length rows) cpuline_zero))"

definition cpu_row :: "string \<Rightarrow> cpuline \<Rightarrow> string" where
  "cpu_row label c = label @ '' '' @ dec (unat (cl_user c)) @ '' '' @ dec (unat (cl_nice c)) @ '' '' @ dec (unat (cl_sys c)) @ '' '' @
     dec (unat (cl_idle c)) @ '' 0 0 0 0 0 0'' @ [NEWLINE]"

definition procfs_dostat :: "kio \<Rightarrow> bool \<Rightarrow> bool \<Rightarrow> int option \<Rightarrow> int option \<Rightarrow> ctl_oracle \<Rightarrow> nat \<Rightarrow> uio \<Rightarrow> errno \<times> uio" where
  \<comment> \<open>the outcomes of the two allocations, \<open>hw.logicalcpu\<close>, the seconds of \<open>kern.boottime\<close> and the number of processes\<close>
  "procfs_dostat K sbuf_ok malloc_ok logicalcpu boottime ctl total_procs u =
     (if \<not> sbuf_ok \<or> \<not> malloc_ok then (ENOMEM, u)
      else (case cpu_lines (logical_cpus logicalcpu) (ctl REQ_CPULOAD 0 0 [] 2048) of (agg, rows) \<Rightarrow>
        copy_out K (cpu_row ''cpu '' agg @ concat (map (\<lambda>i. cpu_row (''cpu'' @ dec i) (rows ! i)) [0..<length rows]) @
          ''intr 0'' @ [NEWLINE] @ ''ctxt 0'' @ [NEWLINE] @
          ''btime '' @ dec_int (case boottime of None \<Rightarrow> 0 | Some s \<Rightarrow> s) @ [NEWLINE] @
          ''processes '' @ dec total_procs @ [NEWLINE] @ ''procs_running 1'' @ [NEWLINE] @ ''procs_blocked 0'' @ [NEWLINE]) u))"

definition procfs_douptime :: "kio \<Rightarrow> int \<times> int \<Rightarrow> uio \<Rightarrow> errno \<times> uio" where
  "procfs_douptime K tv u = copy_snprintf K 64 (dec_int (fst tv) @ ''.'' @ dec02_int (c_div (snd tv) 10000) @ '' 0.00'' @ [NEWLINE]) u"

section \<open>Memory\<close>

text \<open>
  \<open>struct vm_statistics64\<close> belongs to the Mach interface: its size and the reading of its fields are
  parameters.
\<close>

record vm_statistics64 =
  free_count :: u32
  active_count :: u32
  inactive_count :: u32
  wire_count :: u32
  purgeable_count :: u32
  speculative_count :: u32
  throttled_count :: u32
  compressor_page_count :: u32
  external_page_count :: u32
  internal_page_count :: u32
  reactivations :: u64
  pageins :: u64
  pageouts :: u64
  faults :: u64
  cow_faults :: u64
  decompressions :: u64
  compressions :: u64
  swapins :: u64
  swapouts :: u64

record vm_abi =
  vm_sizeof :: nat
  vm_fields :: "bytes \<Rightarrow> vm_statistics64"

definition fetch_vmstat :: "vm_abi \<Rightarrow> ctl_oracle \<Rightarrow> vm_statistics64" where
  "fetch_vmstat A ctl = vm_fields A (fetched (vm_sizeof A) (ctl REQ_VMSTAT 0 0 [] (vm_sizeof A)))"

definition num_line32 :: "string \<Rightarrow> u32 \<Rightarrow> string" where
  "num_line32 label w = label @ '' '' @ dec (unat w) @ [NEWLINE]"

definition num_line :: "string \<Rightarrow> u64 \<Rightarrow> string" where
  "num_line label w = label @ '' '' @ dec (unat w) @ [NEWLINE]"

definition vmstat_text :: "vm_statistics64 \<Rightarrow> string" where
  "vmstat_text vm =
     num_line32 ''nr_free_pages'' (free_count vm) @ num_line32 ''nr_inactive_anon'' 0 @ num_line32 ''nr_active_anon'' 0 @
     num_line32 ''nr_inactive_file'' (inactive_count vm) @ num_line32 ''nr_active_file'' (active_count vm) @
     num_line32 ''nr_anon_pages'' (internal_page_count vm) @ num_line32 ''nr_file_pages'' (external_page_count vm) @
     num_line32 ''nr_wired'' (wire_count vm) @ num_line32 ''nr_purgeable'' (purgeable_count vm) @
     num_line32 ''nr_speculative'' (speculative_count vm) @ num_line32 ''nr_throttled'' (throttled_count vm) @
     num_line32 ''nr_compressed'' (compressor_page_count vm) @
     num_line ''pgpgin'' (pageins vm) @ num_line ''pgpgout'' (pageouts vm) @ num_line ''pswpin'' (swapins vm) @
     num_line ''pswpout'' (swapouts vm) @ num_line ''pgfault'' (faults vm) @ num_line ''pgmajfault'' (pageins vm) @
     num_line ''pgreactivate'' (reactivations vm) @ num_line ''cow_faults'' (cow_faults vm) @
     num_line ''decompressions'' (decompressions vm) @ num_line ''compressions'' (compressions vm)"

definition procfs_dovmstat :: "kio \<Rightarrow> bool \<Rightarrow> vm_abi \<Rightarrow> ctl_oracle \<Rightarrow> uio \<Rightarrow> errno \<times> uio" where
  "procfs_dovmstat K sbuf_ok A ctl u = (if \<not> sbuf_ok then (ENOMEM, u) else copy_out K (vmstat_text (fetch_vmstat A ctl)) u)"

definition PROCFS_BUDDY_ORDERS :: nat where "PROCFS_BUDDY_ORDERS = 11"

text \<open>The loop runs from the highest order down; the list has the counts in the order of the array.\<close>

fun buddy_loop :: "nat \<Rightarrow> u64 \<Rightarrow> u64 list" where
  "buddy_loop 0 remaining = []"
| "buddy_loop (Suc order) remaining =
     (let blk = push_bit order 1 in buddy_loop order (remaining mod blk) @ [remaining div blk])"

definition buddy_counts :: "vm_statistics64 \<Rightarrow> u64 list" where
  "buddy_counts vm = buddy_loop PROCFS_BUDDY_ORDERS (ucast (free_count vm))"

definition dec6 :: "u64 \<Rightarrow> string" where
  "dec6 w = pad_left CHR '' '' 6 (dec (unat w)) @ '' ''"

definition buddy_text :: "u64 list \<Rightarrow> string" where
  "buddy_text counts = ''Node 0, zone '' @ pad_left CHR '' '' 8 ''Normal'' @ '' '' @ concat (map dec6 counts) @ [NEWLINE]"

definition procfs_dobuddyinfo :: "kio \<Rightarrow> bool \<Rightarrow> vm_abi \<Rightarrow> ctl_oracle \<Rightarrow> uio \<Rightarrow> errno \<times> uio" where
  "procfs_dobuddyinfo K sbuf_ok A ctl u =
     (if \<not> sbuf_ok then (ENOMEM, u) else copy_out K (buddy_text (buddy_counts (fetch_vmstat A ctl))) u)"

definition PROCFS_PAGEBLOCK_ORDER :: nat where "PROCFS_PAGEBLOCK_ORDER = 9"

definition migrate_types :: "string list" where
  "migrate_types = [''Unmovable'', ''Movable'', ''Reclaimable'', ''HighAtomic'', ''Isolate'']"

definition pagetype_text :: "u64 list \<Rightarrow> u64 \<Rightarrow> string" where
  "pagetype_text counts blocks =
     ''Page block order: '' @ dec PROCFS_PAGEBLOCK_ORDER @ [NEWLINE] @
     ''Pages per block:  '' @ dec (2 ^ PROCFS_PAGEBLOCK_ORDER) @ [NEWLINE, NEWLINE] @
     ''Free pages count per migrate type at order '' @
     concat (map (\<lambda>order. pad_left CHR '' '' 6 (dec order) @ '' '') [0..<PROCFS_BUDDY_ORDERS]) @ [NEWLINE] @
     concat (map (\<lambda>t. ''Node    0, zone   Normal, type '' @ pad_left CHR '' '' 12 (migrate_types ! t) @ '' '' @
       concat (map (\<lambda>c. dec6 (if t = 1 then c else 0)) counts) @ [NEWLINE]) [0..<length migrate_types]) @
     [NEWLINE] @ ''Number of blocks type '' @ concat (map (\<lambda>t. pad_left CHR '' '' 12 t @ '' '') migrate_types) @ [NEWLINE] @
     ''Node 0, zone   Normal '' @
     concat (map (\<lambda>t. pad_left CHR '' '' 12 (dec (unat (if t = 1 then blocks else 0))) @ '' '') [0..<length migrate_types]) @ [NEWLINE]"

definition procfs_dopagetypeinfo :: "kio \<Rightarrow> bool \<Rightarrow> vm_abi \<Rightarrow> u64 \<Rightarrow> u64 \<Rightarrow> ctl_oracle \<Rightarrow> uio \<Rightarrow> errno \<times> uio" where
  \<comment> \<open>the two numbers are the page size and \<open>hw.memsize\<close>, 0 when the sysctl fails\<close>
  "procfs_dopagetypeinfo K sbuf_ok A page memsize ctl u =
     (if \<not> sbuf_ok then (ENOMEM, u)
      else copy_out K (pagetype_text (buddy_counts (fetch_vmstat A ctl)) (drop_bit PROCFS_PAGEBLOCK_ORDER (memsize div page))) u)"

definition mem_line :: "string \<Rightarrow> u64 \<Rightarrow> string" where
  \<comment> \<open>a label of 16 columns and a number of kilobytes\<close>
  "mem_line label kb = pad_right 16 label @ dec8 kb @ '' kB'' @ [NEWLINE]"

definition B2K :: "u64 \<Rightarrow> u64" where "B2K x = drop_bit 10 x"

definition meminfo_text :: "u64 \<Rightarrow> u64 \<times> u64 \<times> u64 \<times> u64 \<Rightarrow> u64 \<times> u64 \<Rightarrow> string" where
  "meminfo_text memtotal vm swap = (case (vm, swap) of ((memfree, cached, active, inactive), (swaptotal, swapfree)) \<Rightarrow>
     mem_line ''MemTotal:'' (B2K memtotal) @ mem_line ''MemFree:'' (B2K memfree) @ mem_line ''Buffers:'' 0 @
     mem_line ''Cached:'' (B2K cached) @ mem_line ''SwapCached:'' 0 @
     mem_line ''Active:'' (B2K active) @ mem_line ''Inactive:'' (B2K inactive) @ mem_line ''HighTotal:'' 0 @ mem_line ''HighFree:'' 0 @
     mem_line ''LowTotal:'' (B2K memtotal) @ mem_line ''LowFree:'' (B2K memfree) @
     mem_line ''SwapTotal:'' (B2K swaptotal) @ mem_line ''SwapFree:'' (B2K swapfree) @
     mem_line ''Dirty:'' 0 @ mem_line ''Writeback:'' 0 @ mem_line ''Mapped:'' 0 @ mem_line ''Slab:'' 0 @ mem_line ''Committed_AS:'' 0 @
     mem_line ''PageTables:'' 0 @ mem_line ''VmallocTotal:'' 0 @ mem_line ''VmallocUsed:'' 0 @ mem_line ''VmallocChunk:'' 0 @
     ''HugePages_Total:'' @ dec8 0 @ [NEWLINE] @ ''HugePages_Free: '' @ dec8 0 @ [NEWLINE] @ mem_line ''Hugepagesize:'' 2048)"

definition meminfo_vm :: "u64 \<Rightarrow> vm_abi \<Rightarrow> bytes res \<Rightarrow> u64 \<times> u64 \<times> u64 \<times> u64" where
  "meminfo_vm page A r = (case r of Inl _ \<Rightarrow> (0, 0, 0, 0)
     | Inr d \<Rightarrow> if length d = vm_sizeof A
         then let vm = vm_fields A d in (ucast (free_count vm) * page, ucast (external_page_count vm) * page,
                ucast (active_count vm) * page, ucast (inactive_count vm) * page)
         else (0, 0, 0, 0))"

definition sizeof_xsw_usage :: nat where "sizeof_xsw_usage = 32"

definition swap_usage :: "bytes res \<Rightarrow> u64 \<times> u64" where
  "swap_usage r = (case r of Inl _ \<Rightarrow> (0, 0)
     | Inr d \<Rightarrow> if 24 \<le> length d then (le_u64 d, le_u64 (drop 8 d)) else (0, 0))"

definition procfs_domeminfo :: "kio \<Rightarrow> bool \<Rightarrow> vm_abi \<Rightarrow> u64 \<Rightarrow> u64 \<Rightarrow> ctl_oracle \<Rightarrow> uio \<Rightarrow> errno \<times> uio" where
  "procfs_domeminfo K sbuf_ok A page memtotal ctl u =
     (if \<not> sbuf_ok then (ENOMEM, u)
      else copy_out K (meminfo_text memtotal (meminfo_vm page A (ctl REQ_VMSTAT 0 0 [] (vm_sizeof A)))
        (swap_usage (ctl REQ_SYSCTL 0 0 ''vm.swapusage'' sizeof_xsw_usage))) u)"

definition procfs_doswaps :: "kio \<Rightarrow> bool \<Rightarrow> (u64 \<times> u64) option \<Rightarrow> uio \<Rightarrow> errno \<times> uio" where
  \<comment> \<open>the kernel's own \<open>vm.swapusage\<close>: size and use\<close>
  "procfs_doswaps K sbuf_ok swapusage u =
     (if \<not> sbuf_ok then (ENOMEM, u)
      else copy_out K (''Filename'' @ TAB @ TAB @ TAB @ TAB @ ''Type'' @ TAB @ TAB @ ''Size'' @ TAB @ ''Used'' @ TAB @ ''Priority'' @ [NEWLINE] @
        (case swapusage of None \<Rightarrow> []
         | Some (sz, used) \<Rightarrow> if 0 < sz
             then ''/private/var/vm/swapfile'' @ TAB @ ''file'' @ TAB @ TAB @ dec (unat (sz div 1024)) @ TAB @ dec (unat (used div 1024)) @
               TAB @ ''-1'' @ [NEWLINE]
             else [])) u)"

section \<open>Disks and file systems\<close>

text \<open>What \<open>vfs_statfs\<close> says of a mount; \<open>vfs_iterate\<close> is the list of the mounts, \<^const>\<open>None\<close> where it says nothing.\<close>

record mount_stat =
  mt_fsid :: u32
  mt_blocks :: u64
  mt_bsize :: u32
  mt_flags :: u64
  mt_fstypename :: cstring
  mt_mntonname :: cstring
  mt_mntfromname :: cstring

type_synonym mounts = "mount_stat option list"

definition partition_line :: "string \<Rightarrow> string \<Rightarrow> u64 \<Rightarrow> cstring \<Rightarrow> string" where
  "partition_line major minor blocks name = pad_left CHR '' '' 4 major @ '' '' @ pad_left CHR '' '' 7 minor @ '' '' @
     pad_left CHR '' '' 10 (dec (unat blocks)) @ '' '' @ name @ [NEWLINE]"

definition procfs_partitions_cb :: "mount_stat option \<Rightarrow> string" where
  "procfs_partitions_cb st = (case st of None \<Rightarrow> []
     | Some s \<Rightarrow> if take 5 (mt_mntfromname s) \<noteq> ''/dev/'' then []
         else partition_line (dec (unat (dev_major (mt_fsid s)))) (dec (unat (dev_minor (mt_fsid s))))
           (drop_bit 10 (mt_blocks s * ucast (mt_bsize s))) (drop 5 (mt_mntfromname s)))"

text \<open>
  The media objects that the IOKit matching returns; an object of another class, or a missing or
  mistyped property, is \<^const>\<open>None\<close>. \<open>io_stats\<close> is the statistics dictionary of the provider.
\<close>

record io_media =
  io_name :: "cstring option"
  io_major :: "u32 option"
  io_minor :: "u32 option"
  io_size :: "u64 option"
  io_whole :: "bool option"
  io_stats :: "(string \<Rightarrow> u64 option) option"

datatype io_matching = NoMemory | NoIterator | Media "io_media option list"

record procfs_partition =
  part_major :: u32
  part_minor :: u32
  part_size :: u64
  part_name :: cstring

record procfs_diskstat =
  ds_major :: u32
  ds_minor :: u32
  ds_name :: cstring
  ds_reads :: u64
  ds_read_sectors :: u64
  ds_read_ticks :: u64
  ds_writes :: u64
  ds_write_sectors :: u64
  ds_write_ticks :: u64

abbreviation or0 :: "'a :: zero option \<Rightarrow> 'a" where
  "or0 x \<equiv> (case x of None \<Rightarrow> 0 | Some v \<Rightarrow> v)"

definition media_partition :: "io_media option \<Rightarrow> procfs_partition list" where
  "media_partition obj = (case obj of None \<Rightarrow> [] | Some e \<Rightarrow> (case io_name e of None \<Rightarrow> []
     | Some name \<Rightarrow> [\<lparr>part_major = or0 (io_major e), part_minor = or0 (io_minor e), part_size = or0 (io_size e),
         part_name = strlcpy name 64\<rparr>]))"

definition media_diskstat :: "io_media option \<Rightarrow> procfs_diskstat list" where
  "media_diskstat obj = (case obj of None \<Rightarrow> [] | Some e \<Rightarrow>
     if io_whole e \<noteq> Some True then []
     else (case (io_name e, io_stats e) of
         (Some name, Some stats) \<Rightarrow>
           let stat_u64 = (\<lambda>k. or0 (stats k)) in
           [\<lparr>ds_major = or0 (io_major e), ds_minor = or0 (io_minor e), ds_name = strlcpy name 64,
             ds_reads = stat_u64 ''Operations (Read)'', ds_read_sectors = stat_u64 ''Bytes (Read)'' div 512,
             ds_read_ticks = stat_u64 ''Total Time (Read)'' div 1000000,
             ds_writes = stat_u64 ''Operations (Write)'', ds_write_sectors = stat_u64 ''Bytes (Write)'' div 512,
             ds_write_ticks = stat_u64 ''Total Time (Write)'' div 1000000\<rparr>]
       | _ \<Rightarrow> []))"

text \<open>Both enumerations stop when the array is full.\<close>

definition io_enumerate :: "(io_media option \<Rightarrow> 'a list) \<Rightarrow> nat \<Rightarrow> io_matching \<Rightarrow> 'a list res" where
  "io_enumerate row mx r = (if mx = 0 then Inl EINVAL
     else (case r of NoMemory \<Rightarrow> Inl ENOMEM | NoIterator \<Rightarrow> Inl EIO | Media objs \<Rightarrow> Inr (take mx (concat (map row objs)))))"

definition procfs_iokit_get_partitions :: "nat \<Rightarrow> io_matching \<Rightarrow> procfs_partition list res" where
  "procfs_iokit_get_partitions = io_enumerate media_partition"

definition procfs_iokit_get_diskstats :: "nat \<Rightarrow> io_matching \<Rightarrow> procfs_diskstat list res" where
  "procfs_iokit_get_diskstats = io_enumerate media_diskstat"

definition procfs_dopartitions :: "kio \<Rightarrow> bool \<Rightarrow> bool \<Rightarrow> io_matching \<Rightarrow> mounts \<Rightarrow> uio \<Rightarrow> errno \<times> uio" where
  \<comment> \<open>the second flag is the outcome of the allocation of the array\<close>
  "procfs_dopartitions K sbuf_ok alloc io mts u =
     (if \<not> sbuf_ok then (ENOMEM, u)
      else let parts = (if alloc then (case procfs_iokit_get_partitions 128 io of Inr ps \<Rightarrow> ps | Inl _ \<Rightarrow> []) else [])
        in copy_out K (''major minor  #blocks  name'' @ [NEWLINE, NEWLINE] @
          (if parts \<noteq> []
           then concat (map (\<lambda>p. partition_line (dec (unat (part_major p))) (dec (unat (part_minor p))) (part_size p div 1024) (part_name p)) parts)
           else concat (map procfs_partitions_cb mts))) u)"

definition diskstat_line :: "procfs_diskstat \<Rightarrow> string" where
  "diskstat_line d = pad_left CHR '' '' 4 (dec (unat (ds_major d))) @ '' '' @ pad_left CHR '' '' 7 (dec (unat (ds_minor d))) @ '' '' @
     ds_name d @ '' '' @ dec (unat (ds_reads d)) @ '' 0 '' @ dec (unat (ds_read_sectors d)) @ '' '' @ dec (unat (ds_read_ticks d)) @ '' '' @
     dec (unat (ds_writes d)) @ '' 0 '' @ dec (unat (ds_write_sectors d)) @ '' '' @ dec (unat (ds_write_ticks d)) @ '' 0 '' @
     dec (unat (ds_read_ticks d + ds_write_ticks d)) @ '' 0'' @ [NEWLINE]"

definition procfs_dodiskstats :: "kio \<Rightarrow> bool \<Rightarrow> bool \<Rightarrow> io_matching \<Rightarrow> uio \<Rightarrow> errno \<times> uio" where
  "procfs_dodiskstats K sbuf_ok alloc io u =
     (if \<not> sbuf_ok then (ENOMEM, u)
      else copy_out K (concat (map diskstat_line
        (if alloc then (case procfs_iokit_get_diskstats 64 io of Inr ds \<Rightarrow> ds | Inl _ \<Rightarrow> []) else []))) u)"

definition mtab_flags :: "(u64 \<times> string) list" where
  "mtab_flags = [(0x8, '',nosuid''), (0x10, '',nodev''), (0x4, '',noexec''), (0x2, '',sync''), (0x40, '',async''),
     (0x10000000, '',noatime''), (0x20, '',union''), (0x800000, '',journaled''), (0x1000, '',local''), (0x100000, '',nobrowse'')]"

definition strlcat :: "cstring \<Rightarrow> cstring \<Rightarrow> nat \<Rightarrow> cstring" where
  "strlcat dst src cap = (if cap \<le> length dst then dst else take (cap - 1) (dst @ src))"

definition procfs_mtab_options :: "u64 \<Rightarrow> nat \<Rightarrow> cstring" where
  "procfs_mtab_options flags cap =
     foldl (\<lambda>out (flag, opt). if flags AND flag \<noteq> 0 then strlcat out opt cap else out)
       (strlcpy (if flags AND 0x1 \<noteq> 0 then ''ro'' else ''rw'') cap) mtab_flags"

definition procfs_mtab_cb :: "mount_stat option \<Rightarrow> string" where
  "procfs_mtab_cb st = (case st of None \<Rightarrow> []
     | Some s \<Rightarrow> mt_mntfromname s @ '' '' @ mt_mntonname s @ '' '' @ mt_fstypename s @ '' '' @ procfs_mtab_options (mt_flags s) 160 @
         '' 0 0'' @ [NEWLINE])"

definition procfs_domtab :: "kio \<Rightarrow> bool \<Rightarrow> mounts \<Rightarrow> uio \<Rightarrow> errno \<times> uio" where
  "procfs_domtab K sbuf_ok mts u = (if \<not> sbuf_ok then (ENOMEM, u) else copy_out K (concat (map procfs_mtab_cb mts)) u)"

definition MFSTYPENAMELEN :: nat where "MFSTYPENAMELEN = 16"

definition nodev_types :: "cstring list" where
  "nodev_types = [''devfs'', ''procfs'', ''autofs'', ''nullfs'', ''fdesc'', ''tmpfs'', ''mtmfs'', ''lifs'', ''bindfs'', ''webdav'',
     ''nfs'', ''smbfs'', ''ftp'']"

definition procfs_fs_is_nodev :: "cstring \<Rightarrow> bool" where
  "procfs_fs_is_nodev type \<longleftrightarrow> list_ex (\<lambda>t. take MFSTYPENAMELEN type = take MFSTYPENAMELEN t) nodev_types"

definition procfs_fstypes_cb :: "mount_stat option \<Rightarrow> cstring list \<Rightarrow> cstring list" where
  "procfs_fstypes_cb st names = (case st of None \<Rightarrow> names
     | Some s \<Rightarrow>
         if list_ex (\<lambda>nm. take MFSTYPENAMELEN nm = take MFSTYPENAMELEN (mt_fstypename s)) names then names
         else if length names < 32 then names @ [strlcpy (mt_fstypename s) MFSTYPENAMELEN] else names)"

definition procfs_dofilesystems :: "kio \<Rightarrow> bool \<Rightarrow> mounts \<Rightarrow> uio \<Rightarrow> errno \<times> uio" where
  "procfs_dofilesystems K sbuf_ok mts u =
     (if \<not> sbuf_ok then (ENOMEM, u)
      else copy_out K (concat (map (\<lambda>nm. (if procfs_fs_is_nodev nm then ''nodev'' else []) @ TAB @ nm @ [NEWLINE])
        (fold procfs_fstypes_cb mts []))) u)"

section \<open>Network interfaces\<close>

record ifnet_stat =
  if_name :: cstring
  if_unit :: u32
  bytes_in :: u64
  packets_in :: u64
  errors_in :: u64
  dropped :: u64
  multicasts_in :: u64
  bytes_out :: u64
  packets_out :: u64
  errors_out :: u64
  collisions :: u64

definition column :: "nat \<Rightarrow> u64 \<Rightarrow> string" where
  "column w v = pad_left CHR '' '' w (dec (unat v))"

definition netdev_line :: "ifnet_stat \<Rightarrow> string" where
  "netdev_line s = pad_left CHR '' '' 6 (snprintf 32 (if_name s @ dec (unat (if_unit s)))) @ '':'' @
     column 8 (bytes_in s) @ '' '' @ column 7 (packets_in s) @ '' '' @ column 4 (errors_in s) @ '' '' @ column 4 (dropped s) @ '' '' @
     column 4 0 @ '' '' @ column 4 0 @ '' '' @ column 10 0 @ '' '' @ column 9 (multicasts_in s) @ '' '' @
     column 8 (bytes_out s) @ '' '' @ column 7 (packets_out s) @ '' '' @ column 4 (errors_out s) @ '' '' @ column 4 0 @ '' '' @
     column 4 0 @ '' '' @ column 5 (collisions s) @ '' '' @ column 7 0 @ '' '' @ column 10 0 @ [NEWLINE]"

definition procfs_donetdev :: "kio \<Rightarrow> bool \<Rightarrow> ifnet_stat list res \<Rightarrow> uio \<Rightarrow> errno \<times> uio" where
  \<comment> \<open>the result of \<open>ifnet_list_get\<close>, with the statistics of each interface\<close>
  "procfs_donetdev K sbuf_ok ifs u = (case ifs of Inl kerr \<Rightarrow> (kerr, u)
     | Inr ifs \<Rightarrow> if \<not> sbuf_ok then (ENOMEM, u)
         else copy_out K (''Inter-|   Receive                                                |  Transmit'' @ [NEWLINE] @
           '' face |bytes    packets errs drop fifo frame compressed multicast|bytes    packets errs drop fifo colls carrier compressed'' @
           [NEWLINE] @ concat (map netdev_line ifs)) u)"

section \<open>Boot arguments\<close>

text \<open>The buffer after the kernel's own \<open>sysctlbyname\<close> or, where that gives nothing, the daemon's.\<close>

definition boot_args :: "bytes option \<Rightarrow> ctl_oracle \<Rightarrow> bytes" where
  "boot_args kern ctl =
     (let raw = (case kern of Some d \<Rightarrow> d | None \<Rightarrow> []);
          raw' = (if raw = [] then (case ctl REQ_SYSCTL 0 0 ''kern.bootargs'' 1024 of Inr d \<Rightarrow> d | Inl _ \<Rightarrow> []) else raw)
      in if raw' \<noteq> [] \<and> last raw' = NUL then butlast raw' else raw')"

definition procfs_dokcmdline :: "kio \<Rightarrow> bool \<Rightarrow> bytes option \<Rightarrow> ctl_oracle \<Rightarrow> uio \<Rightarrow> errno \<times> uio" where
  "procfs_dokcmdline K sbuf_ok kern ctl u =
     (if \<not> sbuf_ok then (ENOMEM, u) else copy_out K (cstr (boot_args kern ctl) @ [NEWLINE]) u)"

definition procfs_dobootconfig :: "kio \<Rightarrow> bool \<Rightarrow> bytes option \<Rightarrow> ctl_oracle \<Rightarrow> uio \<Rightarrow> errno \<times> uio" where
  "procfs_dobootconfig K sbuf_ok kern ctl u =
     (let raw = boot_args kern ctl in
      if \<not> sbuf_ok then (ENOMEM, u)
      else copy_out K (if raw \<noteq> []
        then cstr raw @ [NEWLINE] @ ''# Parameters from bootloader:'' @ [NEWLINE] @ ''# '' @ cstr raw @ [NEWLINE] else []) u)"

section \<open>cpuinfo\<close>

text \<open>
  The strings and numbers of the processor come from a library outside the repository and from the
  kernel's \<open>cpuid_info\<close>; they are parameters. Each processor has a block of lines; the blocks are
  formatted into the same buffer and moved one by one, each from its beginning, with the offset in
  the page taken off its length and the result of the move ignored.
\<close>

definition cpuinfo_move :: "kio \<Rightarrow> int \<Rightarrow> string list \<Rightarrow> uio \<Rightarrow> uio" where
  "cpuinfo_move K pgoff blocks u = fold (\<lambda>s u. snd (move_page K (LBFSZ * 4) pgoff s u)) blocks u"

record arm64_cpu =
  ac_bogomips :: cstring
  ac_features :: cstring
  ac_implementer :: cstring
  ac_architecture :: cstring
  ac_variant :: cstring
  ac_revision :: cstring
  ac_part :: cstring
  ac_part_ecore :: cstring

definition cpuinfo_arm64 :: "arm64_cpu \<Rightarrow> bytes \<Rightarrow> nat \<Rightarrow> string" where
  "cpuinfo_arm64 C clusters k =
     (let field = (\<lambda>label v. label @ '': '' @ v @ [NEWLINE]);
          part = (if k < 64 \<and> clusters ! k = CHR ''E'' then ac_part_ecore C else ac_part C)
      in field (''processor'' @ TAB @ TAB) (dec k) @ field (''BogoMIPS'' @ TAB @ TAB) (ac_bogomips C) @
         field (''Features'' @ TAB @ TAB) (ac_features C) @ field (''CPU implementer'' @ TAB @ TAB) (ac_implementer C) @
         field (''CPU architecture'' @ TAB) (ac_architecture C) @ field (''CPU variant'' @ TAB @ TAB) (ac_variant C) @
         field (''CPU part'' @ TAB @ TAB) part @ field (''CPU revision'' @ TAB @ TAB) (ac_revision C) @ [NEWLINE])"

record x86_cpu =
  xc_freq :: u64
  xc_vendor :: cstring
  xc_family :: u8
  xc_model :: u8
  xc_extmodel :: u8
  xc_brand :: cstring
  xc_microcode :: u32
  xc_cache_size :: u32
  xc_stepping :: u8
  xc_core_count :: u32
  xc_linesize :: u32
  xc_phys_bits :: u32
  xc_virt_bits :: u32
  xc_fpu :: bool
  xc_wp :: bool
  xc_flags :: cstring
  xc_bugs :: cstring
  xc_pm :: cstring

definition x86_mhz :: "u64 \<Rightarrow> int \<times> int" where
  "x86_mhz freq = (if freq \<noteq> 0 then (int32 (uint ((freq + 4999) div 1000000)), int32 (uint ((freq + 4999) div 10000 mod 100))) else (0, 0))"

definition cpuinfo_x86 :: "x86_cpu \<Rightarrow> u32 \<Rightarrow> nat \<Rightarrow> int \<Rightarrow> int \<Rightarrow> string" where
  \<comment> \<open>\<open>xc_flags\<close> is the concatenation of the five lists of flags\<close>
  "cpuinfo_x86 C max_cpus k apicid core_id =
     (let field = (\<lambda>label v. label @ '': '' @ v @ [NEWLINE]); (mhz, khz) = x86_mhz (xc_freq C);
          u = (\<lambda>w :: u32. dec (unat w)); d = (\<lambda>w :: u32. dec_int (sint w)); yes = (\<lambda>b. if b then ''yes'' else ''no'')
      in field (''processor'' @ TAB @ TAB) (dec k) @ field (''vendor_id'' @ TAB @ TAB) (xc_vendor C) @
         field (''cpu family'' @ TAB @ TAB) (dec (unat (xc_family C))) @
         field (''model'' @ TAB @ TAB @ TAB) (dec (unat (xc_model C + push_bit 4 (xc_extmodel C)))) @
         field (''model name'' @ TAB @ TAB) (xc_brand C) @
         field (''microcode'' @ TAB @ TAB) (''0x'' @ pad_left CHR ''0'' 7 (hex (unat (xc_microcode C)))) @
         field (''stepping'' @ TAB @ TAB) (dec (unat (xc_stepping C))) @
         field (''cpu MHz'' @ TAB @ TAB @ TAB) (dec_int mhz @ ''.'' @ dec02_int khz) @
         field (''cache size'' @ TAB @ TAB) (d (xc_cache_size C) @ '' KB'') @ field (''physical id'' @ TAB @ TAB) ''0'' @
         field (''siblings'' @ TAB @ TAB) (u max_cpus) @ field (''core id'' @ TAB @ TAB @ TAB) (dec_int core_id) @
         field (''cpu cores'' @ TAB @ TAB) (u (xc_core_count C)) @ field (''apicid'' @ TAB @ TAB @ TAB) (u (of_int apicid)) @
         field (''initial apicid'' @ TAB @ TAB) (u (of_int apicid)) @
         field (''fpu'' @ TAB @ TAB @ TAB) (yes (xc_fpu C)) @ field (''fpu_exception'' @ TAB @ TAB) (yes (xc_fpu C)) @
         field (''cpuid level'' @ TAB @ TAB) (u (xc_core_count C)) @ field (''wp'' @ TAB @ TAB @ TAB) (yes (xc_wp C)) @
         field (''flags'' @ TAB @ TAB @ TAB) (xc_flags C) @ field (''bugs'' @ TAB @ TAB @ TAB) (xc_bugs C) @
         field (''bogomips'' @ TAB @ TAB) (dec_int (int32 (mhz * 2)) @ ''.'' @ dec02_int khz) @
         field (''TLB size'' @ TAB @ TAB) (u (xc_linesize C * 40) @ '' 4K pages'') @
         field (''clflush_size'' @ TAB @ TAB) (u (xc_linesize C)) @ field (''cache_alignment'' @ TAB @ TAB) (d (xc_linesize C)) @
         field (''address sizes'' @ TAB @ TAB) (d (xc_phys_bits C) @ '' bits physical, '' @ d (xc_virt_bits C) @ '' bits virtual'') @
         field (''power management'' @ TAB) (xc_pm C) @ [NEWLINE])"

text \<open>The ids of the next processor.\<close>

definition next_apicid :: "u32 \<Rightarrow> int \<Rightarrow> int" where
  "next_apicid max_cpus apicid = (if sint max_cpus \<le> apicid + 2 then 1 else apicid + 2)"

definition next_core_id :: "u32 \<Rightarrow> int \<Rightarrow> int" where
  "next_core_id cores core_id = (if sint cores - 1 < core_id + 1 then 0 else core_id + 1)"

fun cpuinfo_blocks_x86 :: "x86_cpu \<Rightarrow> u32 \<Rightarrow> nat \<Rightarrow> nat \<Rightarrow> int \<Rightarrow> int \<Rightarrow> string list" where
  \<comment> \<open>for a number of processors still to come, from the given one on\<close>
  "cpuinfo_blocks_x86 C max_cpus 0 k apicid core_id = []"
| "cpuinfo_blocks_x86 C max_cpus (Suc m) k apicid core_id = cpuinfo_x86 C max_cpus k apicid core_id #
     cpuinfo_blocks_x86 C max_cpus m (k + 1) (next_apicid max_cpus apicid) (next_core_id (xc_core_count C) core_id)"

definition cpuinfo_blocks :: "x86_cpu + arm64_cpu \<Rightarrow> u32 \<Rightarrow> ctl_oracle \<Rightarrow> string list" where
  "cpuinfo_blocks cpu max_cpus ctl = (case cpu of
     Inl C \<Rightarrow> cpuinfo_blocks_x86 C max_cpus (unat max_cpus) 0 0 0
   | Inr C \<Rightarrow> map (cpuinfo_arm64 C (snd (procfs_cpu_clusters ctl (if max_cpus \<le> 64 then unat max_cpus else 64)))) [0..<unat max_cpus])"

definition procfs_docpuinfo :: "kio \<Rightarrow> u64 \<Rightarrow> x86_cpu + arm64_cpu \<Rightarrow> u32 option \<Rightarrow> ctl_oracle \<Rightarrow> uio \<Rightarrow> errno \<times> uio" where
  "procfs_docpuinfo K page cpu logicalcpu ctl u =
     (let max_cpus = (case logicalcpu of Some n \<Rightarrow> n | None \<Rightarrow> 1)
      in (0, cpuinfo_move K (page_offset page u) (cpuinfo_blocks cpu max_cpus ctl) u))"

section \<open>Registration of the sysctl nodes\<close>

definition procfs_sysctl_oids :: "string list" where
  "procfs_sysctl_oids = [''procfs'', ''procfs.linux'', ''procfs.linux_version'']"

definition procfs_sysctl_register :: "string set \<Rightarrow> string set" where
  "procfs_sysctl_register oids = fold insert procfs_sysctl_oids oids"

definition procfs_sysctl_unregister :: "string set \<Rightarrow> string set" where
  "procfs_sysctl_unregister oids = fold (\<lambda>oid s. s - {oid}) (rev procfs_sysctl_oids) oids"

section \<open>Lemmas\<close>

lemma sysctl_unregister_register: "oids \<inter> set procfs_sysctl_oids = {} \<Longrightarrow> procfs_sysctl_unregister (procfs_sysctl_register oids) = oids"
  by (auto simp: procfs_sysctl_register_def procfs_sysctl_unregister_def procfs_sysctl_oids_def)

text \<open>The \<open>cpu\<close> row of \<open>stat\<close> is the sum of the rows of the processors, and every processor has a row.\<close>

lemma foldl_cpuline:
  "foldl cpuline_add a rows = \<lparr>cl_user = cl_user a + sum_list (map cl_user rows), cl_nice = cl_nice a + sum_list (map cl_nice rows),
     cl_sys = cl_sys a + sum_list (map cl_sys rows), cl_idle = cl_idle a + sum_list (map cl_idle rows)\<rparr>"
  by (induction rows arbitrary: a) (simp_all add: cpuline_add_def add.assoc)

lemma stat_total_is_sum:
  assumes "cpu_lines ncpu r = (agg, rows)"
  shows "length rows = ncpu \<and> cl_user agg = sum_list (map cl_user rows) \<and> cl_nice agg = sum_list (map cl_nice rows) \<and>
    cl_sys agg = sum_list (map cl_sys rows) \<and> cl_idle agg = sum_list (map cl_idle rows)"
  using assms by (auto simp: cpu_lines_def Let_def foldl_cpuline cpuline_zero_def sum_list_replicate split: sum.splits)

text \<open>The options of a mount are never cut.\<close>

lemma mtab_options_all:
  "procfs_mtab_options flags 160 = (if flags AND 0x1 \<noteq> 0 then ''ro'' else ''rw'') @
     concat (map snd (filter (\<lambda>(flag, opt). flags AND flag \<noteq> 0) mtab_flags))"
proof -
  have step: "foldl (\<lambda>out (flag, opt). if flags AND flag \<noteq> 0 then strlcat out opt 160 else out) s fs =
      s @ concat (map snd (filter (\<lambda>(flag, opt). flags AND flag \<noteq> 0) fs))"
    if "length s + length (concat (map snd fs)) < 160" for s and fs :: "(u64 \<times> string) list"
    using that by (induction fs arbitrary: s) (auto simp: strlcat_def)
  show ?thesis unfolding procfs_mtab_options_def
    by (subst step) (simp_all add: mtab_flags_def strlcpy_def)
qed

text \<open>The file systems are listed once each, all of them while there are fewer than 32 types.\<close>

definition fstypes :: "mounts \<Rightarrow> cstring set" where
  "fstypes mts = {mt_fstypename s |s. Some s \<in> set mts}"

lemma fstypes_grow: "length names \<le> length (fold procfs_fstypes_cb mts names)"
proof (induction mts arbitrary: names)
  case (Cons m mts)
  have "length names \<le> length (procfs_fstypes_cb m names)" by (simp add: procfs_fstypes_cb_def split: option.splits)
  then show ?case using Cons.IH [of "procfs_fstypes_cb m names"] by simp
qed simp

lemma fstypes_fold:
  assumes "\<forall>t\<in>fstypes mts. length t < MFSTYPENAMELEN" "\<forall>t\<in>set names. length t < MFSTYPENAMELEN" "distinct names" "length names \<le> 32"
  defines "r \<equiv> fold procfs_fstypes_cb mts names"
  shows "distinct r \<and> length r \<le> 32 \<and> set names \<subseteq> set r \<and> set r \<subseteq> set names \<union> fstypes mts \<and> (length r < 32 \<longrightarrow> fstypes mts \<subseteq> set r)"
  using assms(1-4) unfolding r_def
proof (induction mts arbitrary: names)
  case (Cons m mts)
  have tail: "\<forall>t\<in>fstypes mts. length t < MFSTYPENAMELEN" using Cons.prems(1) by (auto simp: fstypes_def)
  show ?case
  proof (cases m)
    case None
    then show ?thesis using Cons.IH [OF tail Cons.prems(2-4)] by (auto simp: procfs_fstypes_cb_def fstypes_def)
  next
    case (Some s)
    let ?t = "mt_fstypename s"
    have t: "length ?t < MFSTYPENAMELEN" using Cons.prems(1) Some by (auto simp: fstypes_def)
    have ex: "list_ex (\<lambda>nm. take MFSTYPENAMELEN nm = take MFSTYPENAMELEN ?t) names \<longleftrightarrow> ?t \<in> set names"
      using t Cons.prems(2) by (auto simp: list_ex_iff intro!: bexI [of _ ?t])
    have cpy: "strlcpy ?t MFSTYPENAMELEN = ?t" using t by (simp add: strlcpy_def)
    define names' where "names' = procfs_fstypes_cb m names"
    have n': "names' = (if ?t \<in> set names \<or> 32 \<le> length names then names else names @ [?t])"
      by (simp add: names'_def Some procfs_fstypes_cb_def ex cpy)
    have fs: "fstypes (m # mts) = insert ?t (fstypes mts)" by (auto simp: fstypes_def Some)
    have grow: "length names' \<le> length (fold procfs_fstypes_cb mts names')" by (rule fstypes_grow)
    have "distinct names'" "length names' \<le> 32" "\<forall>t\<in>set names'. length t < MFSTYPENAMELEN"
      using Cons.prems(2-4) t by (auto simp: n')
    from Cons.IH [OF tail this(3,1,2)] grow show ?thesis by (auto simp: fs n' names'_def [symmetric] split: if_splits)
  qed
qed (simp add: fstypes_def)

lemma filesystems_listed:
  assumes "\<forall>t\<in>fstypes mts. length t < MFSTYPENAMELEN" "card (fstypes mts) < 32"
  shows "distinct (fold procfs_fstypes_cb mts []) \<and> set (fold procfs_fstypes_cb mts []) = fstypes mts"
proof -
  let ?r = "fold procfs_fstypes_cb mts []"
  have r: "distinct ?r" "length ?r \<le> 32" "set ?r \<subseteq> fstypes mts" "length ?r < 32 \<longrightarrow> fstypes mts \<subseteq> set ?r"
    using fstypes_fold [OF assms(1), of "[]"] by auto
  have "fstypes mts = (mt_fstypename \<circ> the) ` (set mts - {None})" by (force simp: fstypes_def image_iff)
  then have "finite (fstypes mts)" by simp
  then have "length ?r < 32" using r(1,3) assms(2) card_mono [of "fstypes mts" "set ?r"] by (simp add: distinct_card)
  with r show ?thesis by blast
qed

text \<open>
  A read of cpuinfo whose offset in the page is less than the length of a block delivers data, also
  when everything has been delivered before: where the file is longer than a page, a reader that
  goes on until it gets nothing may never stop.
\<close>

lemma move_page_out:
  assumes "uiomove_out_law (kio_move K)" "uiomove_out_nofault (kio_move K)" "length s < sz" "sz < 2 ^ 31" "0 \<le> pgoff" "pgoff < 2 ^ 31"
  shows "move_page K sz pgoff s u = (0, uio_push (take (nat (min (int (length s) - pgoff) (uio_resid u))) s) u)"
proof -
  have "int32 (int (length s) - pgoff) = int (length s) - pgoff" using assms(3-6) by (intro int32_id) simp_all
  moreover have "snprintf sz s = s" using assms(3) by (simp add: snprintf_def)
  moreover have "nat (min (int (length s) - pgoff) (uio_resid u)) \<le> length s" using assms(5) by linarith
  ultimately show ?thesis
    by (simp add: move_page_def uiomove_outD [OF assms(1,2)] move_len_def)
qed

lemma push_advances: "d \<noteq> [] \<Longrightarrow> uio_offset u < uio_offset (uio_push d u)"
  by simp

lemma cpuinfo_goes_on:
  assumes "uiomove_out_law (kio_move K)" "uiomove_out_nofault (kio_move K)" "0 < uio_resid u" "0 \<le> pgoff" "pgoff < 2 ^ 31"
    and "\<forall>s\<in>set blocks. length s < LBFSZ * 4" "s \<in> set blocks" "pgoff < int (length s)"
  shows "uio_offset u < uio_offset (cpuinfo_move K pgoff blocks u)"
proof -
  let ?f = "\<lambda>s u. snd (move_page K (LBFSZ * 4) pgoff s u)"
  have mv: "?f s u = uio_push (take (nat (min (int (length s) - pgoff) (uio_resid u))) s) u" if "length s < LBFSZ * 4" for s u
    using move_page_out [OF assms(1,2) that _ assms(4,5), of u] by (simp add: LBFSZ_def)
  have mono: "uio_offset u \<le> uio_offset (fold ?f bs u)" if "\<forall>s\<in>set bs. length s < LBFSZ * 4" for bs u
    using that
  proof (induction bs arbitrary: u)
    case (Cons b bs)
    have "uio_offset u \<le> uio_offset (?f b u)" using Cons.prems by (simp add: mv)
    also have "\<dots> \<le> uio_offset (fold ?f bs (?f b u))" using Cons by simp
    finally show ?case by simp
  qed simp
  show ?thesis unfolding cpuinfo_move_def using assms(3,6,7)
  proof (induction blocks arbitrary: u)
    case (Cons b bs)
    let ?d = "take (nat (min (int (length b) - pgoff) (uio_resid u))) b"
    have step: "?f b u = uio_push ?d u" using Cons.prems(2) by (simp add: mv)
    have "uio_offset (uio_push ?d u) \<le> uio_offset (fold ?f bs (uio_push ?d u))" using Cons.prems(2) by (intro mono) simp
    moreover have "uio_offset u < uio_offset (fold ?f bs (uio_push ?d u))" if "?d = []"
    proof -
      have "\<not> pgoff < int (length b)" using that Cons.prems(1) assms(4) by (auto simp: min_def split: if_splits)
      then have "s \<in> set bs" using Cons.prems(3) assms(8) by auto
      then show ?thesis unfolding that uio_push_Nil using Cons.prems by (intro Cons.IH) simp_all
    qed
    moreover have "uio_offset u < uio_offset (uio_push ?d u)" if "?d \<noteq> []" using that by (rule push_advances)
    ultimately show ?case unfolding fold_simps comp_def step by (meson order_less_le_trans)
  qed simp
qed

section \<open>Properties\<close>

lemma unat_blk:
  assumes "order < 64"
  shows "unat (2 ^ order :: u64) = 2 ^ order"
proof -
  have "(2 :: nat) ^ order < 2 ^ 64" using assms by (intro power_strict_increasing) simp_all
  moreover have "2 ^ order = (of_nat (2 ^ order) :: u64)" by simp
  ultimately show ?thesis by (simp only: unat_of_nat) simp
qed

lemma length_buddy_loop [simp]: "length (buddy_loop k r) = k"
  by (induction k arbitrary: r) (simp_all add: Let_def)

lemma buddy_loop_sum: "k \<le> 64 \<Longrightarrow> (\<Sum>i<k. unat (buddy_loop k r ! i) * 2 ^ i) = (if k = 0 then 0 else unat r)"
proof (induction k arbitrary: r)
  case (Suc k)
  have "(\<Sum>i<k. unat (buddy_loop (Suc k) r ! i) * 2 ^ i) = (\<Sum>i<k. unat (buddy_loop k (r mod push_bit k 1) ! i) * 2 ^ i)"
    by (intro sum.cong) (simp_all add: Let_def nth_append)
  also have "\<dots> = (if k = 0 then 0 else unat r mod 2 ^ k)" using Suc by (simp add: unat_mod_distrib unat_blk)
  finally show ?case using Suc.prems by (cases "k = 0") (simp_all add: Let_def nth_append unat_div_distrib unat_blk mod_div_mult_eq)
qed simp

lemma buddy_loop_small: "k \<le> 64 \<Longrightarrow> unat r < 2 ^ k \<Longrightarrow> set (buddy_loop k r) \<subseteq> {0, 1}"
proof (induction k arbitrary: r)
  case (Suc k)
  let ?b = "push_bit k 1 :: u64"
  have "unat (r mod ?b) < 2 ^ k" using Suc.prems(1) by (simp add: unat_mod_distrib unat_blk)
  then have "set (buddy_loop k (r mod ?b)) \<subseteq> {0, 1}" using Suc.prems(1) by (intro Suc.IH) simp_all
  moreover have "unat (r div ?b) < 2" using Suc.prems by (simp add: unat_div_distrib unat_blk less_mult_imp_div_less)
  then have "r div ?b \<in> {0, 1}" by (auto simp: word_unat_eq_iff less_2_cases_iff)
  ultimately show ?case by (simp add: Let_def)
qed simp

text \<open>
  C36: \<open>buddyinfo\<close> decomposes the number of free pages into blocks: the blocks of the eleven orders
  together have exactly that many pages, of every order below the highest there is at most one, and
  the node shows these counts.
\<close>

theorem buddyinfo_accounts_pages:
  "\<exists>counts. procfs_dobuddyinfo K True A ctl u = copy_out K (buddy_text counts) u \<and> length counts = 11 \<and>
     (\<Sum>i<11. unat (counts ! i) * 2 ^ i) = unat (free_count (fetch_vmstat A ctl)) \<and> set (take 10 counts) \<subseteq> {0, 1}"
proof -
  let ?r = "ucast (free_count (fetch_vmstat A ctl)) :: u64"
  have top: "buddy_loop 11 ?r = buddy_loop 10 (?r mod push_bit 10 1) @ [?r div push_bit 10 1]"
    by (simp add: eval_nat_numeral Let_def)
  have "unat (?r mod push_bit 10 1) < 2 ^ 10" by (simp add: unat_mod_distrib unat_blk)
  then have "set (buddy_loop 10 (?r mod push_bit 10 1)) \<subseteq> {0, 1}" by (intro buddy_loop_small) simp_all
  then have "set (take 10 (buddy_loop 11 ?r)) \<subseteq> {0, 1}" unfolding top by simp
  moreover have "(\<Sum>i<11. unat (buddy_loop 11 ?r ! i) * 2 ^ i) = unat (free_count (fetch_vmstat A ctl))"
    using buddy_loop_sum [of 11 ?r] unsigned_less [of "free_count (fetch_vmstat A ctl)", where 'a = nat]
    by (simp add: unsigned_ucast_eq take_bit_nat_eq_self)
  ultimately show ?thesis
    by (intro exI [of _ "buddy_loop 11 ?r"]) (simp add: procfs_dobuddyinfo_def buddy_counts_def PROCFS_BUDDY_ORDERS_def)
qed

end
