(* ===== verification/Builders.thy ===== *)
theory Builders
  imports Kern
begin

text \<open>
  The listings of the daemon (\<open>tools/procfsd.c\<close>) that it draws from \<open>/dev\<close>, the kext manager, the
  zone allocator, the IORegistry, System V IPC and log files, and the power state: what each
  \<open>build_*_blob\<close> makes of the answers of the system. Shown here: the tables grouped by device
  number have one row for each number, whatever order \<open>/dev\<close> is read in, and the base address
  registers of a PCI device are read from the tuple of their own register.

  What the system answers is a parameter. A CFString property is the function that gives the
  string the conversion leaves in a buffer of a given size. A row array that cannot grow is
  \<open>realloc_ok\<close> being false for the new capacity.
\<close>

section \<open>Growing arrays and sorting\<close>

definition grow :: "(nat \<Rightarrow> bool) \<Rightarrow> nat \<Rightarrow> 'a \<Rightarrow> 'a list \<times> nat \<Rightarrow> ('a list \<times> nat) option" where
  "grow realloc_ok first r = (\<lambda>(rows, cap).
     if length rows = cap then
       let ncap = (if cap = 0 then first else cap * 2)
       in if realloc_ok ncap then Some (rows @ [r], ncap) else None
     else Some (rows @ [r], cap))"

text \<open>The C library's \<open>qsort\<close> with a comparison of keys: elements with equal keys come in any order.\<close>

definition sorts_by :: "('a \<Rightarrow> 'k :: linorder) \<Rightarrow> ('a list \<Rightarrow> 'a list) \<Rightarrow> bool" where
  "sorts_by k qs \<longleftrightarrow> (\<forall>xs. mset (qs xs) = mset xs \<and> sorted (map k (qs xs)))"

definition right_int :: "nat \<Rightarrow> int \<Rightarrow> string" where
  "right_int w i = pad_left CHR '' '' w (dec_int i)"

definition right_u64 :: "nat \<Rightarrow> u64 \<Rightarrow> string" where
  "right_u64 w v = pad_left CHR '' '' w (dec (unat v))"

section \<open>Kernel extensions\<close>

record kext_info =
  ki_tag :: "int option"
  ki_refs :: "int option"
  ki_addr :: "int option"
  ki_size :: "int option"
  ki_wired :: "int option"
  ki_name :: "(nat \<Rightarrow> cstring) option"
  ki_vers :: "(nat \<Rightarrow> cstring) option"

record kextrow =
  kr_tag :: int
  kr_refs :: int
  kr_addr :: int
  kr_size :: int
  kr_wired :: int
  kr_name :: cstring
  kr_vers :: cstring

definition cfnum_ll :: "int option \<Rightarrow> int" where
  "cfnum_ll n = (case n of None \<Rightarrow> 0 | Some v \<Rightarrow> v)"

definition cfstr_copy :: "(nat \<Rightarrow> cstring) option \<Rightarrow> nat \<Rightarrow> cstring" where
  "cfstr_copy s cap = (case s of None \<Rightarrow> [] | Some f \<Rightarrow> f cap)"

definition kext_row :: "kext_info \<Rightarrow> kextrow" where
  "kext_row d = \<lparr>kr_tag = cfnum_ll (ki_tag d), kr_refs = cfnum_ll (ki_refs d), kr_addr = cfnum_ll (ki_addr d),
     kr_size = cfnum_ll (ki_size d), kr_wired = cfnum_ll (ki_wired d), kr_name = cfstr_copy (ki_name d) 128,
     kr_vers = cfstr_copy (ki_vers d) 64\<rparr>"

definition collect_kexts :: "(kextrow list \<Rightarrow> kextrow list) \<Rightarrow> bool \<Rightarrow> kext_info option list option \<Rightarrow> kextrow list option" where
  \<comment> \<open>\<^const>\<open>None\<close> in the list is a value that is not a dictionary\<close>
  "collect_kexts qs alloc info = (case info of None \<Rightarrow> None
     | Some vals \<Rightarrow> if \<not> alloc then None
         else Some (qs (concat (map (\<lambda>v. case v of None \<Rightarrow> [] | Some d \<Rightarrow> [kext_row d]) vals))))"

definition llx :: "int \<Rightarrow> string" where
  "llx i = hex (unat (of_int i :: u64))"

definition kext_line :: "bool \<Rightarrow> kextrow \<Rightarrow> string" where
  "kext_line linux_fmt r =
     (if linux_fmt then kr_name r @ '' '' @ dec_int (kr_size r) @ '' '' @ dec_int (kr_refs r) @ '' - Live 0x'' @
        llx (kr_addr r) @ [NEWLINE]
      else right_int 5 (kr_tag r) @ '' '' @ right_int 4 (kr_refs r) @ '' 0x'' @ pad_right 16 (llx (kr_addr r)) @
        '' 0x'' @ pad_right 8 (llx (kr_size r)) @ '' 0x'' @ pad_right 8 (llx (kr_wired r)) @ '' '' @ kr_name r @
        '' ('' @ kr_vers r @ '')'' @ [NEWLINE])"

definition build_blob :: "(kextrow list \<Rightarrow> kextrow list) \<Rightarrow> bool \<Rightarrow> kext_info option list option \<Rightarrow> bool \<Rightarrow> bytes option" where
  "build_blob qs alloc info linux_fmt = map_option (\<lambda>rows.
     (if linux_fmt then [] else ''Index Refs Address            Size       Wired      Name (Version)'' @ [NEWLINE]) @
     concat (map (kext_line linux_fmt) rows)) (collect_kexts qs alloc info)"

section \<open>Devices\<close>

datatype file_kind = CharDev | BlockDev | OtherFile

text \<open>The names in \<open>/dev\<close>, when it can be opened, and what \<open>lstat\<close> says of a path.\<close>

record dev_dir =
  dd_names :: "cstring list option"
  dd_lstat :: "cstring \<Rightarrow> (file_kind \<times> u32) option"

definition dev_stat :: "dev_dir \<Rightarrow> cstring \<Rightarrow> (file_kind \<times> u32) option" where
  "dev_stat D nm = (if take 1 nm = ''.'' then None else dd_lstat D (snprintf 1100 (''/dev/'' @ nm)))"

record devrow =
  dr_major :: u32
  dr_is_block :: bool
  dr_name :: cstring

fun trim_separators :: "cstring \<Rightarrow> cstring" where
  \<comment> \<open>on the reversed name\<close>
  "trim_separators (c # d # cs) = (if c \<in> {CHR ''.'', CHR ''_'', CHR ''-''} then trim_separators (d # cs) else c # d # cs)"
| "trim_separators cs = cs"

definition dev_family :: "cstring \<Rightarrow> nat \<Rightarrow> cstring" where
  "dev_family nm cap =
     (let fam = take (cap - 1) (takeWhile (\<lambda>c. \<not> is_digit c) nm)
      in if fam = [] then strlcpy nm cap else rev (trim_separators (rev fam)))"

fun dev_merge :: "u32 \<Rightarrow> bool \<Rightarrow> cstring \<Rightarrow> devrow list \<Rightarrow> devrow list option" where
  "dev_merge mj blk fam [] = None"
| "dev_merge mj blk fam (r # rs) =
     (if dr_major r = mj \<and> dr_is_block r = blk
      then Some ((if length fam < length (dr_name r) then r\<lparr>dr_name := strlcpy fam 64\<rparr> else r) # rs)
      else map_option ((#) r) (dev_merge mj blk fam rs))"

definition dev_insert :: "(nat \<Rightarrow> bool) \<Rightarrow> u32 \<Rightarrow> bool \<Rightarrow> cstring \<Rightarrow> devrow list \<times> nat \<Rightarrow> devrow list \<times> nat" where
  "dev_insert realloc_ok mj blk fam st = (case dev_merge mj blk fam (fst st) of
     Some rows \<Rightarrow> (rows, snd st)
   | None \<Rightarrow> (case grow realloc_ok 32 \<lparr>dr_major = mj, dr_is_block = blk, dr_name = strlcpy fam 64\<rparr> st of
       None \<Rightarrow> st | Some st' \<Rightarrow> st'))"

definition dev_visit :: "(nat \<Rightarrow> bool) \<Rightarrow> dev_dir \<Rightarrow> cstring \<Rightarrow> devrow list \<times> nat \<Rightarrow> devrow list \<times> nat" where
  "dev_visit realloc_ok D nm st = (case dev_stat D nm of
     Some (CharDev, rdev) \<Rightarrow> dev_insert realloc_ok (dev_major rdev) False (dev_family nm 64) st
   | Some (BlockDev, rdev) \<Rightarrow> dev_insert realloc_ok (dev_major rdev) True (dev_family nm 64) st
   | _ \<Rightarrow> st)"

definition dev_line :: "devrow \<Rightarrow> string" where
  "dev_line r = right_int 3 (uint (dr_major r)) @ '' '' @ dr_name r @ [NEWLINE]"

definition devices_text :: "devrow list \<Rightarrow> string" where
  "devices_text rows = ''Character devices:'' @ [NEWLINE] @ concat (map dev_line (filter (\<lambda>r. \<not> dr_is_block r) rows)) @
     [NEWLINE] @ ''Block devices:'' @ [NEWLINE] @ concat (map dev_line (filter dr_is_block rows))"

definition build_devices_blob :: "(devrow list \<Rightarrow> devrow list) \<Rightarrow> (nat \<Rightarrow> bool) \<Rightarrow> dev_dir \<Rightarrow> bytes option" where
  "build_devices_blob qs realloc_ok D = map_option (\<lambda>names.
     devices_text (qs (fst (fold (dev_visit realloc_ok D) names ([], 0))))) (dd_names D)"

subsection \<open>Miscellaneous devices\<close>

record miscrow =
  mr_minor :: u32
  mr_name :: cstring

definition misc_prefixes :: "cstring list" where
  "misc_prefixes = [''tty'', ''pty'', ''cu'', ''disk'', ''rdisk'']"

definition misc_exact :: "cstring list" where
  "misc_exact = [''null'', ''zero'', ''mem'', ''kmem'', ''random'', ''urandom'', ''console'', ''ptmx'', ''stdin'', ''stdout'',
     ''stderr'', ''fd'']"

definition misc_excluded :: "cstring \<Rightarrow> bool" where
  "misc_excluded fam \<longleftrightarrow> list_ex (\<lambda>p. take (length p) fam = p) misc_prefixes \<or> fam \<in> set misc_exact"

fun misc_merge :: "cstring \<Rightarrow> u32 \<Rightarrow> miscrow list \<Rightarrow> miscrow list option" where
  "misc_merge fam mn [] = None"
| "misc_merge fam mn (r # rs) =
     (if mr_name r = fam then Some ((if mn < mr_minor r then r\<lparr>mr_minor := mn\<rparr> else r) # rs)
      else map_option ((#) r) (misc_merge fam mn rs))"

fun misc_loop :: "(nat \<Rightarrow> bool) \<Rightarrow> dev_dir \<Rightarrow> cstring list \<Rightarrow> miscrow list \<times> nat \<Rightarrow> miscrow list" where
  "misc_loop realloc_ok D [] st = fst st"
| "misc_loop realloc_ok D (nm # nms) st = (case dev_stat D nm of
     Some (CharDev, rdev) \<Rightarrow>
       let fam = dev_family nm 64; mn = dev_minor rdev in
       if fam = [] \<or> misc_excluded fam then misc_loop realloc_ok D nms st
       else (case misc_merge fam mn (fst st) of
           Some rows \<Rightarrow> misc_loop realloc_ok D nms (rows, snd st)
         | None \<Rightarrow> (case grow realloc_ok 32 \<lparr>mr_minor = mn, mr_name = strlcpy fam 64\<rparr> st of
             None \<Rightarrow> fst st | Some st' \<Rightarrow> misc_loop realloc_ok D nms st'))
   | _ \<Rightarrow> misc_loop realloc_ok D nms st)"

definition build_misc_blob :: "(miscrow list \<Rightarrow> miscrow list) \<Rightarrow> (nat \<Rightarrow> bool) \<Rightarrow> dev_dir \<Rightarrow> bytes option" where
  "build_misc_blob qs realloc_ok D = map_option (\<lambda>names.
     concat (map (\<lambda>r. right_int 3 (uint (mr_minor r)) @ '' '' @ mr_name r @ [NEWLINE])
       (qs (misc_loop realloc_ok D names ([], 0))))) (dd_names D)"

subsection \<open>Terminals\<close>

record ttyrow =
  ty_major :: u32
  ty_min :: u32
  ty_max :: u32
  ty_name :: cstring
  ty_type :: cstring

definition starts :: "cstring \<Rightarrow> cstring \<Rightarrow> bool" where
  \<comment> \<open>\<open>strncmp\<close> with the length of the prefix\<close>
  "starts nm p \<longleftrightarrow> take (length p) nm = p"

definition tty_is_name :: "cstring \<Rightarrow> bool" where
  "tty_is_name nm \<longleftrightarrow> starts nm ''tty'' \<or> starts nm ''cu.'' \<or> starts nm ''pty'' \<or> starts nm ''ptm'' \<or> nm = ''console''"

definition tty_family :: "cstring \<Rightarrow> nat \<Rightarrow> cstring" where
  "tty_family nm cap =
     (let fam = takeWhile (\<lambda>c. c \<noteq> CHR ''.'' \<and> \<not> is_digit c) (take (cap - 1) nm)
      in if fam = [] then strlcpy nm cap else fam)"

definition tty_type :: "cstring \<Rightarrow> cstring" where
  "tty_type nm =
     (if nm = ''console'' then ''console''
      else if starts nm ''cu.'' \<or> starts nm ''tty.'' then ''serial''
      else if starts nm ''ptm'' \<or> starts nm ''pty'' then ''pty:master''
      else if nm = ''tty'' then ''system''
      else if starts nm ''tty'' then ''pty:slave''
      else ''system'')"

fun tty_merge :: "u32 \<Rightarrow> u32 \<Rightarrow> ttyrow list \<Rightarrow> ttyrow list option" where
  "tty_merge mj mn [] = None"
| "tty_merge mj mn (r # rs) =
     (if ty_major r = mj then Some (r\<lparr>ty_min := (if mn < ty_min r then mn else ty_min r),
                                      ty_max := (if ty_max r < mn then mn else ty_max r)\<rparr> # rs)
      else map_option ((#) r) (tty_merge mj mn rs))"

fun tty_loop :: "(nat \<Rightarrow> bool) \<Rightarrow> dev_dir \<Rightarrow> cstring list \<Rightarrow> ttyrow list \<times> nat \<Rightarrow> ttyrow list" where
  "tty_loop realloc_ok D [] st = fst st"
| "tty_loop realloc_ok D (nm # nms) st =
     (if \<not> tty_is_name nm then tty_loop realloc_ok D nms st
      else (case dev_stat D nm of
        Some (CharDev, rdev) \<Rightarrow>
          let mj = dev_major rdev; mn = dev_minor rdev in
          (case tty_merge mj mn (fst st) of
             Some rows \<Rightarrow> tty_loop realloc_ok D nms (rows, snd st)
           | None \<Rightarrow> (case grow realloc_ok 32 \<lparr>ty_major = mj, ty_min = mn, ty_max = mn, ty_name = tty_family nm 64,
                 ty_type = strlcpy (tty_type nm) 16\<rparr> st of
               None \<Rightarrow> fst st | Some st' \<Rightarrow> tty_loop realloc_ok D nms st'))
      | _ \<Rightarrow> tty_loop realloc_ok D nms st))"

definition tty_range :: "ttyrow \<Rightarrow> string" where
  "tty_range r = snprintf 32 (if ty_min r = ty_max r then dec (unat (ty_min r))
     else dec (unat (ty_min r)) @ ''-'' @ dec (unat (ty_max r)))"

definition build_ttydrivers_blob :: "(ttyrow list \<Rightarrow> ttyrow list) \<Rightarrow> (nat \<Rightarrow> bool) \<Rightarrow> dev_dir \<Rightarrow> bytes option" where
  "build_ttydrivers_blob qs realloc_ok D = map_option (\<lambda>names.
     concat (map (\<lambda>r. pad_right 20 (ty_name r) @ '' '' @ pad_right 11 (snprintf 80 (''/dev/'' @ ty_name r)) @ '' '' @
         right_int 3 (uint (ty_major r)) @ '' '' @ tty_range r @ '' '' @ ty_type r @ [NEWLINE])
       (qs (tty_loop realloc_ok D names ([], 0))))) (dd_names D)"

section \<open>Zones and memory sites\<close>

record zone_info =
  mzi_count :: u64
  mzi_elem_size :: u64
  mzi_alloc_size :: u64
  mzi_cur_size :: u64

type_synonym zones = "(cstring list \<times> zone_info list) option"
  \<comment> \<open>what \<open>mach_zone_info\<close> returns to a holder of the privileged host port\<close>

record allocrow =
  ar_size :: u64
  ar_calls :: u64
  ar_name :: cstring

definition build_allocinfo_blob :: "(allocrow list \<Rightarrow> allocrow list) \<Rightarrow> bool \<Rightarrow> zones \<Rightarrow> bytes option" where
  "build_allocinfo_blob qs alloc Z = (case Z of None \<Rightarrow> None
     | Some (names, info) \<Rightarrow> if \<not> alloc then None else Some
         (''allocinfo - version: 1.0'' @ [NEWLINE] @ ''#     <size>  <calls> <tag info>'' @ [NEWLINE] @
          concat (map (\<lambda>r. right_u64 12 (ar_size r) @ '' '' @ right_u64 8 (ar_calls r) @ '' zone:'' @ ar_name r @ [NEWLINE])
            (qs (map (\<lambda>(nm, z). \<lparr>ar_size = mzi_count z * mzi_elem_size z, ar_calls = mzi_count z, ar_name = strlcpy nm 80\<rparr>)
              (zip names info))))))"

definition per :: "u64 \<Rightarrow> u64 \<Rightarrow> u64" where
  "per a b = (if b \<noteq> 0 then a div b else 0)"

definition slab_line :: "u64 \<Rightarrow> cstring \<times> zone_info \<Rightarrow> string" where
  "slab_line pagesize = (\<lambda>(nm, z). let elem = mzi_elem_size z; alloc = mzi_alloc_size z; cur = mzi_cur_size z in
     pad_right 17 nm @ '' '' @ right_u64 6 (mzi_count z) @ '' '' @ right_u64 6 (per cur elem) @ '' '' @ right_u64 6 elem @
     '' '' @ right_u64 4 (per alloc elem) @ '' '' @ right_u64 4 (per alloc pagesize) @ '' : tunables    0    0    0 : slabdata '' @
     right_u64 6 (per cur alloc) @ '' '' @ right_u64 6 (per cur alloc) @ ''      0'' @ [NEWLINE])"

definition build_slabinfo_blob :: "u64 \<Rightarrow> zones \<Rightarrow> bytes option" where
  "build_slabinfo_blob pagesize Z = map_option (\<lambda>(names, info).
     ''slabinfo - version: 2.1'' @ [NEWLINE] @
     ''# name            <active_objs> <num_objs> <objsize> <objperslab> <pagesperslab> : tunables <limit> <batchcount> <sharedfactor> : slabdata <active_slabs> <num_slabs> <sharedavail>'' @
     [NEWLINE] @ concat (map (slab_line pagesize) (zip names info))) Z"

record memory_site =
  ms_size :: u64
  ms_mapped :: u64
  ms_name :: cstring
  ms_tag :: u32

record vmallocrow =
  vr_size :: u64
  vr_mapped :: u64
  vr_name :: cstring

definition vmalloc_rows :: "memory_site list \<Rightarrow> vmallocrow list" where
  "vmalloc_rows sites = map (\<lambda>m. \<lparr>vr_size = ms_size m, vr_mapped = ms_mapped m,
     vr_name = (if ms_name m \<noteq> [] then strlcpy (ms_name m) 80 else snprintf 80 (''tag-'' @ dec (unat (ms_tag m))))\<rparr>)
     (filter (\<lambda>m. ms_size m \<noteq> 0) sites)"

definition build_vmallocinfo_blob :: "(vmallocrow list \<Rightarrow> vmallocrow list) \<Rightarrow> bool \<Rightarrow> u64 \<Rightarrow> memory_site list option \<Rightarrow> bytes option" where
  "build_vmallocinfo_blob qs alloc pagesize sites = (case sites of None \<Rightarrow> None
     | Some ms \<Rightarrow> if \<not> alloc then None else Some (concat (map (\<lambda>r.
         ''0x0000000000000000-0x0000000000000000 '' @ right_u64 10 (vr_size r) @ '' '' @ vr_name r @ '' vmalloc'' @
         (if 0 < vr_mapped r then '' pages='' @ dec (unat (vr_mapped r div pagesize)) else []) @ [NEWLINE])
         (qs (vmalloc_rows ms)))))"

section \<open>Logs and files\<close>

definition build_kmsg_blob :: "int option \<Rightarrow> bool \<Rightarrow> (nat \<Rightarrow> int \<times> bytes) \<Rightarrow> bytes option" where
  \<comment> \<open>\<open>kern.msgbuf\<close>, whether \<open>malloc\<close> succeeds, and \<open>proc_kmsgbuf\<close> on a buffer of that size\<close>
  "build_kmsg_blob msgbuf alloc kmsgbuf = (case msgbuf of None \<Rightarrow> None
     | Some bufsize \<Rightarrow> if bufsize \<le> 0 \<or> \<not> alloc then None
         else let (n, buf) = kmsgbuf (nat bufsize)
              in if 0 < n then Some (take (nat (if n \<le> bufsize then n else bufsize)) buf) else None)"

record report_dir =
  rp_names :: "cstring list option"
  rp_stat :: "cstring \<Rightarrow> (bool \<times> int \<times> int) option" \<comment> \<open>regular file, modification time, size\<close>
  rp_alloc :: bool
  rp_read :: "cstring \<Rightarrow> nat \<Rightarrow> bytes option"

definition PROCFS_PANIC_DIR :: cstring where "PROCFS_PANIC_DIR = ''/Library/Logs/DiagnosticReports''"

definition panic_path :: "cstring \<Rightarrow> cstring" where
  "panic_path nm = snprintf MAXPATHLEN (PROCFS_PANIC_DIR @ ''/'' @ nm)"

definition panic_time :: "report_dir \<Rightarrow> cstring \<Rightarrow> int option" where
  \<comment> \<open>of a name that is a panic report\<close>
  "panic_time R nm =
     (if take 1 nm = ''.'' \<or> length nm < 6 \<or> drop (length nm - 6) nm \<noteq> ''.panic'' then None
      else (case rp_stat R (panic_path nm) of Some (True, mtime, sz) \<Rightarrow> Some mtime | _ \<Rightarrow> None))"

definition panic_visit :: "report_dir \<Rightarrow> cstring \<Rightarrow> cstring \<times> int \<Rightarrow> cstring \<times> int" where
  "panic_visit R nm st = (case panic_time R nm of None \<Rightarrow> st
     | Some mtime \<Rightarrow> if snd st \<le> mtime then (panic_path nm, mtime) else st)"

definition build_last_kmsg_blob :: "report_dir \<Rightarrow> bytes option" where
  "build_last_kmsg_blob R = (case rp_names R of None \<Rightarrow> None
     | Some names \<Rightarrow>
         let newest = fst (fold (panic_visit R) names ([], 0)) in
         if newest = [] then None
         else (case rp_stat R newest of None \<Rightarrow> None
           | Some (reg, mtime, sz) \<Rightarrow> if sz \<le> 0 \<or> \<not> rp_alloc R then None
               else (case rp_read R newest (nat sz) of None \<Rightarrow> None
                 | Some got \<Rightarrow> if got = [] then None else Some got)))"

text \<open>
  \<open>fgets\<close> takes up to 1023 bytes of a line at a time and \<open>fputs\<close> writes them up to a NUL, so the
  rest of a piece behind a NUL byte is lost.
\<close>

fun fgets_pieces :: "nat \<Rightarrow> bytes \<Rightarrow> bytes \<Rightarrow> bytes list" where
  "fgets_pieces cap acc [] = (if acc = [] then [] else [acc])"
| "fgets_pieces cap acc (c # cs) =
     (if c = NEWLINE \<or> length acc + 2 \<ge> cap then (acc @ [c]) # fgets_pieces cap [] cs
      else fgets_pieces cap (acc @ [c]) cs)"

definition build_nfsexports_blob :: "bytes option \<Rightarrow> bytes option" where
  "build_nfsexports_blob exports = map_option (\<lambda>d. concat (map cstr (fgets_pieces 1024 [] d))) exports"

section \<open>PCI and SCSI devices\<close>

record pci_entry =
  pe_debug :: "(nat \<Rightarrow> cstring) option"
  pe_vendor :: "bytes option"
  pe_device :: "bytes option"
  pe_assigned :: "bytes option"
  pe_name :: "(nat \<Rightarrow> cstring) option"

record pcirow =
  pr_bus :: u32
  pr_devfn :: u32
  pr_vendor :: u32
  pr_device :: u32
  pr_base :: "u64 list"
  pr_size :: "u64 list"
  pr_name :: cstring

definition bar_index :: "u32 \<Rightarrow> nat option" where
  "bar_index reg =
     (if 0x10 \<le> reg \<and> reg \<le> 0x24 \<and> (reg - 0x10) AND 0x3 = 0 then Some (unat ((reg - 0x10) div 4))
      else if reg = 0x30 then Some 6 else None)"

definition bar_flags :: "u32 \<Rightarrow> u64" where
  "bar_flags c0 =
     (let space = drop_bit 24 c0 AND 0x3; prefetch = drop_bit 30 c0 AND 0x1
      in if space = 1 then 0x1 else (if space = 3 then 0x4 else 0) OR (if prefetch \<noteq> 0 then 0x8 else 0))"

definition bar_tuple :: "bytes \<Rightarrow> u64 list \<times> u64 list \<Rightarrow> u64 list \<times> u64 list" where
  \<comment> \<open>one tuple of five cells\<close>
  "bar_tuple t = (\<lambda>(base, sz). let c0 = u32_at t 0 in
     case bar_index (c0 AND 0xff) of None \<Rightarrow> (base, sz)
     | Some i \<Rightarrow> (base[i := (ucast (u32_at t 4) OR push_bit 32 (ucast (u32_at t 8))) OR bar_flags c0],
                 sz[i := ucast (u32_at t 12) OR push_bit 32 (ucast (u32_at t 16))]))"

fun tuples :: "nat \<Rightarrow> bytes \<Rightarrow> bytes list" where
  "tuples 0 b = []"
| "tuples (Suc k) b = take 20 b # tuples k (drop 20 b)"

definition pci_read_bars :: "bytes option \<Rightarrow> u64 list \<times> u64 list" where
  "pci_read_bars p = (case p of None \<Rightarrow> (replicate 7 0, replicate 7 0)
     | Some b \<Rightarrow> fold bar_tuple (tuples (length b div 20) b) (replicate 7 0, replicate 7 0))"

definition pci_cfdata_le32 :: "bytes option \<Rightarrow> u32" where
  "pci_cfdata_le32 p = (case p of None \<Rightarrow> 0 | Some b \<Rightarrow> of_nat (le_nat (take 4 b)))"

text \<open>\<open>sscanf\<close> with \<open>%u:%u:%u\<close>: a conversion that fails leaves its variable and the later ones at 0.\<close>

definition scan_number :: "string \<Rightarrow> (int \<times> string) option" where
  \<comment> \<open>white space, a sign and digits, limited as \<open>strtoul\<close> limits them\<close>
  "scan_number s =
     (let t = dropWhile (\<lambda>c. c \<in> {CHR '' '', CHR 0x09, CHR 0x0A, CHR 0x0B, CHR 0x0C, CHR 0x0D}) s;
          neg = (take 1 t = ''-''); d = (if take 1 t = ''-'' \<or> take 1 t = ''+'' then drop 1 t else t);
          ds = takeWhile is_digit d; v = int (digits_value 0 ds)
      in if ds = [] then None else Some (if neg then - v else v, drop (length ds) d))"

definition clamp_ulong :: "int \<Rightarrow> int" where
  "clamp_ulong v = (if v < - (2 ^ 64 - 1) \<or> 2 ^ 64 - 1 < v then 2 ^ 64 - 1 else v)"

definition scan_colon :: "string option \<Rightarrow> u32 \<times> string option" where
  \<comment> \<open>one number, and what follows a colon behind it\<close>
  "scan_colon s = (case s of None \<Rightarrow> (0, None)
     | Some t \<Rightarrow> (case scan_number t of None \<Rightarrow> (0, None)
         | Some (v, rest) \<Rightarrow> (of_int (clamp_ulong v), if take 1 rest = '':'' then Some (drop 1 rest) else None)))"

definition pci_row :: "pci_entry \<Rightarrow> pcirow" where
  "pci_row e =
     (let (bus, s1) = scan_colon (Some (cfstr_copy (pe_debug e) 64)); (dev, s2) = scan_colon s1; func = fst (scan_colon s2);
          (base, sz) = pci_read_bars (pe_assigned e)
      in \<lparr>pr_bus = bus AND 0xff, pr_devfn = push_bit 3 (dev AND 0x1f) OR (func AND 0x07),
          pr_vendor = pci_cfdata_le32 (pe_vendor e) AND 0xffff, pr_device = pci_cfdata_le32 (pe_device e) AND 0xffff,
          pr_base = base, pr_size = sz, pr_name = cfstr_copy (pe_name e) 64\<rparr>)"

fun grow_all :: "(nat \<Rightarrow> bool) \<Rightarrow> nat \<Rightarrow> 'a list \<Rightarrow> 'a list \<times> nat \<Rightarrow> 'a list \<times> nat" where
  \<comment> \<open>append rows until the array cannot grow\<close>
  "grow_all realloc_ok first [] st = st"
| "grow_all realloc_ok first (r # rs) st = (case grow realloc_ok first r st of None \<Rightarrow> st | Some st' \<Rightarrow> grow_all realloc_ok first rs st')"

definition zero_hex :: "nat \<Rightarrow> nat \<Rightarrow> string" where
  "zero_hex w n = pad_left CHR ''0'' w (hex n)"

definition pci_line :: "pcirow \<Rightarrow> string" where
  "pci_line r = zero_hex 2 (unat (pr_bus r)) @ zero_hex 2 (unat (pr_devfn r)) @ TAB @ zero_hex 4 (unat (pr_vendor r)) @
     zero_hex 4 (unat (pr_device r)) @ TAB @ ''0'' @
     concat (map (\<lambda>v. TAB @ pad_left CHR '' '' 16 (hex (unat v))) (pr_base r @ pr_size r)) @ TAB @ pr_name r @ [NEWLINE]"

definition build_pci_blob :: "(pcirow list \<Rightarrow> pcirow list) \<Rightarrow> (nat \<Rightarrow> bool) \<Rightarrow> pci_entry list option \<Rightarrow> bytes option" where
  "build_pci_blob qs realloc_ok entries = map_option (\<lambda>es.
     concat (map pci_line (qs (fst (grow_all realloc_ok 32 (map pci_row es) ([], 0)))))) entries"

record scsi_entry =
  se_vendor :: "(nat \<Rightarrow> cstring) option"
  se_model :: "(nat \<Rightarrow> cstring) option"
  se_rev :: "(nat \<Rightarrow> cstring) option"
  se_pdt :: "int option"

definition scsi_type_name :: "int \<Rightarrow> string" where
  "scsi_type_name pdt = (case map_of [(0x00, ''Direct-Access''), (0x01, ''Sequential-Access''), (0x02, ''Printer''),
       (0x03, ''Processor''), (0x04, ''WORM''), (0x05, ''CD-ROM''), (0x06, ''Scanner''), (0x07, ''Optical Device''),
       (0x08, ''Medium Changer''), (0x0e, ''RBC Device'')] pdt of None \<Rightarrow> ''Unknown'' | Some s \<Rightarrow> s)"

definition scsi_classes :: "cstring list" where
  "scsi_classes = [''IOSCSIPeripheralDeviceType00'', ''IOSCSIPeripheralDeviceType05'', ''IOSCSIPeripheralDeviceType07'',
     ''IOSCSIPeripheralDeviceType0E'']"

definition scsi_text :: "nat \<Rightarrow> scsi_entry \<Rightarrow> string" where
  "scsi_text host e = ''Host: scsi'' @ dec host @ '' Channel: 00 Id: 00 Lun: 00'' @ [NEWLINE] @
     ''  Vendor: '' @ pad_right 8 (cfstr_copy (se_vendor e) 64) @ '' Model: '' @ pad_right 16 (cfstr_copy (se_model e) 64) @
     '' Rev: '' @ pad_right 4 (cfstr_copy (se_rev e) 64) @ [NEWLINE] @
     ''  Type:   '' @ pad_right 33 (scsi_type_name (case se_pdt e of None \<Rightarrow> 0 | Some p \<Rightarrow> p)) @ '' ANSI  SCSI revision: 05'' @ [NEWLINE]"

definition matching :: "(cstring \<Rightarrow> 'a list option) \<Rightarrow> cstring list \<Rightarrow> (cstring \<times> 'a) list" where
  \<comment> \<open>the services of each class in turn; a class whose query fails is passed over\<close>
  "matching services classes = concat (map (\<lambda>c. case services c of None \<Rightarrow> [] | Some es \<Rightarrow> map (Pair c) es) classes)"

definition build_scsi_blob :: "(cstring \<Rightarrow> scsi_entry list option) \<Rightarrow> bytes" where
  "build_scsi_blob services = (let es = map snd (matching services scsi_classes) in
     ''Attached devices:'' @ [NEWLINE] @ concat (map (\<lambda>i. scsi_text i (es ! i)) [0..<length es]))"

definition build_fb_blob :: "(cstring \<Rightarrow> cstring option list option) \<Rightarrow> bytes" where
  \<comment> \<open>the names of the framebuffers, \<^const>\<open>None\<close> when the name cannot be read\<close>
  "build_fb_blob services = (let es = matching services [''IOFramebuffer'', ''IOMobileFramebuffer''] in
     concat (map (\<lambda>i. dec i @ '' '' @ (case es ! i of (c, None) \<Rightarrow> c | (c, Some nm) \<Rightarrow> if nm = [] then c else nm) @ [NEWLINE])
       [0..<length es]))"

section \<open>Interrupts\<close>

record irq_entry =
  iq_specs :: "bytes option list option" \<comment> \<open>\<^const>\<open>None\<close> in the list is an element that is not data\<close>
  iq_ctrls :: "(nat \<Rightarrow> cstring) option list option"
  iq_name :: cstring

record irqrow =
  ir_irq :: u32
  ir_ctrl :: cstring
  ir_dev :: cstring

definition irq_ctrl :: "irq_entry \<Rightarrow> nat \<Rightarrow> cstring" where
  "irq_ctrl e i = (case iq_ctrls e of None \<Rightarrow> []
     | Some cs \<Rightarrow> if i < length cs then cfstr_copy (cs ! i) 80 else [])"

definition irq_rows :: "irq_entry \<Rightarrow> irqrow list" where
  "irq_rows e = (case iq_specs e of None \<Rightarrow> []
     | Some specs \<Rightarrow> concat (map (\<lambda>i. case specs ! i of
           Some d \<Rightarrow> if 4 \<le> length d then [\<lparr>ir_irq = u32_at d 0, ir_ctrl = irq_ctrl e i, ir_dev = strlcpy (iq_name e) 80\<rparr>] else []
         | None \<Rightarrow> []) [0..<length specs]))"

definition irq_ncpu :: "int option \<Rightarrow> nat" where
  "irq_ncpu logicalcpu = (case logicalcpu of None \<Rightarrow> 1 | Some n \<Rightarrow> if n < 1 then 1 else if 64 < n then 64 else nat n)"

definition build_interrupts_blob ::
  "(irqrow list \<Rightarrow> irqrow list) \<Rightarrow> (nat \<Rightarrow> bool) \<Rightarrow> int option \<Rightarrow> irq_entry list option \<Rightarrow> bytes" where
  \<comment> \<open>an array that cannot grow ends the rows of one entry, not of those that follow\<close>
  "build_interrupts_blob qs realloc_ok logicalcpu entries =
     (let ncpu = irq_ncpu logicalcpu;
          rows = (case entries of None \<Rightarrow> [] | Some es \<Rightarrow> fst (fold (\<lambda>e. grow_all realloc_ok 128 (irq_rows e)) es ([], 0)))
      in ''     '' @ cpu_header ncpu @
         concat (map (\<lambda>r. pad_left CHR '' '' 4 (dec (unat (ir_irq r))) @ '':'' @
           concat (replicate ncpu (''          0'')) @ ''  '' @ ir_ctrl r @ ''  '' @ ir_dev r @ [NEWLINE]) (qs rows)))"

section \<open>System V IPC\<close>

record ipc_perm =
  ip_key :: int
  ip_seq :: u16
  ip_mode :: u16
  ip_uid :: u32
  ip_gid :: u32
  ip_cuid :: u32
  ip_cgid :: u32

record shmid_ds =
  shm_perm :: ipc_perm
  shm_segsz :: u64
  shm_cpid :: int
  shm_lpid :: int
  shm_nattch :: u16
  shm_atime :: int
  shm_dtime :: int
  shm_ctime :: int

record semid_ds =
  sem_perm :: ipc_perm
  sem_nsems :: u16
  sem_otime :: int
  sem_ctime :: int

record msqid_ds =
  msg_perm :: ipc_perm
  msg_cbytes :: u64
  msg_qnum :: u64
  msg_lspid :: int
  msg_lrpid :: int
  msg_stime :: int
  msg_rtime :: int
  msg_ctime :: int

definition PROCFS_IPCS_GUARD :: nat where "PROCFS_IPCS_GUARD = 200000"

text \<open>
  The answers of the iterating sysctl, call by call: the cursor it leaves and the record, \<^const>\<open>None\<close>
  when it fails.
\<close>

fun ipcs_loop :: "nat \<Rightarrow> (nat \<Rightarrow> (int \<times> 'd) option) \<Rightarrow> nat \<Rightarrow> (int \<times> 'd) list" where
  "ipcs_loop 0 next_ds i = []"
| "ipcs_loop (Suc guard) next_ds i = (case next_ds i of None \<Rightarrow> [] | Some d \<Rightarrow> d # ipcs_loop guard next_ds (Suc i))"

definition ipc_id :: "ipc_perm \<Rightarrow> int \<Rightarrow> int" where
  "ipc_id p cursor = int32 (uint (push_bit 16 (ucast (ip_seq p)) OR (of_int (cursor - 1) AND 0xffff) :: u32))"

fun oct :: "nat \<Rightarrow> string" where
  "oct n = (if n < 8 then [digit_char n] else oct (n div 8) @ [digit_char (n mod 8)])"

declare oct.simps [simp del]

definition ipc_columns :: "ipc_perm \<Rightarrow> int \<Rightarrow> string" where
  "ipc_columns p cursor = right_int 10 (ip_key p) @ '' '' @ right_int 10 (ipc_id p cursor) @ '' '' @
     pad_left CHR '' '' 5 (oct (unat (ip_mode p AND 0x1ff)))"

definition ipc_owner :: "ipc_perm \<Rightarrow> string" where
  "ipc_owner p = right_int 5 (uint (ip_uid p)) @ '' '' @ right_int 5 (uint (ip_gid p)) @ '' '' @ right_int 5 (uint (ip_cuid p)) @
     '' '' @ right_int 5 (uint (ip_cgid p))"

definition shm_line :: "int \<times> shmid_ds \<Rightarrow> string" where
  "shm_line = (\<lambda>(cursor, ds). ipc_columns (shm_perm ds) cursor @ '' '' @ right_u64 10 (shm_segsz ds) @ '' '' @
     right_int 5 (shm_cpid ds) @ '' '' @ right_int 5 (shm_lpid ds) @ '' '' @ right_int 6 (uint (shm_nattch ds)) @ '' '' @
     ipc_owner (shm_perm ds) @ '' '' @ right_int 10 (shm_atime ds) @ '' '' @ right_int 10 (shm_dtime ds) @ '' '' @
     right_int 10 (shm_ctime ds) @ '' '' @ right_int 10 0 @ '' '' @ right_int 10 0 @ [NEWLINE])"

definition sem_line :: "int \<times> semid_ds \<Rightarrow> string" where
  "sem_line = (\<lambda>(cursor, ds). ipc_columns (sem_perm ds) cursor @ '' '' @ right_int 10 (uint (sem_nsems ds)) @ '' '' @
     ipc_owner (sem_perm ds) @ '' '' @ right_int 10 (sem_otime ds) @ '' '' @ right_int 10 (sem_ctime ds) @ [NEWLINE])"

definition msg_line :: "int \<times> msqid_ds \<Rightarrow> string" where
  "msg_line = (\<lambda>(cursor, ds). ipc_columns (msg_perm ds) cursor @ '' '' @ right_u64 10 (msg_cbytes ds) @ '' '' @
     right_u64 10 (msg_qnum ds) @ '' '' @ right_int 5 (msg_lspid ds) @ '' '' @ right_int 5 (msg_lrpid ds) @ '' '' @
     ipc_owner (msg_perm ds) @ '' '' @ right_int 10 (msg_stime ds) @ '' '' @ right_int 10 (msg_rtime ds) @ '' '' @
     right_int 10 (msg_ctime ds) @ [NEWLINE])"

definition build_sysvipc_shm_blob :: "(nat \<Rightarrow> (int \<times> shmid_ds) option) \<Rightarrow> bytes" where
  "build_sysvipc_shm_blob next_ds = shm_header @ concat (map shm_line (ipcs_loop PROCFS_IPCS_GUARD next_ds 0))"

definition build_sysvipc_sem_blob :: "(nat \<Rightarrow> (int \<times> semid_ds) option) \<Rightarrow> bytes" where
  "build_sysvipc_sem_blob next_ds = sem_header @ concat (map sem_line (ipcs_loop PROCFS_IPCS_GUARD next_ds 0))"

definition build_sysvipc_msg_blob :: "(nat \<Rightarrow> (int \<times> msqid_ds) option) \<Rightarrow> bytes" where
  "build_sysvipc_msg_blob next_ds = msg_header @ concat (map msg_line (ipcs_loop PROCFS_IPCS_GUARD next_ds 0))"

section \<open>The power state\<close>

record power_source =
  ps_on_ac :: "bool option"
  ps_charging :: "bool option"
  ps_current :: "int option"
  ps_maximum :: "int option"
  ps_to_full :: "int option"
  ps_to_empty :: "int option"

definition source_info :: "power_source \<Rightarrow> apm_info" where
  "source_info d =
     (let chg = (ps_charging d = Some True);
          cur = (case ps_current d of None \<Rightarrow> 0 | Some c \<Rightarrow> c); mx = (case ps_maximum d of None \<Rightarrow> 0 | Some m \<Rightarrow> m)
      in \<lparr>ac_online = (case ps_on_ac d of None \<Rightarrow> - 1 | Some b \<Rightarrow> if b then 1 else 0), battery_present = 1,
          charging = (if chg then 1 else 0),
          percentage = (if 0 < mx then sgn (int32 (cur * 100)) * (\<bar>int32 (cur * 100)\<bar> div mx) else - 1),
          time_minutes = (case if chg then ps_to_full d else ps_to_empty d of None \<Rightarrow> - 1 | Some t \<Rightarrow> t)\<rparr>)"

definition fill_apm_info :: "power_source option list option \<Rightarrow> apm_info" where
  \<comment> \<open>\<^const>\<open>None\<close> when there is no information or no list; in the list, a source without a description\<close>
  "fill_apm_info sources = (case sources of None \<Rightarrow> apm_unknown
     | Some [] \<Rightarrow> apm_unknown\<lparr>ac_online := 1\<rparr>
     | Some ds \<Rightarrow> (case List.find (\<lambda>d. d \<noteq> None) ds of Some (Some d) \<Rightarrow> source_info d | _ \<Rightarrow> apm_unknown))"

definition encode_apm :: "apm_info \<Rightarrow> bytes" where
  "encode_apm i = int32_bytes (ac_online i) @ int32_bytes (battery_present i) @ int32_bytes (charging i) @
     int32_bytes (percentage i) @ int32_bytes (time_minutes i)"

section \<open>Lemmas\<close>

lemma sorts_byD:
  assumes "sorts_by k qs"
  shows "mset (qs xs) = mset xs" "sorted (map k (qs xs))" "set (qs xs) = set xs"
  using assms mset_eq_setD [of "qs xs" xs] by (simp_all add: sorts_by_def)

lemma sorts_by_distinct:
  assumes "sorts_by k qs" "distinct (map f xs)"
  shows "distinct (map f (qs xs))"
  using assms by (metis mset_eq_imp_distinct_iff mset_map sorts_byD(1))

subsection \<open>Devices\<close>

definition dev_key :: "devrow \<Rightarrow> u32 \<times> bool" where
  "dev_key r = (dr_major r, dr_is_block r)"

lemma dev_key_simps [simp]:
  "dev_key (r\<lparr>dr_name := nm\<rparr>) = dev_key r" "dev_key \<lparr>dr_major = mj, dr_is_block = blk, dr_name = nm\<rparr> = (mj, blk)"
  "dr_major r = mj \<and> dr_is_block r = blk \<longleftrightarrow> dev_key r = (mj, blk)"
  by (auto simp: dev_key_def)

text \<open>The device nodes among the names of \<open>/dev\<close>: the driver's number and type, and the family of the name.\<close>

definition dev_node :: "dev_dir \<Rightarrow> cstring \<Rightarrow> ((u32 \<times> bool) \<times> cstring) list" where
  "dev_node D nm = (case dev_stat D nm of
     Some (CharDev, rdev) \<Rightarrow> [((dev_major rdev, False), dev_family nm 64)]
   | Some (BlockDev, rdev) \<Rightarrow> [((dev_major rdev, True), dev_family nm 64)]
   | _ \<Rightarrow> [])"

definition dev_nodes :: "dev_dir \<Rightarrow> cstring list \<Rightarrow> ((u32 \<times> bool) \<times> cstring) list" where
  "dev_nodes D names = concat (map (dev_node D) names)"

definition dev_rows_ok :: "((u32 \<times> bool) \<times> cstring) list \<Rightarrow> devrow list \<Rightarrow> bool" where
  "dev_rows_ok ns rows \<longleftrightarrow> distinct (map dev_key rows) \<and> dev_key ` set rows = fst ` set ns \<and>
     (\<forall>r\<in>set rows. is_arg_min length (\<lambda>fam. (dev_key r, fam) \<in> set ns) (dr_name r))"

definition dev_shorten :: "u32 \<times> bool \<Rightarrow> cstring \<Rightarrow> devrow \<Rightarrow> devrow" where
  "dev_shorten k fam r = (if dev_key r = k \<and> length fam < length (dr_name r) then r\<lparr>dr_name := strlcpy fam 64\<rparr> else r)"

lemma dev_key_shorten [simp]: "dev_key (dev_shorten k fam r) = dev_key r"
  by (simp add: dev_shorten_def)

lemma dev_merge_update:
  "distinct (map dev_key rows) \<Longrightarrow> dev_merge mj blk fam rows =
    (if (mj, blk) \<in> dev_key ` set rows then Some (map (dev_shorten (mj, blk) fam) rows) else None)"
proof (induction rows)
  case (Cons r rows)
  show ?case
  proof (cases "dev_key r = (mj, blk)")
    case True
    then have "dev_key r' \<noteq> (mj, blk)" if "r' \<in> set rows" for r' using Cons.prems that by (metis distinct.simps(2) image_eqI list.set_map list.simps(9))
    then have "map (dev_shorten (mj, blk) fam) rows = rows"
      by (intro map_idI) (simp add: dev_shorten_def)
    with True show ?thesis by (simp add: dev_shorten_def)
  next
    case False
    with Cons show ?thesis by (auto simp: image_iff dev_shorten_def)
  qed
qed simp

lemma length_dev_family: "length (dev_family nm 64) \<le> 63"
proof -
  have "length (trim_separators cs) \<le> length cs" for cs
    by (induction cs rule: trim_separators.induct) auto
  from this [of "rev (take 63 (takeWhile (\<lambda>c. \<not> is_digit c) nm))"]
  show ?thesis by (auto simp: dev_family_def strlcpy_def Let_def intro: order.trans)
qed

lemma dev_rows_ok_step:
  assumes "dev_rows_ok ns rows" "length fam \<le> 63"
  shows "k \<in> dev_key ` set rows \<Longrightarrow> dev_rows_ok (ns @ [(k, fam)]) (map (dev_shorten k fam) rows)"
    and "k \<notin> dev_key ` set rows \<Longrightarrow> dev_rows_ok (ns @ [(k, fam)]) (rows @ [\<lparr>dr_major = fst k, dr_is_block = snd k, dr_name = fam\<rparr>])"
proof -
  have d: "distinct (map dev_key rows)" "dev_key ` set rows = fst ` set ns"
    "\<And>r. r \<in> set rows \<Longrightarrow> is_arg_min length (\<lambda>fam. (dev_key r, fam) \<in> set ns) (dr_name r)"
    using assms(1) by (simp_all add: dev_rows_ok_def)
  show "dev_rows_ok (ns @ [(k, fam)]) (map (dev_shorten k fam) rows)" if "k \<in> dev_key ` set rows"
    unfolding dev_rows_ok_def
  proof (intro conjI ballI)
    fix r assume "r \<in> set (map (dev_shorten k fam) rows)"
    then obtain q where q: "q \<in> set rows" "r = dev_shorten k fam q" by auto
    from d(3) [OF q(1)] assms(2) show "is_arg_min length (\<lambda>fam'. (dev_key r, fam') \<in> set (ns @ [(k, fam)])) (dr_name r)"
      by (fastforce simp: is_arg_min_def q(2) dev_shorten_def strlcpy_def)
  qed (use d that in \<open>auto simp: comp_def image_image\<close>)
  show "dev_rows_ok (ns @ [(k, fam)]) (rows @ [\<lparr>dr_major = fst k, dr_is_block = snd k, dr_name = fam\<rparr>])" if "k \<notin> dev_key ` set rows"
    unfolding dev_rows_ok_def
  proof (intro conjI ballI)
    fix r assume "r \<in> set (rows @ [\<lparr>dr_major = fst k, dr_is_block = snd k, dr_name = fam\<rparr>])"
    then consider "r \<in> set rows" | "r = \<lparr>dr_major = fst k, dr_is_block = snd k, dr_name = fam\<rparr>" by auto
    then show "is_arg_min length (\<lambda>fam'. (dev_key r, fam') \<in> set (ns @ [(k, fam)])) (dr_name r)"
    proof cases
      case 1
      then have "dev_key r \<noteq> k" using that by auto
      with d(3) [OF 1] show ?thesis by (simp add: is_arg_min_def)
    next
      case 2
      have "k \<notin> fst ` set ns" using that d(2) by simp
      with 2 show ?thesis by (force simp: is_arg_min_def)
    qed
  qed (use d that in auto)
qed

lemma dev_insert_ok:
  assumes "dev_rows_ok ns (fst st)" "length fam \<le> 63"
  shows "dev_rows_ok (ns @ [((mj, blk), fam)]) (fst (dev_insert (\<lambda>_. True) mj blk fam st))"
proof -
  have "distinct (map dev_key (fst st))" using assms(1) by (simp add: dev_rows_ok_def)
  with dev_rows_ok_step [OF assms, of "(mj, blk)"] assms(2) show ?thesis
    by (cases st) (auto simp: dev_insert_def dev_merge_update grow_def Let_def strlcpy_def)
qed

lemma dev_visit_ok:
  assumes "dev_rows_ok ns (fst st)"
  shows "dev_rows_ok (ns @ dev_node D nm) (fst (dev_visit (\<lambda>_. True) D nm st))"
  using assms dev_insert_ok [OF assms length_dev_family]
  by (auto simp: dev_visit_def dev_node_def split: option.split file_kind.split)

lemma dev_fold_ok:
  "dev_rows_ok ns (fst st) \<Longrightarrow> dev_rows_ok (ns @ dev_nodes D names) (fst (fold (dev_visit (\<lambda>_. True) D) names st))"
proof (induction names arbitrary: ns st)
  case (Cons nm names)
  from Cons.IH [OF dev_visit_ok [OF Cons.prems]] show ?case by (simp add: dev_nodes_def)
qed (simp add: dev_nodes_def)

subsection \<open>Terminals\<close>

text \<open>The terminals among the names of \<open>/dev\<close>, with major and minor number.\<close>

definition tty_nodes :: "dev_dir \<Rightarrow> cstring list \<Rightarrow> (u32 \<times> u32) list" where
  "tty_nodes D names = concat (map (\<lambda>nm. if tty_is_name nm then (case dev_stat D nm of
     Some (CharDev, rdev) \<Rightarrow> [(dev_major rdev, dev_minor rdev)] | _ \<Rightarrow> []) else []) names)"

definition tty_rows_ok :: "(u32 \<times> u32) list \<Rightarrow> ttyrow list \<Rightarrow> bool" where
  "tty_rows_ok ns rows \<longleftrightarrow> distinct (map ty_major rows) \<and> ty_major ` set rows = fst ` set ns \<and>
     (\<forall>r\<in>set rows. (ty_major r, ty_min r) \<in> set ns \<and> (ty_major r, ty_max r) \<in> set ns \<and>
        (\<forall>mn. (ty_major r, mn) \<in> set ns \<longrightarrow> ty_min r \<le> mn \<and> mn \<le> ty_max r))"

definition tty_widen :: "u32 \<Rightarrow> u32 \<Rightarrow> ttyrow \<Rightarrow> ttyrow" where
  "tty_widen mj mn r = (if ty_major r = mj then r\<lparr>ty_min := (if mn < ty_min r then mn else ty_min r),
     ty_max := (if ty_max r < mn then mn else ty_max r)\<rparr> else r)"

lemma ty_major_widen [simp]: "ty_major (tty_widen mj mn r) = ty_major r"
  by (simp add: tty_widen_def)

lemma tty_merge_update:
  "distinct (map ty_major rows) \<Longrightarrow> tty_merge mj mn rows =
    (if mj \<in> ty_major ` set rows then Some (map (tty_widen mj mn) rows) else None)"
proof (induction rows)
  case (Cons r rows)
  show ?case
  proof (cases "ty_major r = mj")
    case True
    then have "ty_major r' \<noteq> mj" if "r' \<in> set rows" for r' using Cons.prems that by (metis distinct.simps(2) image_eqI list.set_map list.simps(9))
    then have "map (tty_widen mj mn) rows = rows" by (intro map_idI) (simp add: tty_widen_def)
    with True show ?thesis by (simp add: tty_widen_def)
  next
    case False
    with Cons show ?thesis by (auto simp: image_iff tty_widen_def)
  qed
qed simp

lemma tty_rows_ok_step:
  assumes "tty_rows_ok ns rows"
  shows "mj \<in> ty_major ` set rows \<Longrightarrow> tty_rows_ok (ns @ [(mj, mn)]) (map (tty_widen mj mn) rows)"
    and "mj \<notin> ty_major ` set rows \<Longrightarrow> ty_major r = mj \<Longrightarrow> ty_min r = mn \<Longrightarrow> ty_max r = mn \<Longrightarrow>
      tty_rows_ok (ns @ [(mj, mn)]) (rows @ [r])"
proof -
  have d: "distinct (map ty_major rows)" "ty_major ` set rows = fst ` set ns"
    "\<And>r. r \<in> set rows \<Longrightarrow> (ty_major r, ty_min r) \<in> set ns \<and> (ty_major r, ty_max r) \<in> set ns \<and>
        (\<forall>mn. (ty_major r, mn) \<in> set ns \<longrightarrow> ty_min r \<le> mn \<and> mn \<le> ty_max r)"
    using assms by (simp_all add: tty_rows_ok_def)
  show "tty_rows_ok (ns @ [(mj, mn)]) (map (tty_widen mj mn) rows)" if "mj \<in> ty_major ` set rows"
    unfolding tty_rows_ok_def
  proof (intro conjI)
    show "\<forall>r\<in>set (map (tty_widen mj mn) rows). (ty_major r, ty_min r) \<in> set (ns @ [(mj, mn)]) \<and>
        (ty_major r, ty_max r) \<in> set (ns @ [(mj, mn)]) \<and>
        (\<forall>m. (ty_major r, m) \<in> set (ns @ [(mj, mn)]) \<longrightarrow> ty_min r \<le> m \<and> m \<le> ty_max r)"
      using d(3) by (fastforce simp: tty_widen_def)
  qed (use d that in \<open>auto simp: comp_def image_image\<close>)
  show "tty_rows_ok (ns @ [(mj, mn)]) (rows @ [r])"
    if new: "mj \<notin> ty_major ` set rows" "ty_major r = mj" "ty_min r = mn" "ty_max r = mn"
  proof -
    have "mj \<notin> fst ` set ns" using new(1) d(2) by simp
    then have fresh: "(mj, m) \<notin> set ns" for m by force
    have "ty_major q \<noteq> mj" if "q \<in> set rows" for q using new(1) that by blast
    with d fresh new show ?thesis by (simp add: tty_rows_ok_def)
  qed
qed

lemma tty_loop_ok:
  "tty_rows_ok ns (fst st) \<Longrightarrow> tty_rows_ok (ns @ tty_nodes D names) (tty_loop (\<lambda>_. True) D names st)"
proof (induction names arbitrary: ns st)
  case (Cons nm names)
  show ?case
  proof (cases "tty_is_name nm \<and> (\<exists>rdev. dev_stat D nm = Some (CharDev, rdev))")
    case True
    then obtain rdev where rdev: "tty_is_name nm" "dev_stat D nm = Some (CharDev, rdev)" by blast
    let ?mj = "dev_major rdev" and ?mn = "dev_minor rdev"
    have d: "distinct (map ty_major (fst st))" using Cons.prems by (simp add: tty_rows_ok_def)
    have n: "tty_nodes D (nm # names) = (?mj, ?mn) # tty_nodes D names" using rdev by (simp add: tty_nodes_def)
    show ?thesis
    proof (cases "?mj \<in> ty_major ` set (fst st)")
      case True
      with Cons.IH [of "ns @ [(?mj, ?mn)]" "(map (tty_widen ?mj ?mn) (fst st), snd st)"] tty_rows_ok_step(1) [OF Cons.prems True, of ?mn] rdev n
      show ?thesis by (simp add: tty_merge_update [OF d] Let_def)
    next
      case False
      with Cons.IH [of "ns @ [(?mj, ?mn)]"] tty_rows_ok_step(2) [OF Cons.prems False] rdev n d
      show ?thesis by (cases st) (simp add: tty_merge_update grow_def Let_def)
    qed
  next
    case False
    then have "tty_loop (\<lambda>_. True) D (nm # names) st = tty_loop (\<lambda>_. True) D names st" "tty_nodes D (nm # names) = tty_nodes D names"
      by (auto simp: tty_nodes_def split: option.split file_kind.split)
    with Cons show ?thesis by simp
  qed
qed (simp add: tty_nodes_def)

text \<open>
  The rows of \<open>tty/drivers\<close>: one for each major number of a terminal, and its range is exactly from
  the lowest to the highest minor number.
\<close>

lemma tty_rows_complete:
  assumes "sorts_by ty_major qs" "rows = qs (tty_loop (\<lambda>_. True) D names ([], 0))"
  shows "sorted (map ty_major rows)" "tty_rows_ok (tty_nodes D names) rows"
proof -
  have "tty_rows_ok (tty_nodes D names) (tty_loop (\<lambda>_. True) D names ([], 0))"
    using tty_loop_ok [of "[]" "([], 0)"] by (simp add: tty_rows_ok_def)
  then show "tty_rows_ok (tty_nodes D names) rows"
    using sorts_byD(3) [OF assms(1)] sorts_by_distinct [OF assms(1), where f = ty_major] unfolding tty_rows_ok_def assms(2) by simp
  show "sorted (map ty_major rows)" using sorts_byD(2) [OF assms(1)] by (simp add: assms(2))
qed

subsection \<open>Panic reports\<close>

definition panic_inv :: "report_dir \<Rightarrow> cstring set \<Rightarrow> cstring \<times> int \<Rightarrow> bool" where
  "panic_inv R seen st \<longleftrightarrow>
     (if fst st = [] then snd st = 0 \<and> (\<forall>nm\<in>seen. \<forall>t. panic_time R nm = Some t \<longrightarrow> t < 0)
      else 0 \<le> snd st \<and> (\<exists>nm\<in>seen. panic_time R nm = Some (snd st) \<and> fst st = panic_path nm) \<and>
        (\<forall>nm\<in>seen. \<forall>t. panic_time R nm = Some t \<longrightarrow> t \<le> snd st))"

lemma panic_path_nonempty: "panic_path nm \<noteq> []"
  by (simp add: panic_path_def snprintf_def PROCFS_PANIC_DIR_def MAXPATHLEN_def)

lemma panic_fold_inv: "panic_inv R seen st \<Longrightarrow> panic_inv R (seen \<union> set names) (fold (panic_visit R) names st)"
proof (induction names arbitrary: seen st)
  case (Cons nm names)
  have "panic_inv R (insert nm seen) (panic_visit R nm st)"
    using Cons.prems panic_path_nonempty [of nm]
    by (auto simp: panic_inv_def panic_visit_def split: option.split if_splits)
  from Cons.IH [OF this] show ?case by simp
qed simp

text \<open>When there is a report dated after 1970, the one shown is a newest one.\<close>

lemma last_kmsg_newest:
  assumes "rp_names R = Some names" "nm \<in> set names" "panic_time R nm = Some t" "0 \<le> t"
  shows "\<exists>nm'\<in>set names. \<exists>t'. panic_time R nm' = Some t' \<and> (\<forall>n\<in>set names. \<forall>t. panic_time R n = Some t \<longrightarrow> t \<le> t') \<and>
    fst (fold (panic_visit R) names ([], 0)) = panic_path nm'"
proof -
  let ?st = "fold (panic_visit R) names ([], 0)"
  have inv: "panic_inv R (set names) ?st" using panic_fold_inv [of R "{}" "([], 0)" names] by (simp add: panic_inv_def)
  then have "fst ?st \<noteq> []" using assms(2-4) by (force simp: panic_inv_def)
  with inv show ?thesis unfolding panic_inv_def by auto
qed

subsection \<open>Base address registers\<close>

lemma bar_index_less: "bar_index reg = Some i \<Longrightarrow> i < 7"
proof -
  assume "bar_index reg = Some i"
  moreover have "unat ((reg - 0x10) div 4) \<le> 5" if "0x10 \<le> reg" "reg \<le> 0x24"
  proof -
    have "unat (reg - 0x10) \<le> 20" using that by (simp add: unat_sub word_le_nat_alt)
    then show ?thesis by (simp add: unat_div)
  qed
  ultimately show ?thesis by (auto simp: bar_index_def split: if_splits)
qed

abbreviation bar_of :: "bytes \<Rightarrow> nat option" where
  "bar_of t \<equiv> bar_index (u32_at t 0 AND 0xff)"

lemma length_bar_tuple [simp]:
  "length (fst (bar_tuple t bs)) = length (fst bs)" "length (snd (bar_tuple t bs)) = length (snd bs)"
  by (auto simp: bar_tuple_def Let_def split: prod.split option.split)

lemma bar_fold_other:
  "\<forall>t\<in>set ts. bar_of t \<noteq> Some i \<Longrightarrow> fst (fold bar_tuple ts bs) ! i = fst bs ! i \<and> snd (fold bar_tuple ts bs) ! i = snd bs ! i"
proof (induction ts arbitrary: bs)
  case (Cons t ts)
  have "fst (bar_tuple t bs) ! i = fst bs ! i \<and> snd (bar_tuple t bs) ! i = snd bs ! i"
    using Cons.prems by (auto simp: bar_tuple_def Let_def split: prod.split option.split)
  with Cons show ?case by simp
qed simp

lemma tuples_concat: "\<forall>t\<in>set ts. length t = 20 \<Longrightarrow> tuples (length ts) (concat ts) = ts"
  by (induction ts) simp_all

lemma length_concat_tuples: "\<forall>t\<in>set ts. length t = 20 \<Longrightarrow> length (concat ts) = 20 * length ts"
  by (induction ts) simp_all

text \<open>
  Each register gets the address, the flags and the size of the last tuple for it; a register
  without a tuple is 0. No tuple writes outside the seven registers.
\<close>

lemma pci_bars_from_tuples:
  assumes "\<forall>t\<in>set (ts @ t # ts'). length t = 20" "bar_of t = Some i" "\<forall>t'\<in>set ts'. bar_of t' \<noteq> Some i"
  shows "fst (pci_read_bars (Some (concat (ts @ t # ts')))) ! i =
      (ucast (u32_at t 4) OR push_bit 32 (ucast (u32_at t 8))) OR bar_flags (u32_at t 0)"
    and "snd (pci_read_bars (Some (concat (ts @ t # ts')))) ! i = ucast (u32_at t 12) OR push_bit 32 (ucast (u32_at t 16))"
proof -
  let ?z = "(replicate 7 0, replicate 7 0) :: u64 list \<times> u64 list"
  have len: "length (fst (fold bar_tuple ts bs)) = length (fst bs) \<and> length (snd (fold bar_tuple ts bs)) = length (snd bs)" for ts bs
    by (induction ts arbitrary: bs) simp_all
  have l: "length (concat (ts @ t # ts')) div 20 = length (ts @ t # ts')" using length_concat_tuples [OF assms(1)] by simp
  have r: "pci_read_bars (Some (concat (ts @ t # ts'))) = fold bar_tuple ts' (bar_tuple t (fold bar_tuple ts ?z))"
    unfolding pci_read_bars_def option.case l tuples_concat [OF assms(1)] by simp
  have i: "i < 7" using assms(2) by (rule bar_index_less)
  obtain b z where bz: "fold bar_tuple ts ?z = (b, z)" by (cases "fold bar_tuple ts ?z")
  then have "length b = 7" "length z = 7" using len [of ts ?z] by simp_all
  with i bz assms(2) bar_fold_other [OF assms(3), of "bar_tuple t (fold bar_tuple ts ?z)"] r
  show "fst (pci_read_bars (Some (concat (ts @ t # ts')))) ! i =
      (ucast (u32_at t 4) OR push_bit 32 (ucast (u32_at t 8))) OR bar_flags (u32_at t 0)"
    "snd (pci_read_bars (Some (concat (ts @ t # ts')))) ! i = ucast (u32_at t 12) OR push_bit 32 (ucast (u32_at t 16))"
    by (simp_all add: bar_tuple_def Let_def)
qed

subsection \<open>The power state\<close>

definition apm_ok :: "apm_info \<Rightarrow> bool" where
  "apm_ok i \<longleftrightarrow> i32 (ac_online i) \<and> i32 (battery_present i) \<and> i32 (charging i) \<and> i32 (percentage i) \<and> i32 (time_minutes i)"

lemma length_encode_apm [simp]: "length (encode_apm i) = 20"
  by (simp add: encode_apm_def)

lemma decode_encode_apm: "apm_ok i \<Longrightarrow> decode_apm (encode_apm i) = i"
proof -
  have "le_int32 (int32_bytes v @ d) = le_int32 (int32_bytes v)" for v d by (simp add: le_int32_def)
  then show "apm_ok i \<Longrightarrow> decode_apm (encode_apm i) = i"
    by (simp add: decode_apm_def encode_apm_def apm_ok_def i32_def le_int32_bytes)
qed

end
