(* ===== verification/NetBuilders.thy ===== *)
theory NetBuilders
  imports Builders
begin

text \<open>
  The network tables of the daemon (\<open>tools/procfsd.c\<close>, \<open>tools/net_pcb_abi.h\<close>): the socket tables it
  reads as streams of length-tagged blocks, the routing and ARP tables it reads as routing
  messages, and the protocol counters. Shown here: both walks end on every input, and a stream
  as the kernel writes it is shown with one numbered line for each socket of the wanted family,
  from the blocks of that socket; except that the count in the trailer can be taken for a kind.

  A table is the length the kernel reports and the contents of the whole buffer, which is longer;
  a C pointer into it is the rest of the buffer from there on.
\<close>

section \<open>Fetching a table\<close>

record table_try =
  tt_need :: "nat option"
  tt_realloc :: bool
  tt_data :: "nat \<Rightarrow> (nat \<times> bytes) res"

fun fetch_table :: "nat \<Rightarrow> (nat \<Rightarrow> table_try) \<Rightarrow> nat \<Rightarrow> (nat \<times> bytes) option" where
  "fetch_table 0 T attempt = None"
| "fetch_table (Suc k) T attempt = (case tt_need (T attempt) of None \<Rightarrow> None
     | Some need \<Rightarrow> if need = 0 \<or> \<not> tt_realloc (T attempt) then None
         else (case tt_data (T attempt) (need + need div 8 + 4096) of
             Inr d \<Rightarrow> Some d
           | Inl err \<Rightarrow> if err = ENOMEM then fetch_table k T (Suc attempt) else None))"

definition u16_at :: "bytes \<Rightarrow> nat \<Rightarrow> u16" where
  "u16_at b off = of_nat (le_nat (take 2 (drop off b)))"

definition ntohs_at :: "bytes \<Rightarrow> nat \<Rightarrow> nat" where
  "ntohs_at b off = unat (byte_at b off) * 256 + unat (byte_at b (off + 1))"

definition hexX :: "nat \<Rightarrow> nat \<Rightarrow> string" where
  "hexX w n = pad_left CHR ''0'' w (map toupper (hex n))"

section \<open>Streams of blocks\<close>

definition XSO_SOCKET :: u32 where "XSO_SOCKET = 0x001"
definition XSO_RCVBUF :: u32 where "XSO_RCVBUF = 0x002"
definition XSO_SNDBUF :: u32 where "XSO_SNDBUF = 0x004"
definition XSO_STATS :: u32 where "XSO_STATS = 0x008"
definition XSO_INPCB :: u32 where "XSO_INPCB = 0x010"
definition XSO_TCPCB :: u32 where "XSO_TCPCB = 0x020"
definition XSO_UNPCB :: u32 where "XSO_UNPCB = 0x200"

lemmas xso_defs = XSO_SOCKET_def XSO_RCVBUF_def XSO_SNDBUF_def XSO_STATS_def XSO_INPCB_def XSO_TCPCB_def XSO_UNPCB_def

definition PROCFS_ROUNDUP64 :: "u32 \<Rightarrow> nat" where
  "PROCFS_ROUNDUP64 x = unat ((x + 7) AND NOT 7)"

text \<open>The walk over the blocks; \<open>visit\<close> is the \<open>switch\<close> on the kind and gives \<^const>\<open>None\<close> for its default case.\<close>

function block_walk :: "(u32 \<Rightarrow> bytes \<Rightarrow> 's \<Rightarrow> 's option) \<Rightarrow> bytes \<Rightarrow> nat \<Rightarrow> nat \<Rightarrow> 's \<Rightarrow> 's" where
  "block_walk visit buf len p s =
     (if len < p + 8 then s
      else let blen = u32_at buf p; kind = u32_at buf (p + 4); adv = PROCFS_ROUNDUP64 blen in
        if blen < 8 \<or> len < p + adv \<or> adv = 0 then s
        else (case visit kind (drop p buf) s of None \<Rightarrow> s | Some s' \<Rightarrow> block_walk visit buf len (p + adv) s'))"
  by pat_completeness auto

termination
  by (relation "measure (\<lambda>(visit, buf, len, p, s). len - p)") auto

declare block_walk.simps [simp del]

subsection \<open>Internet sockets\<close>

text \<open>The blocks of the current socket, and the lines so far; \<open>sl\<close> is the number of lines.\<close>

record pcb_state =
  pc_xi :: "bytes option"
  pc_xso :: "bytes option"
  pc_xt :: "bytes option"
  pc_rcv :: "bytes option"
  pc_snd :: "bytes option"
  pc_lines :: "string list"

definition pcb_start :: pcb_state where
  "pcb_start = \<lparr>pc_xi = None, pc_xso = None, pc_xt = None, pc_rcv = None, pc_snd = None, pc_lines = []\<rparr>"

definition procfs_tcp_state_linux :: "nat list" where
  "procfs_tcp_state_linux = [7, 10, 2, 3, 1, 8, 4, 11, 9, 5, 6]"

definition pcb_st :: "bool \<Rightarrow> bytes \<Rightarrow> bytes option \<Rightarrow> nat" where
  "pcb_st is_tcp xi xt =
     (if is_tcp then
        let ts = (case xt of None \<Rightarrow> 0 | Some t \<Rightarrow> le_int32 (drop 36 t))
        in if 0 \<le> ts \<and> ts < 11 then procfs_tcp_state_linux ! nat ts else 0
      else if u16_at xi 16 \<noteq> 0 then 1 else 7)"

definition or_zero :: "bytes option \<Rightarrow> nat \<Rightarrow> nat" where
  "or_zero ptr off = (case ptr of None \<Rightarrow> 0 | Some b \<Rightarrow> unat (u32_at b off))"

definition pcb_addr :: "bool \<Rightarrow> bytes \<Rightarrow> nat \<Rightarrow> string" where
  \<comment> \<open>of the union at this offset\<close>
  "pcb_addr v6 xi off =
     (if v6 then concat (map (\<lambda>i. hexX 8 (unat (u32_at xi (off + 4 * i)))) [0..<4]) else hexX 8 (unat (u32_at xi (off + 12))))"

definition pcb_line :: "bool \<Rightarrow> bool \<Rightarrow> nat \<Rightarrow> bytes \<Rightarrow> bytes option \<Rightarrow> bytes option \<Rightarrow> bytes option \<Rightarrow> bytes option \<Rightarrow> string" where
  "pcb_line v6 is_tcp sl xi xso xt rcv sb =
     pad_left CHR '' '' 4 (dec sl) @ '': '' @ pcb_addr v6 xi 64 @ '':'' @ hexX 4 (ntohs_at xi 18) @ '' '' @
     pcb_addr v6 xi 48 @ '':'' @ hexX 4 (ntohs_at xi 16) @ '' '' @ hexX 2 (pcb_st is_tcp xi xt) @ '' '' @
     hexX 8 (or_zero sb 8) @ '':'' @ hexX 8 (or_zero rcv 8) @ '' 00:00000000 00000000 '' @
     pad_left CHR '' '' 5 (dec (or_zero xso 64)) @ ''        0 0'' @ [NEWLINE]"

definition INP_IPV4 :: u8 where "INP_IPV4 = 0x1"
definition INP_IPV6 :: u8 where "INP_IPV6 = 0x2"

definition pcb_emit :: "u8 \<Rightarrow> bool \<Rightarrow> pcb_state \<Rightarrow> string list" where
  "pcb_emit want is_tcp s = (case pc_xi s of None \<Rightarrow> pc_lines s
     | Some xi \<Rightarrow> if byte_at xi 44 AND want \<noteq> 0
         then pc_lines s @ [pcb_line (want = INP_IPV6) is_tcp (length (pc_lines s)) xi (pc_xso s) (pc_xt s) (pc_rcv s) (pc_snd s)]
         else pc_lines s)"

definition pcb_visit :: "u8 \<Rightarrow> bool \<Rightarrow> u32 \<Rightarrow> bytes \<Rightarrow> pcb_state \<Rightarrow> pcb_state option" where
  "pcb_visit want is_tcp kind b s =
     (if kind = XSO_INPCB then Some (pcb_start\<lparr>pc_xi := Some b, pc_lines := pcb_emit want is_tcp s\<rparr>)
      else if kind = XSO_SOCKET then Some (s\<lparr>pc_xso := Some b\<rparr>)
      else if kind = XSO_RCVBUF then Some (s\<lparr>pc_rcv := Some b\<rparr>)
      else if kind = XSO_SNDBUF then Some (s\<lparr>pc_snd := Some b\<rparr>)
      else if kind = XSO_TCPCB then Some (s\<lparr>pc_xt := Some b\<rparr>)
      else if kind = XSO_STATS then Some s
      else None)"

definition build_net_pcb_blob :: "u8 \<Rightarrow> bool \<Rightarrow> (nat \<Rightarrow> table_try) \<Rightarrow> bytes" where
  "build_net_pcb_blob want is_tcp T =
     (if want = INP_IPV6 then inet6_header else inet_header) @
     (case fetch_table 6 T 0 of None \<Rightarrow> []
      | Some (len, buf) \<Rightarrow> if len < 24 then []
          else concat (pcb_emit want is_tcp (block_walk (pcb_visit want is_tcp) buf len (PROCFS_ROUNDUP64 (u32_at buf 0)) pcb_start)))"

subsection \<open>Unix domain sockets\<close>

record unix_state =
  us_xu :: "bytes option"
  us_xso :: "bytes option"
  us_lines :: "string list"

definition SO_ACCEPTCONN :: u32 where "SO_ACCEPTCONN = 0x2"
definition PROCFS_SS_ISCONNECTED :: u16 where "PROCFS_SS_ISCONNECTED = 0x2"

definition unix_line :: "bytes \<Rightarrow> bytes option \<Rightarrow> string" where
  "unix_line xu xso =
     (let type = (case xso of None \<Rightarrow> 0 | Some b \<Rightarrow> unat (scast (u16_at b 16) :: u32));
          listen = (case xso of None \<Rightarrow> False | Some b \<Rightarrow> u32_at b 20 AND SO_ACCEPTCONN \<noteq> 0);
          conn = (case xso of None \<Rightarrow> False | Some b \<Rightarrow> u16_at b 26 AND PROCFS_SS_ISCONNECTED \<noteq> 0);
          path = cstr (take 104 (drop 78 xu))
      in hex016 (le_u64 (drop 8 xu)) @ '': '' @ hexX 8 (or_zero xso 92) @ '' 00000000 '' @
         (if listen then ''00010000'' else ''00000000'') @ '' '' @ hexX 4 type @ '' '' @
         (if \<not> listen \<and> conn then ''03'' else ''01'') @ '' '' @ right_u64 5 (le_u64 (drop 24 xu)) @
         (if path \<noteq> [] then '' '' @ path else []) @ [NEWLINE])"

definition unix_emit :: "unix_state \<Rightarrow> string list" where
  "unix_emit s = us_lines s @ (case us_xu s of None \<Rightarrow> [] | Some xu \<Rightarrow> [unix_line xu (us_xso s)])"

definition unix_visit :: "u32 \<Rightarrow> bytes \<Rightarrow> unix_state \<Rightarrow> unix_state option" where
  "unix_visit kind b s =
     (if kind = XSO_UNPCB then Some \<lparr>us_xu = Some b, us_xso = None, us_lines = unix_emit s\<rparr>
      else if kind = XSO_SOCKET then Some (s\<lparr>us_xso := Some b\<rparr>)
      else if kind \<in> {XSO_RCVBUF, XSO_SNDBUF, XSO_STATS} then Some s
      else None)"

definition unix_table :: "(nat \<Rightarrow> table_try) \<Rightarrow> string list" where
  "unix_table T = (case fetch_table 6 T 0 of None \<Rightarrow> []
     | Some (len, buf) \<Rightarrow> if len < 24 then []
         else unix_emit (block_walk unix_visit buf len (PROCFS_ROUNDUP64 (u32_at buf 0)) \<lparr>us_xu = None, us_xso = None, us_lines = []\<rparr>))"

definition build_net_unix_blob :: "(nat \<Rightarrow> table_try) \<Rightarrow> (nat \<Rightarrow> table_try) \<Rightarrow> bytes" where
  \<comment> \<open>the stream sockets and then the datagram sockets\<close>
  "build_net_unix_blob stream dgram = unix_header @ concat (unix_table stream) @ concat (unix_table dgram)"

section \<open>Routing messages\<close>

definition RTM_VERSION :: u8 where "RTM_VERSION = 5"
definition RTF_UP :: u32 where "RTF_UP = 0x1"
definition RTF_LLINFO :: u32 where "RTF_LLINFO = 0x400"
definition RTF_WASCLONED :: u32 where "RTF_WASCLONED = 0x20000"
definition RTF_SHOWN :: u32 where
  \<comment> \<open>\<open>RTF_UP | RTF_GATEWAY | RTF_HOST | RTF_DYNAMIC | RTF_MODIFIED\<close>\<close>
  "RTF_SHOWN = 0x37"
definition AF_INET :: u8 where "AF_INET = 2"
definition AF_LINK :: u8 where "AF_LINK = 18"

function msg_walk :: "(bytes \<Rightarrow> nat \<Rightarrow> string list) \<Rightarrow> bytes \<Rightarrow> nat \<Rightarrow> string list" where
  \<comment> \<open>\<open>lim\<close> counts the bytes from here to the end of the table\<close>
  "msg_walk line m lim =
     (if lim < 92 then []
      else let msglen = unat (u16_at m 0) in
        if msglen = 0 then [] else line m lim @ msg_walk line (drop msglen m) (lim - msglen))"
  by pat_completeness auto

termination
  by (relation "measure (\<lambda>(line, m, lim). lim)") auto

declare msg_walk.simps [simp del]

definition PROCFS_SA_SIZE :: "nat \<Rightarrow> nat" where
  "PROCFS_SA_SIZE sa_len = (if sa_len = 0 then 4 else 1 + ((sa_len - 1) OR 3))"

fun rt_addrs :: "bytes \<Rightarrow> nat \<Rightarrow> nat list \<Rightarrow> nat \<Rightarrow> (nat \<times> bytes) list" where
  \<comment> \<open>the addresses in the message, each as the rest of the buffer from it on\<close>
  "rt_addrs m lim [] sa = []"
| "rt_addrs m lim (i # is) sa =
     (if \<not> bit (u32_at m 12) i then rt_addrs m lim is sa
      else if lim < sa + 1 then []
      else (i, drop sa m) # rt_addrs m lim is (sa + PROCFS_SA_SIZE (unat (byte_at m sa))))"

definition sockaddrs :: "bytes \<Rightarrow> nat \<Rightarrow> nat \<Rightarrow> bytes option" where
  "sockaddrs m lim i = map_of (rt_addrs m lim [0..<8] 92) i"

definition rt_ifname :: "(u16 \<Rightarrow> cstring option) \<Rightarrow> bytes \<Rightarrow> cstring" where
  "rt_ifname if_indextoname m =
     (if u16_at m 4 = 0 then ''*'' else case if_indextoname (u16_at m 4) of None \<Rightarrow> ''*'' | Some nm \<Rightarrow> nm)"

definition route_line :: "(u16 \<Rightarrow> cstring option) \<Rightarrow> bytes \<Rightarrow> nat \<Rightarrow> string list" where
  "route_line if_indextoname m lim =
     (let flags = u32_at m 8 in
      if byte_at m 2 = RTM_VERSION \<and> flags AND RTF_UP \<noteq> 0 \<and> flags AND (RTF_WASCLONED OR RTF_LLINFO) = 0 then
        (case sockaddrs m lim 0 of None \<Rightarrow> []
         | Some dst \<Rightarrow>
             if byte_at dst 1 \<noteq> AF_INET then []
             else let g = (case sockaddrs m lim 1 of None \<Rightarrow> 0 | Some gw \<Rightarrow> if byte_at gw 1 = AF_INET then u32_at gw 4 else 0);
                      mask = (case sockaddrs m lim 2 of None \<Rightarrow> 0 | Some ms \<Rightarrow> if 8 \<le> byte_at ms 0 then u32_at ms 4 else 0)
                  in [rt_ifname if_indextoname m @ TAB @ hexX 8 (unat (u32_at dst 4)) @ TAB @ hexX 8 (unat g) @ TAB @
                      hexX 4 (unat (flags AND RTF_SHOWN)) @ TAB @ ''0'' @ TAB @ ''0'' @ TAB @ ''0'' @ TAB @ hexX 8 (unat mask) @
                      TAB @ ''0'' @ TAB @ ''0'' @ TAB @ ''0'' @ [NEWLINE]])
      else [])"

definition build_net_route_blob :: "(u16 \<Rightarrow> cstring option) \<Rightarrow> (nat \<Rightarrow> table_try) \<Rightarrow> bytes" where
  "build_net_route_blob if_indextoname T = route_header @ (case fetch_table 6 T 0 of None \<Rightarrow> []
     | Some (len, buf) \<Rightarrow> concat (msg_walk (route_line if_indextoname) buf len))"

definition dotted_quad :: "bytes \<Rightarrow> nat \<Rightarrow> string" where
  "dotted_quad b off = dec (unat (byte_at b off)) @ ''.'' @ dec (unat (byte_at b (off + 1))) @ ''.'' @
     dec (unat (byte_at b (off + 2))) @ ''.'' @ dec (unat (byte_at b (off + 3)))"

definition mac_text :: "bytes \<Rightarrow> string" where
  \<comment> \<open>of the link address, which follows the interface name\<close>
  "mac_text sdl = (let m = 8 + unat (byte_at sdl 5); h = (\<lambda>i. zero_hex 2 (unat (byte_at sdl (m + i))))
     in h 0 @ '':'' @ h 1 @ '':'' @ h 2 @ '':'' @ h 3 @ '':'' @ h 4 @ '':'' @ h 5)"

definition family :: "u8 \<Rightarrow> bytes option \<Rightarrow> bytes option" where
  "family af sa = (case sa of None \<Rightarrow> None | Some b \<Rightarrow> if byte_at b 1 = af then Some b else None)"

definition arp_line :: "(u16 \<Rightarrow> cstring option) \<Rightarrow> bytes \<Rightarrow> nat \<Rightarrow> string list" where
  "arp_line if_indextoname m lim =
     (if byte_at m 2 = RTM_VERSION then
        (case (family AF_INET (sockaddrs m lim 0), family AF_LINK (sockaddrs m lim 1)) of
           (Some dst, Some sdl) \<Rightarrow>
             let known = (byte_at sdl 6 = 6);
                 flags = (if \<not> known then 0 else if u32_at m 48 = 0 then 6 else 2)
             in [pad_right 16 (dotted_quad dst 4) @ '' 0x'' @ pad_right 10 ''1'' @ ''0x'' @ pad_right 10 (hex flags) @
                 (if known then mac_text sdl else ''00:00:00:00:00:00'') @ ''     '' @ pad_right 8 ''*'' @ '' '' @
                 rt_ifname if_indextoname m @ [NEWLINE]]
         | _ \<Rightarrow> [])
      else [])"

definition build_net_arp_blob :: "(u16 \<Rightarrow> cstring option) \<Rightarrow> (nat \<Rightarrow> table_try) \<Rightarrow> bytes" where
  "build_net_arp_blob if_indextoname T = arp_header @ (case fetch_table 6 T 0 of None \<Rightarrow> []
     | Some (len, buf) \<Rightarrow> concat (msg_walk (arp_line if_indextoname) buf len))"

section \<open>Protocol counters\<close>

text \<open>
  The counters of a protocol, by the name of their field; all are 0 when the sysctl fails. The two
  histograms of ICMP are indexed by type.
\<close>

type_synonym counters = "string \<Rightarrow> u32"

record net_stats =
  ns_tcp :: counters
  ns_ip :: counters
  ns_icmp :: counters
  ns_udp :: counters
  ns_inhist :: "nat \<Rightarrow> u32"
  ns_outhist :: "nat \<Rightarrow> u32"
  ns_forwarding :: int
  ns_ttl :: int

definition procfs_emit_kv_section :: "string \<Rightarrow> (string \<times> int) list \<Rightarrow> string" where
  "procfs_emit_kv_section pfx kv =
     pfx @ '':'' @ concat (map (\<lambda>(nm, v). '' '' @ nm) kv) @ [NEWLINE] @
     pfx @ '':'' @ concat (map (\<lambda>(nm, v). '' '' @ dec_int v) kv) @ [NEWLINE]"

definition tcpext_kv :: "counters \<Rightarrow> (string \<times> int) list" where
  "tcpext_kv t = (let c = (\<lambda>f. uint (t f)) in
     [(''SyncookiesSent'', 0), (''SyncookiesRecv'', 0), (''SyncookiesFailed'', 0), (''EmbryonicRsts'', c ''tcps_conndrops''),
      (''PruneCalled'', 0), (''ListenOverflows'', c ''tcps_listendrop''), (''ListenDrops'', c ''tcps_listendrop''),
      (''DelayedACKs'', c ''tcps_delack''), (''DelayedACKLost'', 0), (''TCPPureAcks'', c ''tcps_rcvackpack''),
      (''TCPTimeouts'', c ''tcps_rexmttimeo''), (''TCPLossProbes'', 0), (''TCPLostRetransmit'', c ''tcps_sndrexmitbad''),
      (''PAWSEstab'', c ''tcps_pawsdrop''), (''TCPRcvCollapsed'', 0), (''TCPAbortOnData'', c ''tcps_drops''),
      (''TCPAbortOnTimeout'', c ''tcps_keepdrops'')])"

definition ipext_kv :: "counters \<Rightarrow> (string \<times> int) list" where
  "ipext_kv ip = (let c = (\<lambda>f. uint (ip f)) in
     [(''InNoRoutes'', c ''ips_noroute''), (''InTruncatedPkts'', c ''ips_toosmall''), (''InMcastPkts'', 0), (''OutMcastPkts'', 0),
      (''InBcastPkts'', 0), (''OutBcastPkts'', 0), (''InOctets'', 0), (''OutOctets'', 0), (''InMcastOctets'', 0),
      (''OutMcastOctets'', 0), (''InBcastOctets'', 0), (''OutBcastOctets'', 0), (''InCsumErrors'', c ''ips_badsum''),
      (''InNoECTPkts'', 0)])"

definition build_net_netstat_blob :: "net_stats \<Rightarrow> bytes" where
  "build_net_netstat_blob N = procfs_emit_kv_section ''TcpExt'' (tcpext_kv (ns_tcp N)) @
     procfs_emit_kv_section ''IpExt'' (ipext_kv (ns_ip N))"

definition ip_kv :: "net_stats \<Rightarrow> (string \<times> int) list" where
  "ip_kv N = (let c = (\<lambda>f. uint (ns_ip N f)) in
     [(''Forwarding'', if ns_forwarding N \<noteq> 0 then 1 else 2), (''DefaultTTL'', ns_ttl N), (''InReceives'', c ''ips_total''),
      (''InHdrErrors'', c ''ips_badsum'' + c ''ips_tooshort'' + c ''ips_toosmall'' + c ''ips_badhlen'' + c ''ips_badvers'' + c ''ips_badlen''),
      (''InAddrErrors'', c ''ips_cantforward'' + c ''ips_badaddr''), (''ForwDatagrams'', c ''ips_forward''),
      (''InUnknownProtos'', c ''ips_noproto''), (''InDiscards'', 0), (''InDelivers'', c ''ips_delivered''),
      (''OutRequests'', c ''ips_localout''), (''OutDiscards'', c ''ips_odropped''), (''OutNoRoutes'', c ''ips_noroute''),
      (''ReasmTimeout'', c ''ips_fragtimeout''), (''ReasmReqds'', c ''ips_fragments''), (''ReasmOKs'', c ''ips_reassembled''),
      (''ReasmFails'', c ''ips_fragdropped''), (''FragOKs'', c ''ips_fragmented''), (''FragFails'', c ''ips_cantfrag''),
      (''FragCreates'', c ''ips_ofragments'')])"

definition icmp_types :: "(string \<times> nat) list" where
  "icmp_types = [(''DestUnreachs'', 3), (''TimeExcds'', 11), (''ParmProbs'', 12), (''SrcQuenchs'', 4), (''Redirects'', 5),
     (''Echos'', 8), (''EchoReps'', 0), (''Timestamps'', 13), (''TimestampReps'', 14), (''AddrMasks'', 17), (''AddrMaskReps'', 18)]"

definition ICMP_MAXTYPE :: nat where "ICMP_MAXTYPE = 40"

definition icmp_kv :: "net_stats \<Rightarrow> (string \<times> int) list" where
  "icmp_kv N =
     (let c = (\<lambda>f. uint (ns_icmp N f));
          inerr = c ''icps_badcode'' + c ''icps_tooshort'' + c ''icps_checksum'' + c ''icps_badlen'';
          total_of = (\<lambda>hist. \<Sum>i\<leftarrow>[0..<Suc ICMP_MAXTYPE]. uint (hist i))
      in [(''InMsgs'', total_of (ns_inhist N) + inerr), (''InErrors'', inerr), (''InCsumErrors'', c ''icps_checksum'')] @
         map (\<lambda>(nm, ty). (''In'' @ nm, uint (ns_inhist N ty))) icmp_types @
         [(''OutMsgs'', total_of (ns_outhist N)), (''OutErrors'', c ''icps_error'')] @
         map (\<lambda>(nm, ty). (''Out'' @ nm, uint (ns_outhist N ty))) icmp_types)"

definition tcp_kv :: "counters \<Rightarrow> (string \<times> int) list" where
  "tcp_kv t = (let c = (\<lambda>f. uint (t f)) in
     [(''RtoAlgorithm'', 1), (''RtoMin'', 0), (''RtoMax'', 0), (''MaxConn'', - 1), (''ActiveOpens'', c ''tcps_connattempt''),
      (''PassiveOpens'', c ''tcps_accepts''), (''AttemptFails'', c ''tcps_conndrops''), (''EstabResets'', c ''tcps_drops''),
      (''CurrEstab'', 0), (''InSegs'', c ''tcps_rcvtotal''), (''OutSegs'', c ''tcps_sndtotal''),
      (''RetransSegs'', c ''tcps_sndrexmitpack''), (''InErrs'', c ''tcps_rcvbadsum'' + c ''tcps_rcvbadoff'' + c ''tcps_rcvshort''),
      (''OutRsts'', 0), (''InCsumErrors'', c ''tcps_rcvbadsum'')])"

definition udp_kv :: "counters \<Rightarrow> (string \<times> int) list" where
  "udp_kv u = (let c = (\<lambda>f. uint (u f)) in
     [(''InDatagrams'', c ''udps_ipackets''), (''NoPorts'', c ''udps_noport''), (''InErrors'', c ''udps_hdrops'' + c ''udps_badlen''),
      (''OutDatagrams'', c ''udps_opackets''), (''RcvbufErrors'', c ''udps_fullsock''), (''SndbufErrors'', 0),
      (''InCsumErrors'', c ''udps_badsum''), (''IgnoredMulti'', 0)])"

definition build_net_snmp_blob :: "net_stats \<Rightarrow> bytes" where
  "build_net_snmp_blob N = procfs_emit_kv_section ''Ip'' (ip_kv N) @ procfs_emit_kv_section ''Icmp'' (icmp_kv N) @
     procfs_emit_kv_section ''Tcp'' (tcp_kv (ns_tcp N)) @ procfs_emit_kv_section ''Udp'' (udp_kv (ns_udp N))"

section \<open>Lemmas\<close>

subsection \<open>Counters\<close>

lemma kv_words:
  assumes "CHR '' '' \<notin> set w" "\<forall>w\<in>set ws. CHR '' '' \<notin> set w"
  shows "split_on CHR '' '' (w @ concat (map (\<lambda>w. '' '' @ w) ws)) = w # ws"
  using assms by (induction ws arbitrary: w) (simp_all add: split_on_single split_on_word)

text \<open>A section reads back: the words of its two lines are the names and the values, column by column.\<close>

lemma kv_section_reads_back:
  assumes "CHR '' '' \<notin> set pfx" "\<forall>(nm, v)\<in>set kv. CHR '' '' \<notin> set nm"
  shows "\<exists>names vals. procfs_emit_kv_section pfx kv = names @ [NEWLINE] @ vals @ [NEWLINE] \<and>
    split_on CHR '' '' names = (pfx @ '':'') # map fst kv \<and> split_on CHR '' '' vals = (pfx @ '':'') # map (dec_int \<circ> snd) kv"
proof (intro exI conjI)
  from assms show "split_on CHR '' '' ((pfx @ '':'') @ concat (map (\<lambda>w. '' '' @ w) (map fst kv))) = (pfx @ '':'') # map fst kv"
    "split_on CHR '' '' ((pfx @ '':'') @ concat (map (\<lambda>w. '' '' @ w) (map (dec_int \<circ> snd) kv))) = (pfx @ '':'') # map (dec_int \<circ> snd) kv"
    by (intro kv_words; auto)+
qed (simp add: procfs_emit_kv_section_def comp_def case_prod_unfold)

subsection \<open>Streams of blocks\<close>

lemma u32_at_append: "off + 4 \<le> length b \<Longrightarrow> u32_at (b @ r) off = u32_at b off"
  by (simp add: u32_at_def le_u32_def)

lemma u32_at_middle: "off + 4 \<le> length b \<Longrightarrow> u32_at (pre @ b @ r) (length pre + off) = u32_at b off"
  by (simp add: u32_at_def le_u32_def)

definition block_ok :: "bytes \<Rightarrow> bool" where
  "block_ok b \<longleftrightarrow> 8 \<le> u32_at b 0 \<and> PROCFS_ROUNDUP64 (u32_at b 0) = length b \<and> 8 \<le> length b"

fun visit_all :: "(u32 \<Rightarrow> bytes \<Rightarrow> 's \<Rightarrow> 's option) \<Rightarrow> bytes list \<Rightarrow> bytes \<Rightarrow> 's \<Rightarrow> 's option" where
  "visit_all visit [] rest s = Some s"
| "visit_all visit (b # bs) rest s = (case visit (u32_at b 4) (b @ concat bs @ rest) s of None \<Rightarrow> None
     | Some s' \<Rightarrow> visit_all visit bs rest s')"

lemma block_walk_block:
  assumes "block_ok b" "length pre + length b \<le> len" "visit (u32_at b 4) (b @ rest) s = Some s'"
  shows "block_walk visit (pre @ b @ rest) len (length pre) s = block_walk visit (pre @ b @ rest) len (length pre + length b) s'"
  using assms u32_at_middle [of 0 b pre rest] u32_at_middle [of 4 b pre rest]
  by (subst block_walk.simps) (auto simp: block_ok_def Let_def not_less)

lemma block_walk_blocks:
  "\<forall>b\<in>set bs. block_ok b \<Longrightarrow> length pre + length (concat bs) \<le> len \<Longrightarrow> visit_all visit bs rest s = Some s' \<Longrightarrow>
   block_walk visit (pre @ concat bs @ rest) len (length pre) s =
   block_walk visit (pre @ concat bs @ rest) len (length pre + length (concat bs)) s'"
proof (induction bs arbitrary: pre s)
  case (Cons b bs)
  then obtain s1 where s1: "visit (u32_at b 4) (b @ concat bs @ rest) s = Some s1" "visit_all visit bs rest s1 = Some s'"
    by (auto split: option.splits)
  have "block_walk visit (pre @ b @ concat bs @ rest) len (length pre) s =
      block_walk visit (pre @ b @ concat bs @ rest) len (length pre + length b) s1"
    using Cons.prems s1 by (intro block_walk_block) simp_all
  with Cons.IH [of "pre @ b" s1] Cons.prems s1 show ?case by (simp add: add.assoc)
qed simp

lemma block_walk_stop:
  assumes "block_ok b" "length pre + length b \<le> len" "visit (u32_at b 4) (b @ rest) s = None"
  shows "block_walk visit (pre @ b @ rest) len (length pre) s = s"
  using assms u32_at_middle [of 0 b pre rest] u32_at_middle [of 4 b pre rest]
  by (subst block_walk.simps) (auto simp: block_ok_def Let_def not_less)

lemma visit_all_append:
  "visit_all visit (bs @ cs) rest s = (case visit_all visit bs (concat cs @ rest) s of None \<Rightarrow> None
     | Some s' \<Rightarrow> visit_all visit cs rest s')"
  by (induction bs arbitrary: s) (simp_all split: option.split)

subsection \<open>Internet sockets\<close>

text \<open>
  A socket in the stream: its internet control block and the blocks that follow. Each block is long
  enough for the fields that are read from it.
\<close>

record net_rec =
  nr_inpcb :: bytes
  nr_blocks :: "bytes list"

definition sock_block_ok :: "bytes \<Rightarrow> bool" where
  "sock_block_ok b \<longleftrightarrow> block_ok b \<and> (\<exists>n. (u32_at b 4, n) \<in>
     {(XSO_SOCKET, 68), (XSO_RCVBUF, 12), (XSO_SNDBUF, 12), (XSO_TCPCB, 40), (XSO_STATS, 8)} \<and> n \<le> length b)"

definition net_rec_ok :: "net_rec \<Rightarrow> bool" where
  "net_rec_ok r \<longleftrightarrow> block_ok (nr_inpcb r) \<and> u32_at (nr_inpcb r) 4 = XSO_INPCB \<and> 80 \<le> length (nr_inpcb r) \<and>
     (\<forall>b\<in>set (nr_blocks r). sock_block_ok b)"

definition last_of :: "u32 \<Rightarrow> bytes list \<Rightarrow> bytes option" where
  "last_of kind bs = List.find (\<lambda>b. u32_at b 4 = kind) (rev bs)"

definition rec_line :: "bool \<Rightarrow> bool \<Rightarrow> nat \<Rightarrow> net_rec \<Rightarrow> string" where
  "rec_line v6 is_tcp sl r = (let bs = nr_blocks r in
     pcb_line v6 is_tcp sl (nr_inpcb r) (last_of XSO_SOCKET bs) (last_of XSO_TCPCB bs) (last_of XSO_RCVBUF bs) (last_of XSO_SNDBUF bs))"

definition rec_lines :: "u8 \<Rightarrow> bool \<Rightarrow> net_rec list \<Rightarrow> string list" where
  "rec_lines want is_tcp rs = (let fs = filter (\<lambda>r. byte_at (nr_inpcb r) 44 AND want \<noteq> 0) rs
     in map (\<lambda>i. rec_line (want = INP_IPV6) is_tcp i (fs ! i)) [0..<length fs])"

lemma rec_lines_snoc:
  "rec_lines want is_tcp (rs @ [r]) = rec_lines want is_tcp rs @
     (if byte_at (nr_inpcb r) 44 AND want \<noteq> 0 then [rec_line (want = INP_IPV6) is_tcp (length (rec_lines want is_tcp rs)) r] else [])"
  by (auto simp: rec_lines_def Let_def nth_append)

text \<open>A pointer to a block: the block and what follows it.\<close>

definition points :: "nat \<Rightarrow> bytes option \<Rightarrow> bytes option \<Rightarrow> bool" where
  "points n ptr blk \<longleftrightarrow> (case (ptr, blk) of (None, None) \<Rightarrow> True | (Some q, Some b) \<Rightarrow> n \<le> length b \<and> (\<exists>r. q = b @ r) | _ \<Rightarrow> False)"

lemma or_zero_points: "points n ptr blk \<Longrightarrow> off + 4 \<le> n \<Longrightarrow> or_zero ptr off = or_zero blk off"
  by (auto simp: points_def or_zero_def u32_at_append split: option.splits)

lemma pcb_line_points:
  assumes "80 \<le> length xi" "or_zero xso 64 = or_zero bso 64" "points 40 xt bt" "points 12 rcv br" "points 12 sb bs"
  shows "pcb_line v6 is_tcp sl (xi @ r) xso xt rcv sb = pcb_line v6 is_tcp sl xi bso bt br bs"
proof -
  have "byte_at (xi @ r) off = byte_at xi off" if "off < 80" for off using that assms(1) by (simp add: byte_at_def)
  moreover have "u16_at (xi @ r) 16 = u16_at xi 16" using assms(1) by (simp add: u16_at_def)
  moreover have "u32_at (xi @ r) off = u32_at xi off" if "off < 77" for off using that assms(1) by (simp add: u32_at_append)
  moreover have "(case xt of None \<Rightarrow> 0 | Some t \<Rightarrow> le_int32 (drop 36 t)) = (case bt of None \<Rightarrow> 0 | Some t \<Rightarrow> le_int32 (drop 36 t))"
    using assms(3) by (auto simp: points_def le_int32_def split: option.splits)
  ultimately show ?thesis
    using assms(2,4,5) by (simp add: pcb_line_def pcb_st_def pcb_addr_def ntohs_at_def or_zero_points eval_nat_numeral)
qed

definition rec_state :: "net_rec \<Rightarrow> string list \<Rightarrow> bytes list \<Rightarrow> pcb_state \<Rightarrow> bool" where
  "rec_state r lines ds s \<longleftrightarrow> (\<exists>q. pc_xi s = Some (nr_inpcb r @ q)) \<and> pc_lines s = lines \<and>
     points 68 (pc_xso s) (last_of XSO_SOCKET ds) \<and> points 40 (pc_xt s) (last_of XSO_TCPCB ds) \<and>
     points 12 (pc_rcv s) (last_of XSO_RCVBUF ds) \<and> points 12 (pc_snd s) (last_of XSO_SNDBUF ds)"

lemma last_of_snoc: "last_of kind (bs @ [b]) = (if u32_at b 4 = kind then Some b else last_of kind bs)"
  by (simp add: last_of_def)

lemma rec_state_block:
  assumes "rec_state r lines ds s" "sock_block_ok b"
  shows "\<exists>s'. pcb_visit want is_tcp (u32_at b 4) (b @ rest) s = Some s' \<and> rec_state r lines (ds @ [b]) s'"
  using assms by (auto simp: sock_block_ok_def pcb_visit_def rec_state_def last_of_snoc points_def xso_defs)

lemma rec_state_blocks:
  "rec_state r lines ds s \<Longrightarrow> \<forall>b\<in>set bs. sock_block_ok b \<Longrightarrow>
   \<exists>s'. visit_all (pcb_visit want is_tcp) bs rest s = Some s' \<and> rec_state r lines (ds @ bs) s'"
proof (induction bs arbitrary: ds s)
  case (Cons b bs)
  obtain s1 where "pcb_visit want is_tcp (u32_at b 4) (b @ concat bs @ rest) s = Some s1" "rec_state r lines (ds @ [b]) s1"
    using rec_state_block [OF Cons.prems(1)] Cons.prems(2) by fastforce
  with Cons.IH [of "ds @ [b]" s1] Cons.prems(2) show ?case by simp
qed simp

definition rec_blocks :: "net_rec \<Rightarrow> bytes list" where
  "rec_blocks r = nr_inpcb r # nr_blocks r"

lemma visit_record:
  assumes "net_rec_ok r" "pcb_emit want is_tcp s = rec_lines want is_tcp rs"
  shows "\<exists>s'. visit_all (pcb_visit want is_tcp) (rec_blocks r) rest s = Some s' \<and>
    rec_state r (rec_lines want is_tcp rs) (nr_blocks r) s' \<and> pcb_emit want is_tcp s' = rec_lines want is_tcp (rs @ [r])"
proof -
  let ?s1 = "pcb_start\<lparr>pc_xi := Some (nr_inpcb r @ concat (nr_blocks r) @ rest), pc_lines := rec_lines want is_tcp rs\<rparr>"
  have "rec_state r (rec_lines want is_tcp rs) [] ?s1" by (simp add: rec_state_def pcb_start_def points_def last_of_def)
  from rec_state_blocks [OF this, of "nr_blocks r" want is_tcp rest] assms(1)
  obtain s' where s': "visit_all (pcb_visit want is_tcp) (nr_blocks r) rest ?s1 = Some s'"
      "rec_state r (rec_lines want is_tcp rs) (nr_blocks r) s'" by (auto simp: net_rec_ok_def)
  have v: "visit_all (pcb_visit want is_tcp) (rec_blocks r) rest s = Some s'"
    using assms s'(1) by (simp add: rec_blocks_def net_rec_ok_def pcb_visit_def)
  obtain q where q: "pc_xi s' = Some (nr_inpcb r @ q)" using s'(2) by (auto simp: rec_state_def)
  have "byte_at (nr_inpcb r @ q) 44 = byte_at (nr_inpcb r) 44" using assms(1) by (simp add: byte_at_def net_rec_ok_def)
  then have "pcb_emit want is_tcp s' = rec_lines want is_tcp (rs @ [r])"
    using s'(2) q assms(1)
    by (simp add: pcb_emit_def rec_lines_snoc rec_line_def Let_def rec_state_def net_rec_ok_def pcb_line_points or_zero_points [where n = 68])
  with v s'(2) show ?thesis by blast
qed

lemma visit_records:
  "\<forall>r\<in>set rs. net_rec_ok r \<Longrightarrow> pcb_emit want is_tcp s = rec_lines want is_tcp ds \<Longrightarrow>
   \<exists>s'. visit_all (pcb_visit want is_tcp) (concat (map rec_blocks rs)) rest s = Some s' \<and>
     pcb_emit want is_tcp s' = rec_lines want is_tcp (ds @ rs)"
proof (induction rs arbitrary: ds s)
  case (Cons r rs)
  obtain s1 where s1: "visit_all (pcb_visit want is_tcp) (rec_blocks r) (concat (concat (map rec_blocks rs)) @ rest) s = Some s1"
      "pcb_emit want is_tcp s1 = rec_lines want is_tcp (ds @ [r])"
    using visit_record [OF _ Cons.prems(2)] Cons.prems(1) by fastforce
  with Cons.IH [of s1 "ds @ [r]"] Cons.prems(1) show ?case by (simp add: visit_all_append)
qed simp

text \<open>The whole stream: the generation record, the sockets, and the generation record again.\<close>

definition net_stream :: "bytes \<Rightarrow> net_rec list \<Rightarrow> bytes \<Rightarrow> bytes" where
  "net_stream h rs t = h @ concat (concat (map rec_blocks rs)) @ t"

definition gen_ok :: "bytes \<Rightarrow> bool" where
  "gen_ok b \<longleftrightarrow> length b = 24 \<and> u32_at b 0 = 24"

lemma gen_block_ok: "gen_ok b \<Longrightarrow> block_ok b"
  by (simp add: gen_ok_def block_ok_def PROCFS_ROUNDUP64_def)

lemma rec_blocks_ok: "\<forall>r\<in>set rs. net_rec_ok r \<Longrightarrow> \<forall>b\<in>set (concat (map rec_blocks rs)). block_ok b"
  by (auto simp: rec_blocks_def net_rec_ok_def sock_block_ok_def)

lemma stream_walk:
  assumes "gen_ok h" "\<forall>r\<in>set rs. net_rec_ok r" "buf = net_stream h rs t @ slack" "length (net_stream h rs t) \<le> len"
    and "visit_all (pcb_visit want is_tcp) (concat (map rec_blocks rs)) (t @ slack) pcb_start = Some s"
  shows "block_walk (pcb_visit want is_tcp) buf len (PROCFS_ROUNDUP64 (u32_at buf 0)) pcb_start =
    block_walk (pcb_visit want is_tcp) ((h @ concat (concat (map rec_blocks rs))) @ t @ slack) len
      (length (h @ concat (concat (map rec_blocks rs)))) s"
proof -
  let ?bs = "concat (map rec_blocks rs)"
  have "u32_at buf 0 = 24" using assms(1,3) u32_at_append [of 0 h] by (simp add: net_stream_def gen_ok_def)
  then have "PROCFS_ROUNDUP64 (u32_at buf 0) = length h" using assms(1) by (simp add: PROCFS_ROUNDUP64_def gen_ok_def)
  moreover have "block_walk (pcb_visit want is_tcp) (h @ concat ?bs @ t @ slack) len (length h) pcb_start =
      block_walk (pcb_visit want is_tcp) (h @ concat ?bs @ t @ slack) len (length h + length (concat ?bs)) s"
    using rec_blocks_ok [OF assms(2)] assms(4,5) by (intro block_walk_blocks) (simp_all add: net_stream_def)
  ultimately show ?thesis using assms(3) by (simp add: net_stream_def)
qed

text \<open>
  A stream is shown with a line for each socket of the family, numbered from 0 and made of the
  fields of that socket, as long as the number of sockets in the trailer is not the code of a kind.
\<close>

lemma pcb_table_lists_sockets:
  assumes "fetch_table 6 T 0 = Some (length (net_stream h rs t), net_stream h rs t @ slack)"
    and "gen_ok h" "gen_ok t" "\<forall>r\<in>set rs. net_rec_ok r" "u32_at t 4 \<notin> {1, 2, 4, 8, 0x10, 0x20}"
  shows "build_net_pcb_blob want is_tcp T = (if want = INP_IPV6 then inet6_header else inet_header) @ concat (rec_lines want is_tcp rs)"
proof -
  let ?st = "net_stream h rs t"
  have "pcb_emit want is_tcp pcb_start = rec_lines want is_tcp []" by (simp add: pcb_emit_def pcb_start_def rec_lines_def)
  from visit_records [OF assms(4) this, of "t @ slack"]
  obtain s where s: "visit_all (pcb_visit want is_tcp) (concat (map rec_blocks rs)) (t @ slack) pcb_start = Some s"
      "pcb_emit want is_tcp s = rec_lines want is_tcp rs" by auto
  have "block_walk (pcb_visit want is_tcp) (?st @ slack) (length ?st) (PROCFS_ROUNDUP64 (u32_at (?st @ slack) 0)) pcb_start = s"
    unfolding stream_walk [OF assms(2,4) refl order.refl s(1)]
    using assms(5) by (intro block_walk_stop gen_block_ok [OF assms(3)]) (auto simp: net_stream_def pcb_visit_def xso_defs)
  moreover have "24 \<le> length ?st" using assms(2) by (simp add: net_stream_def gen_ok_def)
  ultimately show ?thesis using assms(1) s(2) by (simp add: build_net_pcb_blob_def)
qed

text \<open>
  With a single socket the count is the code of a socket block, so the trailer is taken for one:
  the user id comes from behind the table.
\<close>

lemma pcb_trailer_mistaken:
  assumes "fetch_table 6 T 0 = Some (length (net_stream h [r] t), net_stream h [r] t @ slack)"
    and "gen_ok h" "gen_ok t" "net_rec_ok r" "u32_at t 4 = 1" "byte_at (nr_inpcb r) 44 AND want \<noteq> 0"
  shows "\<exists>xt rcv sb. build_net_pcb_blob want is_tcp T = (if want = INP_IPV6 then inet6_header else inet_header) @
      pcb_line (want = INP_IPV6) is_tcp 0 (nr_inpcb r) (Some (t @ slack)) xt rcv sb \<and>
    or_zero (Some (t @ slack)) 64 = unat (u32_at slack 40)"
proof -
  let ?st = "net_stream h [r] t"
  have "pcb_emit want is_tcp pcb_start = rec_lines want is_tcp []" by (simp add: pcb_emit_def pcb_start_def rec_lines_def)
  from visit_record [OF assms(4) this, of "t @ slack"]
  obtain s where s: "visit_all (pcb_visit want is_tcp) (concat (map rec_blocks [r])) (t @ slack) pcb_start = Some s"
      "rec_state r [] (nr_blocks r) s" by (auto simp: rec_lines_def)
  let ?pre = "h @ concat (concat (map rec_blocks [r]))"
  have len: "length ?st = length ?pre + length t" by (simp add: net_stream_def)
  have "block_walk (pcb_visit want is_tcp) (?pre @ t @ slack) (length ?st) (length ?pre) s =
      block_walk (pcb_visit want is_tcp) (?pre @ t @ slack) (length ?st) (length ?pre + length t) (s\<lparr>pc_xso := Some (t @ slack)\<rparr>)"
    using assms(5) len by (intro block_walk_block gen_block_ok [OF assms(3)]) (simp_all add: pcb_visit_def xso_defs)
  also have "\<dots> = s\<lparr>pc_xso := Some (t @ slack)\<rparr>" unfolding len by (subst block_walk.simps) simp
  finally have w: "block_walk (pcb_visit want is_tcp) (?st @ slack) (length ?st) (PROCFS_ROUNDUP64 (u32_at (?st @ slack) 0)) pcb_start =
      s\<lparr>pc_xso := Some (t @ slack)\<rparr>"
    using stream_walk [OF assms(2) _ refl order.refl s(1)] assms(4) by simp
  obtain q where q: "pc_xi s = Some (nr_inpcb r @ q)" "pc_lines s = []" using s(2) by (auto simp: rec_state_def)
  have "byte_at (nr_inpcb r @ q) 44 = byte_at (nr_inpcb r) 44" using assms(4) by (simp add: byte_at_def net_rec_ok_def)
  moreover have "24 \<le> length ?st" using assms(2) by (simp add: net_stream_def gen_ok_def)
  ultimately have "build_net_pcb_blob want is_tcp T = (if want = INP_IPV6 then inet6_header else inet_header) @
      pcb_line (want = INP_IPV6) is_tcp 0 (nr_inpcb r @ q) (Some (t @ slack)) (pc_xt s) (pc_rcv s) (pc_snd s)"
    using assms(1,6) w q by (simp add: build_net_pcb_blob_def pcb_emit_def)
  moreover have "pcb_line (want = INP_IPV6) is_tcp 0 (nr_inpcb r @ q) (Some (t @ slack)) (pc_xt s) (pc_rcv s) (pc_snd s) =
      pcb_line (want = INP_IPV6) is_tcp 0 (nr_inpcb r) (Some (t @ slack)) (last_of XSO_TCPCB (nr_blocks r))
        (last_of XSO_RCVBUF (nr_blocks r)) (last_of XSO_SNDBUF (nr_blocks r))"
    using assms(4) s(2) by (intro pcb_line_points) (simp_all add: net_rec_ok_def rec_state_def)
  moreover have "u32_at (t @ slack) 64 = u32_at slack 40" using assms(3) by (simp add: u32_at_def gen_ok_def)
  ultimately show ?thesis by (metis (no_types, lifting) or_zero_def option.simps(5))
qed

subsection \<open>Routing messages\<close>

definition msg_ok :: "bytes \<Rightarrow> bool" where
  "msg_ok m \<longleftrightarrow> 92 \<le> length m \<and> unat (u16_at m 0) = length m"

text \<open>Each message of a table is looked at once, in order.\<close>

lemma msg_walk_messages:
  "\<forall>m\<in>set ms. msg_ok m \<Longrightarrow> msg_walk line (concat ms @ slack) (length (concat ms)) =
    concat (map (\<lambda>i. line (concat (drop i ms) @ slack) (length (concat (drop i ms)))) [0..<length ms])"
proof (induction ms)
  case Nil
  show ?case by (subst msg_walk.simps) simp
next
  case (Cons m ms)
  have "u16_at (m @ concat ms @ slack) 0 = u16_at m 0" using Cons.prems by (simp add: u16_at_def msg_ok_def)
  then have "msg_walk line (concat (m # ms) @ slack) (length (concat (m # ms))) =
      line (concat (m # ms) @ slack) (length (concat (m # ms))) @ msg_walk line (concat ms @ slack) (length (concat ms))"
    using Cons.prems by (subst msg_walk.simps) (auto simp: msg_ok_def Let_def)
  with Cons show ?case by (simp add: upt_conv_Cons map_Suc_upt [symmetric] comp_def del: upt_Suc)
qed

end
