(* ===== verification/Spec2Isabelle.thy ===== *)
theory Spec2Isabelle
  imports Vfsops LinuxSys NetBuilders
begin

text \<open>
  Verification of mSL-ProcFS, a Linux-style \<open>/proc\<close> file system for macOS: a kernel extension
  (\<open>kext/\<close>) and a helper daemon (\<open>tools/procfsd.c\<close>).

  \<^descr> Prelude: byte strings, errno, the uio of a vnode operation, generic lemmas.
  \<^descr> Types: the data of \<open>include/fs/procfs/procfs.h\<close>.
  \<^descr> Structure: \<open>kext/procfs_structure.c\<close>, builder and tear-down of the layout tree.
  \<^descr> Layout: the tree of the first mount as a table, and the contract \<open>layout_tree\<close>.
\<close>

end
